(* ===== verification/Prelude.thy ===== *)
theory Prelude
  imports Main "HOL-Library.Word" "HOL-Library.Monad_Syntax"
begin

text \<open>
  Shared vocabulary of the development: the C integer types of the target
  (\<^verbatim>\<open>gcc -m32\<close>, so \<^verbatim>\<open>int\<close> and \<^verbatim>\<open>long\<close> have 32 bits), byte buffers with
  \<^verbatim>\<open>memcpy\<close> and \<^verbatim>\<open>memset\<close>, sectors of a buffer, C strings, and the generic
  lemmas on lists and words that the component theories use.
\<close>

unbundle bit_operations_syntax

section \<open>C integer types\<close>

type_synonym u8 = "8 word"
type_synonym u16 = "16 word"
type_synonym u32 = "32 word"
type_synonym u64 = "64 word"

named_theorems model_defs "definitions of the primitive state operations"

named_theorems range_simps "bounds of fields and results"

text \<open>A truth value as the C expression \<^verbatim>\<open>a || b\<close> or \<^verbatim>\<open>a == b\<close> yields it.\<close>

definition c_bool :: "bool \<Rightarrow> int" where
  "c_bool b = (if b then 1 else 0)"

lemma c_bool_cases [simp]: "c_bool b = 0 \<longleftrightarrow> \<not> b" "c_bool True = 1" "c_bool False = 0"
  by (simp_all add: c_bool_def)

subsection \<open>Small values and single bits\<close>

lemma bit_beyond: "0 \<le> x \<Longrightarrow> x < 2 ^ n \<Longrightarrow> n \<le> m \<Longrightarrow> \<not> bit (x :: int) m"
  by (metis bit_take_bit_iff linorder_not_less take_bit_int_eq_self)

lemma low_or_high: "(n::nat) \<in> {0, 1, 2, 3, 4, 5, 6, 7} \<or> (\<exists>m. n = 8 + m)"
proof (cases "n < 8")
  case True then show ?thesis by auto
next
  case False then show ?thesis using le_Suc_ex [of 8 n] by simp
qed

lemma uint_u8_bounds: "0 \<le> uint (b :: u8)" "uint b < 256"
  using unsigned_less [of b, where 'a = int] by simp_all


lemma uint_u8_pos: "b \<noteq> 0 \<Longrightarrow> 0 < uint (b :: u8)"
  using uint_u8_bounds(1) [of b] by (metis less_le uint_0_iff)

lemma uint_u8_u32 [simp]: "uint (ucast (b :: u8) :: u32) = uint b"
  using uint_u8_bounds [of b] by (simp add: unsigned_ucast_eq take_bit_int_eq_self)

lemma uint_add_small: "uint (a :: u32) + uint b < 2 ^ 32 \<Longrightarrow> uint (a + b) = uint a + uint b"
  using uint_add_lem [of a b] by simp

lemma uint_mult_small: "uint (a :: u32) * uint b < 2 ^ 32 \<Longrightarrow> uint (a * b) = uint a * uint b"
  using uint_mult_lem [of a b] by simp

lemma u32_div_of_nat: "a < 2 ^ 32 \<Longrightarrow> b < 2 ^ 32 \<Longrightarrow> (of_nat a :: u32) div of_nat b = of_nat (a div b)"
  unfolding word_unat_eq_iff by (simp add: unat_div_distrib unat_of_nat take_bit_nat_eq_self div_le_dividend [THEN le_less_trans])

lemma unat_u32_u64 [simp]: "unat (ucast (x :: u32) :: u64) = unat x"
proof -
  have "unat x < 2 ^ LENGTH(32)" by (rule unsigned_less)
  then show ?thesis by (simp add: unsigned_ucast_eq take_bit_nat_eq_self)
qed

lemma unat_u8_u32 [simp]: "unat (ucast (x :: u8) :: u32) = unat x"
  by transfer (simp add: take_bit_int_eq_self)

lemma unat_u64_u32: "unat (ucast (x :: u64) :: u32) = unat x mod 2 ^ 32"
  by (simp add: unsigned_ucast_eq) (simp add: take_bit_eq_mod)

section \<open>Byte buffers\<close>

type_synonym bytes = "u8 list"

text \<open>
  \<^verbatim>\<open>memcpy(dst, src, n)\<close>. The code calls it with at least \<open>n\<close> bytes on both sides; bytes
  outside either buffer are left out, so that a buffer keeps its length.
\<close>

definition memcpy_buf :: "nat \<Rightarrow> 'a list \<Rightarrow> 'a list \<Rightarrow> 'a list" where
  "memcpy_buf n dst src = take (length dst) (take n src @ drop (length (take n src)) dst)"

text \<open>\<^verbatim>\<open>memset(dst, c, n)\<close>.\<close>

definition memset_buf :: "'a \<Rightarrow> nat \<Rightarrow> 'a list \<Rightarrow> 'a list" where
  "memset_buf c n dst = replicate n c @ drop n dst"

lemma length_memcpy_buf [simp]: "length (memcpy_buf n dst src) = length dst"
  by (simp add: memcpy_buf_def)

lemma memcpy_buf_exact:
  "n \<le> length src \<Longrightarrow> n \<le> length dst \<Longrightarrow> memcpy_buf n dst src = take n src @ drop n dst"
  by (simp add: memcpy_buf_def)

lemma take_memcpy_buf [simp]:
  "m \<le> n \<Longrightarrow> n \<le> length src \<Longrightarrow> n \<le> length dst \<Longrightarrow> take m (memcpy_buf n dst src) = take m src"
  by (simp add: memcpy_buf_exact)

lemma length_memset_buf [simp]: "n \<le> length dst \<Longrightarrow> length (memset_buf c n dst) = length dst"
  by (simp add: memset_buf_def)

lemma memset_buf_all [simp]: "length dst = n \<Longrightarrow> memset_buf c n dst = replicate n c"
  by (simp add: memset_buf_def)

subsection \<open>Sectors of a buffer\<close>

text \<open>The \<open>k\<close>-th run of \<open>w\<close> bytes of a buffer.\<close>

definition chunk :: "nat \<Rightarrow> nat \<Rightarrow> 'a list \<Rightarrow> 'a list" where
  "chunk w k bs = take w (drop (k * w) bs)"

lemma length_chunk: "(k + 1) * w \<le> length bs \<Longrightarrow> length (chunk w k bs) = w"
  by (simp add: chunk_def)

lemma chunk_replicate: "(k + 1) * w \<le> n \<Longrightarrow> chunk w k (replicate n c) = replicate w c"
  by (simp add: chunk_def)

lemma chunk_memcpy_buf:
  assumes "(k + 1) * w \<le> n" "n \<le> length src" "n \<le> length dst"
  shows "chunk w k (memcpy_buf n dst src) = chunk w k src"
proof -
  have "chunk w k (memcpy_buf n dst src) = take w (drop (k * w) (take n src) @ drop (k * w + n - length (take n src)) (drop n dst))"
    using assms by (simp add: chunk_def memcpy_buf_exact)
  also have "\<dots> = take w (drop (k * w) (take n src))"
    using assms by simp
  also have "\<dots> = chunk w k src"
    using assms by (simp add: chunk_def drop_take)
  finally show ?thesis .
qed

section \<open>C strings\<close>

text \<open>
  A \<^verbatim>\<open>char *\<close> is modelled as the list of the characters before its terminating
  NUL; \<^verbatim>\<open>cstr\<close> reads one out of a byte buffer.
\<close>

definition chr8 :: "u8 \<Rightarrow> char" where
  "chr8 b = char_of (unat b)"

definition ord8 :: "char \<Rightarrow> u8" where
  "ord8 c = of_nat (of_char c)"

definition cstr :: "bytes \<Rightarrow> string" where
  "cstr bs = map chr8 (takeWhile (\<lambda>b. b \<noteq> 0) bs)"

lemma unat_ord8 [simp]: "unat (ord8 c) = of_char c"
  by (simp add: ord8_def unat_of_nat)

lemma chr8_ord8 [simp]: "chr8 (ord8 c) = c"
  by (simp add: chr8_def)

lemma unat_u8_less [simp]: "unat (b :: u8) < 256"
proof -
  have "unat b < 2 ^ LENGTH(8)" by (rule unsigned_less)
  then show ?thesis by simp
qed

lemma ord8_chr8 [simp]: "ord8 (chr8 b) = b"
  by (simp add: chr8_def ord8_def)

lemma chr8_inject [simp]: "chr8 a = chr8 b \<longleftrightarrow> a = b"
  by (metis ord8_chr8)

lemma length_cstr: "length (cstr bs) \<le> length bs"
  by (simp add: cstr_def length_takeWhile_le)

end
