(* ===== verification/Machine.thy ===== *)
theory Machine
  imports Prelude
begin

text \<open>
  The machine below the C code. \<open>platform\<close> collects what the C sources use but
  do not define: the BIOS disk service behind \<^verbatim>\<open>int $0x13\<close>, the I/O ports, the
  time-stamp counter and model-specific registers, the heap, the content of a stack buffer
  that is used before it is written, and the boot sector
  \<^verbatim>\<open>mbr_bin\<close> that the build generates from mbr.S. Its operations act on an
  unspecified device state \<open>'e\<close>, so every theorem holds for every such platform
  that meets the theorem's hypotheses. The real-mode mailbox that
  head.S (\<^verbatim>\<open>real_reg\<close>, \<^verbatim>\<open>real_dap\<close>, \<^verbatim>\<open>real_disk_param_ext\<close>, \<^verbatim>\<open>real_buffer\<close>) declares and
  disk.h types is the record \<open>real_area\<close>; \<open>int13_1\<close> to \<open>int13_4\<close> are the
  routines of int13.S and \<open>query_pcbios\<close> the register exchange of head.S.
\<close>

section \<open>The real-mode mailbox (disk.h, head.S)\<close>

text \<open>\<^verbatim>\<open>union reg_req\<close>, with the \<^verbatim>\<open>di\<close> and \<^verbatim>\<open>res\<close> words head.S keeps behind it.\<close>

record reg_req =
  r_al :: u8
  r_ah :: u8
  r_bl :: u8
  r_bh :: u8
  r_cl :: u8
  r_ch :: u8
  r_dl :: u8
  r_dh :: u8
  r_es :: u16
  r_si :: u16
  r_di :: u16
  r_res :: u32

text \<open>The word views \<^verbatim>\<open>w.cx\<close> and \<^verbatim>\<open>w.bx\<close> of the union.\<close>

definition r_cx :: "reg_req \<Rightarrow> u16" where
  "r_cx r = push_bit 8 (ucast (r_ch r)) OR ucast (r_cl r)"

definition set_cx :: "u16 \<Rightarrow> reg_req \<Rightarrow> reg_req" where
  "set_cx v r = r\<lparr>r_ch := ucast (drop_bit 8 v), r_cl := ucast v\<rparr>"

definition set_bx :: "u16 \<Rightarrow> reg_req \<Rightarrow> reg_req" where
  "set_bx v r = r\<lparr>r_bh := ucast (drop_bit 8 v), r_bl := ucast v\<rparr>"

record disk_dap =
  dap_size :: u8
  dap_unused :: u8
  dap_nsectors :: u16
  dap_offset :: u16
  dap_base :: u16
  dap_begin :: u64

record disk_param_ext_t =
  ext_size :: u16
  ext_flags :: u16
  ext_ncylinders :: u32
  ext_nheads :: u32
  ext_sectors_per_track :: u32
  ext_nsectors :: u64
  ext_bytes_per_sector :: u16
  ext_edd :: u32

record real_area =
  reg :: reg_req
  dap :: disk_dap
  pext :: disk_param_ext_t
  rbuf :: bytes

definition REAL_CODE_SEG :: u16 where "REAL_CODE_SEG = 0x1000"

definition BIOS_MAX_SECTOR_CNT :: nat where "BIOS_MAX_SECTOR_CNT = 63"

definition MAX_SECTOR_BUFFER_SIZE :: nat where
  "MAX_SECTOR_BUFFER_SIZE = BIOS_MAX_SECTOR_CNT * 512"

section \<open>The platform and the machine state\<close>

record 'e platform =
  p_bios :: "real_area \<Rightarrow> 'e \<Rightarrow> bool \<times> real_area \<times> 'e"
  p_inb :: "u16 \<Rightarrow> 'e \<Rightarrow> u8 \<times> 'e"
  p_outb :: "u8 \<Rightarrow> u16 \<Rightarrow> 'e \<Rightarrow> 'e"
  p_rdtsc :: "'e \<Rightarrow> u64 \<times> 'e"
  p_rdmsr :: "u32 \<Rightarrow> 'e \<Rightarrow> (u32 \<times> u32) \<times> 'e"
  p_malloc :: "u32 \<Rightarrow> 'e \<Rightarrow> bytes option \<times> 'e"
  p_free :: "'e \<Rightarrow> 'e"
  p_mbr_bin :: bytes
  p_stack :: bytes

text \<open>
  The pointers of disk.c into the relocated mailbox, the mailbox itself and the
  device state. The states of the later components extend this record.
\<close>

record real_ptrs =
  p_real_buffer :: u32
  p_real_reg :: u32
  p_real_dap :: u32
  p_real_disk_param_ext :: u32

record 'e mach =
  ptrs :: real_ptrs
  ra :: real_area
  dev :: 'e

section \<open>The BIOS call (head.S, int13.S)\<close>

text \<open>
  The 16-bit part of \<^verbatim>\<open>query_pcbios\<close> loads the registers from the mailbox, executes
  \<^verbatim>\<open>int $0x13\<close> and stores \<^verbatim>\<open>ax\<close> to \<^verbatim>\<open>si\<close> back; \<^verbatim>\<open>di\<close> is dropped and \<^verbatim>\<open>res\<close> is the
  carry flag.
\<close>

definition query_pcbios :: "'e platform \<Rightarrow> ('e, 'z) mach_scheme \<Rightarrow> ('e, 'z) mach_scheme" where
  "query_pcbios P s =
     (case p_bios P (ra s) (dev s) of (cf, a, e) \<Rightarrow>
        s\<lparr>ra := a\<lparr>reg := (reg a)\<lparr>r_di := r_di (reg (ra s)), r_res := (if cf then 1 else 0)\<rparr>\<rparr>,
          dev := e\<rparr>)"

definition upd_reg :: "(reg_req \<Rightarrow> reg_req) \<Rightarrow> ('e, 'z) mach_scheme \<Rightarrow> ('e, 'z) mach_scheme" where
  "upd_reg f s = s\<lparr>ra := (ra s)\<lparr>reg := f (reg (ra s))\<rparr>\<rparr>"

definition int13_call :: "'e platform \<Rightarrow> ('e, 'z) mach_scheme \<Rightarrow> int \<times> ('e, 'z) mach_scheme" where
  "int13_call P s = (let t = query_pcbios P s in (sint (r_res (reg (ra t))), t))"

definition int13_1 :: "'e platform \<Rightarrow> ('e, 'z) mach_scheme \<Rightarrow> int \<times> ('e, 'z) mach_scheme" where
  "int13_1 P s = int13_call P (upd_reg (\<lambda>r. r\<lparr>r_es := 0, r_si := 0, r_di := 0\<rparr>) s)"

definition int13_2 :: "'e platform \<Rightarrow> ('e, 'z) mach_scheme \<Rightarrow> int \<times> ('e, 'z) mach_scheme" where
  "int13_2 P s =
     int13_call P (upd_reg (\<lambda>r. set_bx (ucast (p_real_buffer (ptrs s) XOR push_bit 4 (ucast REAL_CODE_SEG)))
       (r\<lparr>r_es := REAL_CODE_SEG, r_si := 0, r_di := 0\<rparr>)) s)"

definition int13_3 :: "'e platform \<Rightarrow> ('e, 'z) mach_scheme \<Rightarrow> int \<times> ('e, 'z) mach_scheme" where
  "int13_3 P s =
     (let d = (dap (ra s))\<lparr>dap_size := 0x10, dap_unused := 0,
                dap_offset := ucast (p_real_buffer (ptrs s) AND 0xffff),
                dap_base := ucast (drop_bit 4 (p_real_buffer (ptrs s) AND 0xf0000))\<rparr>
      in int13_call P (upd_reg (\<lambda>r. r\<lparr>r_si := ucast (p_real_dap (ptrs s) AND 0xffff), r_di := 0\<rparr>)
           (s\<lparr>ra := (ra s)\<lparr>dap := d\<rparr>\<rparr>)))"

definition int13_4 :: "'e platform \<Rightarrow> ('e, 'z) mach_scheme \<Rightarrow> int \<times> ('e, 'z) mach_scheme" where
  "int13_4 P s =
     int13_call P (upd_reg (\<lambda>r. r\<lparr>r_si := ucast (p_real_disk_param_ext (ptrs s) AND 0xffff), r_di := 0\<rparr>)
       (s\<lparr>ra := (ra s)\<lparr>pext := (pext (ra s))\<lparr>ext_size := 0x1e\<rparr>\<rparr>\<rparr>))"

lemmas int13_defs [model_defs] =
  int13_1_def int13_2_def int13_3_def int13_4_def int13_call_def query_pcbios_def upd_reg_def
  set_bx_def Let_def

lemma int13_call_ret: "fst (int13_call P s) \<in> {0, 1}"
  by (auto simp: int13_call_def query_pcbios_def Let_def split: prod.splits)

lemma r_cx_set_cx [simp]: "r_cx (set_cx v r) = v"
  unfolding r_cx_def set_cx_def
  by (rule bit_word_eqI) (auto simp: bit_simps)

end
