(* ===== verification/Disk.thy ===== *)
theory Disk
  imports Machine
begin

text \<open>
  The BIOS disk driver of disk.c and disk.h. Every function takes the platform and the
  machine state and returns its result, its output arguments and the new state; a
  buffer argument is passed in and handed back. Functions that reject their arguments
  return -1 before they touch the mailbox. Debug output is left out of the functions.
\<close>

section \<open>Data (disk.h)\<close>

record disk_param =
  disk_id :: u8
  drives :: u8
  last_heads :: u8
  last_cylinders :: u16
  last_sectors_per_track :: u8
  drive_type :: u8
  has_ext :: u8
  ext :: disk_param_ext_t

definition zero_ext :: disk_param_ext_t where
  "zero_ext = \<lparr>ext_size = 0, ext_flags = 0, ext_ncylinders = 0, ext_nheads = 0,
     ext_sectors_per_track = 0, ext_nsectors = 0, ext_bytes_per_sector = 0, ext_edd = 0\<rparr>"

definition zero_param :: disk_param where
  "zero_param = \<lparr>disk_id = 0, drives = 0, last_heads = 0, last_cylinders = 0,
     last_sectors_per_track = 0, drive_type = 0, has_ext = 0, ext = zero_ext\<rparr>"

definition CHS_HEAD_MAX :: int where "CHS_HEAD_MAX = 254"

definition CHS_CYLINDER_MAX :: int where "CHS_CYLINDER_MAX = 1023"

definition CHS_SECTOR_MAX :: int where "CHS_SECTOR_MAX = 63"

lemmas chs_max_defs [model_defs] = CHS_HEAD_MAX_def CHS_CYLINDER_MAX_def CHS_SECTOR_MAX_def

section \<open>Relocation of the real-mode code\<close>

text \<open>
  \<^verbatim>\<open>relocate_real\<close> copies the code and data between \<^verbatim>\<open>real_code_begin\<close> and
  \<^verbatim>\<open>real_code_end\<close> to \<^verbatim>\<open>REAL_CODE_ADDR\<close> and moves the four pointers by the same offset.
\<close>

definition REAL_CODE_ADDR :: u32 where
  "REAL_CODE_ADDR = push_bit 4 (ucast REAL_CODE_SEG) + 0"

definition relocate_real :: "u32 \<Rightarrow> real_ptrs \<Rightarrow> ('e, 'z) mach_scheme \<Rightarrow> ('e, 'z) mach_scheme" where
  "relocate_real real_code_begin link s =
     (let offset = real_code_begin - REAL_CODE_ADDR
      in s\<lparr>ptrs := \<lparr>p_real_buffer = p_real_buffer link - offset, p_real_reg = p_real_reg link - offset,
            p_real_dap = p_real_dap link - offset,
            p_real_disk_param_ext = p_real_disk_param_ext link - offset\<rparr>\<rparr>)"

section \<open>Cylinder and sector packing\<close>

definition get_chs_from_pack :: "u16 \<Rightarrow> int \<times> int" where
  "get_chs_from_pack c_s =
     (drop_bit 8 (uint c_s AND 0xFF00) OR push_bit 2 (uint c_s AND 0xC0), uint c_s AND 63)"

definition set_chs_to_pack :: "int \<Rightarrow> int \<Rightarrow> u16" where
  "set_chs_to_pack cylinder sector =
     word_of_int (push_bit 8 (cylinder AND 255) OR drop_bit 2 (cylinder AND 768) OR sector)"

section \<open>Drive parameters\<close>

text \<open>The register block of a request with \<^verbatim>\<open>al\<close>, \<^verbatim>\<open>bx\<close>, \<^verbatim>\<open>cx\<close> and \<^verbatim>\<open>dh\<close> cleared.\<close>

definition request :: "u8 \<Rightarrow> u8 \<Rightarrow> reg_req \<Rightarrow> reg_req" where
  "request fn drv r = r\<lparr>r_al := 0, r_ah := fn, r_bl := 0, r_bh := 0, r_ch := 0, r_cl := 0, r_dh := 0, r_dl := drv\<rparr>"

definition get_disk_param ::
  "'e platform \<Rightarrow> u8 \<Rightarrow> ('e, 'z) mach_scheme \<Rightarrow> (int \<times> disk_param) \<times> ('e, 'z) mach_scheme" where
  "get_disk_param P drv s =
     (case int13_1 P (upd_reg (request 0x08 drv) s) of (ret, s) \<Rightarrow>
        let r = reg (ra s); (c, sec) = get_chs_from_pack (r_cx r)
        in ((if ret = 0 then ret else uint (r_ah r),
             if ret = 0
             then zero_param\<lparr>disk_id := drv, drives := r_dl r, last_heads := r_dh r,
                    last_sectors_per_track := word_of_int sec, last_cylinders := word_of_int c,
                    drive_type := r_bl r, has_ext := 0, ext := zero_ext\<rparr>
             else zero_param), s))"

definition get_disk_param_ext ::
  "'e platform \<Rightarrow> disk_param \<Rightarrow> ('e, 'z) mach_scheme \<Rightarrow> (int \<times> disk_param) \<times> ('e, 'z) mach_scheme" where
  "get_disk_param_ext P param s =
     (case int13_4 P (upd_reg (request 0x48 (disk_id param)) s) of (ret, s) \<Rightarrow>
        ((if ret = 0 then ret else uint (r_ah (reg (ra s))),
          if ret = 0 then param\<lparr>has_ext := 1, ext := pext (ra s)\<rparr> else param), s))"

definition reset_disk_drive :: "'e platform \<Rightarrow> u8 \<Rightarrow> ('e, 'z) mach_scheme \<Rightarrow> int \<times> ('e, 'z) mach_scheme" where
  "reset_disk_drive P drv s = int13_1 P (upd_reg (request 0x00 drv) s)"

definition get_last_status ::
  "'e platform \<Rightarrow> u8 \<Rightarrow> ('e, 'z) mach_scheme \<Rightarrow> (int \<times> int) \<times> ('e, 'z) mach_scheme" where
  "get_last_status P drv s =
     (case int13_1 P (upd_reg (request 0x01 drv) s) of (ret, s) \<Rightarrow> ((ret, uint (r_al (reg (ra s)))), s))"

text \<open>\<^verbatim>\<open>ext\<close> and \<^verbatim>\<open>version\<close> keep their old values when the call fails.\<close>

definition check_extensions_present ::
  "'e platform \<Rightarrow> u8 \<Rightarrow> int \<Rightarrow> int \<Rightarrow> ('e, 'z) mach_scheme \<Rightarrow> (int \<times> int \<times> int) \<times> ('e, 'z) mach_scheme" where
  "check_extensions_present P drv ext0 version0 s =
     (case int13_1 P (upd_reg (\<lambda>r. (request 0x41 drv r)\<lparr>r_bl := 0xaa, r_bh := 0x55\<rparr>) s) of (ret, s) \<Rightarrow>
        ((if ret = 0 then ret else uint (r_ah (reg (ra s))),
          if ret = 0 then uint (r_cl (reg (ra s))) else ext0,
          if ret = 0 then uint (r_ah (reg (ra s))) else version0), s))"

section \<open>Sector transfer by cylinder, head and sector\<close>

definition varify_chs :: "int \<Rightarrow> int \<Rightarrow> int \<Rightarrow> int" where
  "varify_chs cylinder head sector =
     (if cylinder > CHS_CYLINDER_MAX \<or> cylinder < 0 \<or> head > CHS_HEAD_MAX \<or> head < 0 \<or>
         sector > CHS_SECTOR_MAX \<or> sector \<le> 0 then -1 else 0)"

definition chs_sector_size :: "disk_param \<Rightarrow> u32" where
  "chs_sector_size param = (if has_ext param \<noteq> 0 then ucast (ext_bytes_per_sector (ext param)) else 512)"

definition chs_outside :: "disk_param \<Rightarrow> int \<Rightarrow> int \<Rightarrow> int \<Rightarrow> bool" where
  "chs_outside param cylinder head sector \<longleftrightarrow>
     cylinder < 0 \<or> cylinder > uint (last_cylinders param) \<or> head < 0 \<or> head > uint (last_heads param) \<or>
     sector \<le> 0 \<or> sector > uint (last_sectors_per_track param)"

definition chs_request :: "u8 \<Rightarrow> disk_param \<Rightarrow> int \<Rightarrow> int \<Rightarrow> int \<Rightarrow> u32 \<Rightarrow> reg_req \<Rightarrow> reg_req" where
  "chs_request fn param cylinder head sector nsector r =
     (set_cx (set_chs_to_pack cylinder sector) (r\<lparr>r_dh := word_of_int head\<rparr>))
       \<lparr>r_al := ucast nsector, r_ah := fn, r_bl := 0, r_bh := 0, r_dl := disk_id param\<rparr>"

definition sector_chs_verify ::
  "'e platform \<Rightarrow> disk_param \<Rightarrow> int \<Rightarrow> int \<Rightarrow> int \<Rightarrow> u32 \<Rightarrow> u32 \<Rightarrow> ('e, 'z) mach_scheme \<Rightarrow>
     int \<times> ('e, 'z) mach_scheme" where
  "sector_chs_verify P param cylinder head sector nsector sz s =
     (if varify_chs cylinder head sector < 0 then (-1, s)
      else if nsector > of_nat BIOS_MAX_SECTOR_CNT then (-1, s)
      else if nsector * chs_sector_size param > sz then (-1, s)
      else if nsector * chs_sector_size param > of_nat MAX_SECTOR_BUFFER_SIZE then (-1, s)
      else if chs_outside param cylinder head sector then (-1, s)
      else case int13_2 P (upd_reg (chs_request 0x04 param cylinder head sector nsector) s) of (ret, s) \<Rightarrow>
             (if ret = 0 then ret else uint (r_ah (reg (ra s))), s))"

text \<open>The number of bytes \<^verbatim>\<open>(al > nsector ? nsector : al) * sector_size\<close>.\<close>

definition chs_done :: "reg_req \<Rightarrow> u32 \<Rightarrow> u32 \<Rightarrow> u32" where
  "chs_done r nsector sector_size = (if ucast (r_al r) > nsector then nsector else ucast (r_al r)) * sector_size"

definition sector_chs_rw ::
  "'e platform \<Rightarrow> bool \<Rightarrow> disk_param \<Rightarrow> int \<Rightarrow> int \<Rightarrow> int \<Rightarrow> u32 \<Rightarrow> bytes \<Rightarrow> u32 \<Rightarrow> int \<Rightarrow>
     ('e, 'z) mach_scheme \<Rightarrow> (int \<times> bytes \<times> u32) \<times> ('e, 'z) mach_scheme" where
  "sector_chs_rw P is_write param cylinder head sector nsector buffer sz check s =
     (if varify_chs cylinder head sector < 0 then ((-1, buffer, sz), s)
      else if nsector > of_nat BIOS_MAX_SECTOR_CNT then ((-1, buffer, sz), s)
      else if nsector * chs_sector_size param > sz then ((-1, buffer, sz), s)
      else if nsector * chs_sector_size param > of_nat MAX_SECTOR_BUFFER_SIZE then ((-1, buffer, sz), s)
      else if is_write \<and> sz > of_nat MAX_SECTOR_BUFFER_SIZE then ((-1, buffer, sz), s)
      else if chs_outside param cylinder head sector then ((-1, buffer, sz), s)
      else
        let s1 = (if is_write then s\<lparr>ra := (ra s)\<lparr>rbuf := memcpy_buf (unat sz) (rbuf (ra s)) buffer\<rparr>\<rparr> else s)
        in case int13_2 P (upd_reg (chs_request (if is_write then 0x03 else 0x02) param cylinder head sector nsector) s1) of
             (ret, s2) \<Rightarrow>
               (if ret = 0
                then let n = chs_done (reg (ra s2)) nsector (chs_sector_size param);
                         buffer' = (if \<not> is_write then memcpy_buf (unat n) buffer (rbuf (ra s2)) else buffer)
                     in case (if check \<noteq> 0 \<and> is_write
                              then sector_chs_verify P param cylinder head sector nsector n s2
                              else (ret, s2)) of
                          (ret', s3) \<Rightarrow> ((if ret' = 0 then ret' else uint (r_ah (reg (ra s3))), buffer', n), s3)
                else ((uint (r_ah (reg (ra s2))), buffer, sz), s2)))"

definition read_sectors_chs ::
  "'e platform \<Rightarrow> disk_param \<Rightarrow> int \<Rightarrow> int \<Rightarrow> int \<Rightarrow> u32 \<Rightarrow> bytes \<Rightarrow> u32 \<Rightarrow>
     ('e, 'z) mach_scheme \<Rightarrow> (int \<times> bytes \<times> u32) \<times> ('e, 'z) mach_scheme" where
  "read_sectors_chs P param cylinder head sector nsector buffer sz s =
     sector_chs_rw P False param cylinder head sector nsector buffer sz 0 s"

definition write_sectors_chs ::
  "'e platform \<Rightarrow> disk_param \<Rightarrow> int \<Rightarrow> int \<Rightarrow> int \<Rightarrow> u32 \<Rightarrow> bytes \<Rightarrow> u32 \<Rightarrow> int \<Rightarrow>
     ('e, 'z) mach_scheme \<Rightarrow> (int \<times> bytes \<times> u32) \<times> ('e, 'z) mach_scheme" where
  "write_sectors_chs P param cylinder head sector nsector buffer sz check s =
     sector_chs_rw P True param cylinder head sector nsector buffer sz check s"

section \<open>Sector transfer by logical block address\<close>

definition lba_request :: "u8 \<Rightarrow> disk_param \<Rightarrow> int \<Rightarrow> reg_req \<Rightarrow> reg_req" where
  "lba_request fn param check r =
     r\<lparr>r_al := word_of_int check, r_ah := fn, r_bl := 0, r_bh := 0, r_ch := 0, r_cl := 0, r_dh := 0,
       r_dl := disk_id param\<rparr>"

definition sectors_lba_rw ::
  "'e platform \<Rightarrow> bool \<Rightarrow> disk_param \<Rightarrow> u64 \<Rightarrow> u32 \<Rightarrow> bytes \<Rightarrow> u32 \<Rightarrow> int \<Rightarrow>
     ('e, 'z) mach_scheme \<Rightarrow> (int \<times> bytes \<times> u32) \<times> ('e, 'z) mach_scheme" where
  "sectors_lba_rw P is_write param offset nsector buffer sz check s =
     (let bps = ucast (ext_bytes_per_sector (ext param)) :: u32
      in if has_ext param = 0 \<or> offset > ext_nsectors (ext param) - 1 then ((-1, buffer, sz), s)
         else if nsector > of_nat BIOS_MAX_SECTOR_CNT then ((-1, buffer, sz), s)
         else if nsector * bps > of_nat MAX_SECTOR_BUFFER_SIZE then ((-1, buffer, sz), s)
         else if nsector * bps > sz then ((-1, buffer, sz), s)
         else if is_write \<and> sz > of_nat MAX_SECTOR_BUFFER_SIZE then ((-1, buffer, sz), s)
         else
           let s1 = (if is_write then s\<lparr>ra := (ra s)\<lparr>rbuf := memcpy_buf (unat sz) (rbuf (ra s)) buffer\<rparr>\<rparr> else s);
               s2 = s1\<lparr>ra := (ra s1)\<lparr>dap := (dap (ra s1))\<lparr>dap_nsectors := ucast nsector, dap_begin := offset\<rparr>\<rparr>\<rparr>
           in case int13_3 P (upd_reg (lba_request (if is_write then 0x43 else 0x42) param check) s2) of
                (ret, s3) \<Rightarrow>
                  (let d = ucast (dap_nsectors (dap (ra s3))) :: u32
                   in if ret = 0
                      then ((ret,
                        if \<not> is_write
                        then memcpy_buf (unat ((if d > nsector then nsector else d) * bps)) buffer (rbuf (ra s3))
                        else buffer,
                        (if ucast (r_al (reg (ra s3))) > nsector then nsector else d) * bps), s3)
                      else ((uint (r_ah (reg (ra s3))), buffer, sz), s3)))"

definition read_sectors_lba ::
  "'e platform \<Rightarrow> disk_param \<Rightarrow> u64 \<Rightarrow> u32 \<Rightarrow> bytes \<Rightarrow> u32 \<Rightarrow>
     ('e, 'z) mach_scheme \<Rightarrow> (int \<times> bytes \<times> u32) \<times> ('e, 'z) mach_scheme" where
  "read_sectors_lba P param offset nsector buffer sz s =
     sectors_lba_rw P False param offset nsector buffer sz 0 s"

definition write_sectors_lba ::
  "'e platform \<Rightarrow> disk_param \<Rightarrow> u64 \<Rightarrow> u32 \<Rightarrow> bytes \<Rightarrow> u32 \<Rightarrow> int \<Rightarrow>
     ('e, 'z) mach_scheme \<Rightarrow> (int \<times> bytes \<times> u32) \<times> ('e, 'z) mach_scheme" where
  "write_sectors_lba P param offset nsector buffer sz check s =
     sectors_lba_rw P True param offset nsector buffer sz check s"

section \<open>Address conversion\<close>

text \<open>
  \<open>None\<close> is the divide exception for a geometry with no sectors per track; \<open>Some None\<close>
  is the return value -1, \<open>Some (Some (cylinder, head, sector))\<close> the return value 0.
\<close>

definition max_chs_lba :: u32 where
  "max_chs_lba = word_of_int ((CHS_CYLINDER_MAX * (CHS_HEAD_MAX + 1) + CHS_HEAD_MAX) * CHS_SECTOR_MAX + CHS_SECTOR_MAX - 1)"

definition lba2chs :: "disk_param \<Rightarrow> u64 \<Rightarrow> (int \<times> int \<times> int) option option" where
  "lba2chs param lba =
     (if lba \<le> ucast max_chs_lba
      then let new_val = ucast lba :: u32;
               spt = ucast (last_sectors_per_track param) :: u32;
               hpc = ucast (last_heads param) + 1 :: u32
           in if spt = 0 then None
              else Some (Some (uint (new_val div (spt * hpc)), uint ((new_val div spt) mod hpc),
                               uint (new_val mod spt + 1)))
      else Some None)"

definition chs2lba :: "disk_param \<Rightarrow> int \<Rightarrow> int \<Rightarrow> int \<Rightarrow> u64 option" where
  "chs2lba param cylinder head sector =
     (if varify_chs cylinder head sector < 0 then None
      else Some (word_of_int ((cylinder * (uint (last_heads param) + 1) + head) *
                   uint (last_sectors_per_track param) + sector - 1)))"

section \<open>Packing and address conversion are inverse\<close>

lemma pack_masks: "(255::int) = mask 8" "(768::int) = push_bit 8 (mask 2)" "(0xFF00::int) = push_bit 8 (mask 8)" "(0xC0::int) = push_bit 6 (mask 2)" "(63::int) = mask 6"
    by (simp_all add: mask_numeral)

lemma get_set_pack:
  assumes "0 \<le> c" "c \<le> 1023" "0 \<le> sec" "sec \<le> 63"
  shows "get_chs_from_pack (set_chs_to_pack c sec) = (c, sec)"
proof -
  have c: "\<not> bit c n" if "10 \<le> n" for n using bit_beyond [of c 10 n] assms that by simp
  have s: "\<not> bit sec n" if "6 \<le> n" for n using bit_beyond [of sec 6 n] assms that by simp
  have c': "m < 2" if "bit c (8 + m)" for m using c [of "8 + m"] that by linarith
  have s': "m < 6" if "bit sec m" for m using s [of m] that by linarith
  have "fst (get_chs_from_pack (set_chs_to_pack c sec)) = c"
    unfolding get_chs_from_pack_def set_chs_to_pack_def pack_masks fst_conv
  proof (rule bit_eqI)
    fix n :: nat
    show "bit (drop_bit 8 (uint (word_of_int (push_bit 8 (c AND mask 8) OR drop_bit 2 (c AND push_bit 8 (mask 2)) OR sec) :: u16) AND push_bit 8 (mask 8)) OR push_bit 2 (uint (word_of_int (push_bit 8 (c AND mask 8) OR drop_bit 2 (c AND push_bit 8 (mask 2)) OR sec) :: u16) AND push_bit 6 (mask 2))) n = bit c n"
      using low_or_high [of n] by (elim disjE insertE exE) (auto simp: bit_simps c s dest: c')
  qed
  moreover
  have "snd (get_chs_from_pack (set_chs_to_pack c sec)) = sec"
    unfolding get_chs_from_pack_def set_chs_to_pack_def pack_masks snd_conv
    by (rule bit_eqI) (auto simp: bit_simps c s dest: s')
  ultimately show ?thesis by (metis prod.collapse)
qed

lemma set_get_pack: "(case get_chs_from_pack v of (c, sec) \<Rightarrow> set_chs_to_pack c sec) = v"
proof -
  have "(case get_chs_from_pack v of (c, sec) \<Rightarrow> set_chs_to_pack c sec) = (let c = (drop_bit 8 (uint v AND push_bit 8 (mask 8)) OR push_bit 2 (uint v AND push_bit 6 (mask 2))) in word_of_int (push_bit 8 (c AND mask 8) OR drop_bit 2 (c AND push_bit 8 (mask 2)) OR (uint v AND mask 6)))"
    unfolding get_chs_from_pack_def set_chs_to_pack_def pack_masks Let_def by simp
  also have "\<dots> = v"
  proof (rule bit_word_eqI)
    fix n assume "n < LENGTH(16)"
    then show "bit (let c = (drop_bit 8 (uint v AND push_bit 8 (mask 8)) OR push_bit 2 (uint v AND push_bit 6 (mask 2))) in word_of_int (push_bit 8 (c AND mask 8) OR drop_bit 2 (c AND push_bit 8 (mask 2)) OR (uint v AND mask 6)) :: u16) n = bit v n"
     using low_or_high [of n] by (elim disjE insertE exE) (auto simp: bit_simps Let_def)
  qed
  finally show ?thesis .
qed

text \<open>
  C20. Packing a cylinder of at most 10 bits and a sector of at most 6 bits for register
  \<^verbatim>\<open>cx\<close> and unpacking it gives both back, and every register value is the packing of what
  unpacking it gives.
\<close>

theorem chs_pack_inverse:
  "\<lbrakk>0 \<le> c; c \<le> 1023; 0 \<le> sec; sec \<le> 63\<rbrakk> \<Longrightarrow>
     get_chs_from_pack (set_chs_to_pack c sec) = (c, sec) \<and>
     (case get_chs_from_pack v of (c, sec) \<Rightarrow> set_chs_to_pack c sec) = v"
  using get_set_pack set_get_pack by simp

theorem chs_pack_inverse_witness:
  "get_chs_from_pack (set_chs_to_pack 837 41) = (837, 41) \<and>
   (case get_chs_from_pack 0xFEC1 of (c, sec) \<Rightarrow> set_chs_to_pack c sec) = 0xFEC1"
  by (rule chs_pack_inverse) simp_all

abbreviation spt :: "disk_param \<Rightarrow> int" where
  "spt param \<equiv> uint (last_sectors_per_track param)"

abbreviation hpc :: "disk_param \<Rightarrow> int" where
  "hpc param \<equiv> uint (last_heads param) + 1"

lemma max_chs_lba_val: "max_chs_lba = 16450559"
  by (simp add: max_chs_lba_def chs_max_defs)

lemma hpc_bounds: "last_heads param \<noteq> 255 \<Longrightarrow> 0 < hpc param \<and> hpc param \<le> 255"
  using uint_u8_bounds [of "last_heads param"] by (auto simp: word_uint_eq_iff)

lemma lba2chs_val:
  assumes "lba \<le> ucast max_chs_lba" "last_sectors_per_track param \<noteq> 0"
  shows "lba2chs param lba = Some (Some (uint lba div (spt param * hpc param),
           (uint lba div spt param) mod hpc param, uint lba mod spt param + 1))"
proof -
  have l: "uint lba \<le> 16450559"
    using assms(1) by (simp add: max_chs_lba_val word_le_def unsigned_ucast_eq)
  then have u: "uint (ucast lba :: u32) = uint lba"
    by (simp add: unsigned_ucast_eq take_bit_int_eq_self)
  have h: "uint (ucast (last_heads param) + 1 :: u32) = hpc param"
    using uint_u8_bounds [of "last_heads param"] by (simp add: uint_add_small)
  have s0: "0 < spt param" 
    using assms(2) by (rule uint_u8_pos)
  have "spt param * hpc param \<le> 255 * 256"
    using uint_u8_bounds [of "last_heads param"] uint_u8_bounds [of "last_sectors_per_track param"]
    by (intro mult_mono) auto
  then have sm: "uint (ucast (last_sectors_per_track param) * (ucast (last_heads param) + 1) :: u32) = spt param * hpc param"
    by (simp add: uint_mult_small h)
  have nz: "(ucast (last_sectors_per_track param) :: u32) \<noteq> 0"
    using s0 by (metis uint_u8_u32 less_irrefl unsigned_0)
  have md: "uint (ucast lba mod ucast (last_sectors_per_track param) + 1 :: u32) = uint lba mod spt param + 1"
    using pos_mod_bound [OF s0, of "uint lba"] uint_u8_bounds [of "last_sectors_per_track param"]
    by (simp add: uint_add_small uint_mod u)
  show ?thesis
    using assms(1) nz by (simp add: lba2chs_def Let_def uint_div uint_mod sm u h md)
qed

lemma lba2chs_invert:
  assumes "lba2chs param lba = Some (Some (c, h, sec))" "c \<le> 1023" "last_heads param \<noteq> 255"
    "last_sectors_per_track param \<le> 63"
  shows "chs2lba param c h sec = Some lba"
proof -
  have l: "lba \<le> ucast max_chs_lba" and sp: "last_sectors_per_track param \<noteq> 0"
    using assms(1) by (auto simp: lba2chs_def Let_def split: if_splits)
  let ?S = "spt param" and ?H = "hpc param"
  have b: "c = uint lba div (?S * ?H)" "h = (uint lba div ?S) mod ?H" "sec = uint lba mod ?S + 1"
    using assms(1) lba2chs_val [OF l sp] by auto
  have s0: "0 < ?S" "?S \<le> 63"
    using uint_u8_pos [OF sp] assms(4) by (simp_all add: word_le_def)
  have h0: "0 < ?H" "?H \<le> 255"
    using hpc_bounds [OF assms(3)] by simp_all
  have v: "varify_chs c h sec = 0"
    using assms(2) s0 h0 pos_mod_bound [OF s0(1), of "uint lba"] pos_mod_bound [OF h0(1), of "uint lba div ?S"]
      pos_mod_sign [OF s0(1), of "uint lba"] pos_mod_sign [OF h0(1), of "uint lba div ?S"]
    by (auto simp: varify_chs_def chs_max_defs b not_less pos_imp_zdiv_nonneg_iff zero_less_mult_iff)
  have "c * ?H + h = uint lba div ?S"
    unfolding b using s0 h0 by (simp only: zdiv_zmult2_eq div_mult_mod_eq)
  then show ?thesis
    using v by (simp add: chs2lba_def b(3))
qed

text \<open>
  C21. A block address that \<^verbatim>\<open>lba2chs\<close> converts is the one \<^verbatim>\<open>chs2lba\<close> computes from the
  resulting cylinder, head and sector, for every geometry with at most 255 heads and 63
  sectors per track in which the cylinder is one the BIOS can address.
\<close>

theorem chs2lba_lba2chs:
  "\<lbrakk>lba2chs param lba = Some (Some (c, h, sec)); c \<le> 1023; last_heads param \<noteq> 255;
    last_sectors_per_track param \<le> 63\<rbrakk> \<Longrightarrow> chs2lba param c h sec = Some lba"
  by (rule lba2chs_invert)

theorem chs2lba_lba2chs_witness:
  "chs2lba (zero_param\<lparr>last_heads := 15, last_cylinders := 1022, last_sectors_per_track := 63\<rparr>) 79 5 61 = Some 80007"
  by (rule chs2lba_lba2chs) (simp_all add: lba2chs_def zero_param_def max_chs_lba_val)

text \<open>
  C22. Conversely, the block address \<^verbatim>\<open>chs2lba\<close> computes from a sector of the disk is
  converted back by \<^verbatim>\<open>lba2chs\<close> to that sector: it is never beyond \<^verbatim>\<open>max_chs_lba\<close> and never
  traps.
\<close>

theorem lba2chs_chs2lba:
  assumes "chs2lba param c h sec = Some lba" "h \<le> uint (last_heads param)" "last_heads param \<noteq> 255"
    "sec \<le> spt param" "last_sectors_per_track param \<le> 63"
  shows "lba2chs param lba = Some (Some (c, h, sec))"
proof -
  let ?S = "spt param" and ?H = "hpc param"
  have v: "0 \<le> c" "c \<le> 1023" "0 \<le> h" "0 < sec"
    and l: "lba = word_of_int ((c * ?H + h) * ?S + sec - 1)"
    using assms(1) by (auto simp: chs2lba_def varify_chs_def chs_max_defs split: if_splits)
  have S: "0 < ?S" "?S \<le> 63" using v assms(4,5) by (simp_all add: word_le_def)
  have H: "0 < ?H" "?H \<le> 255"
    using hpc_bounds [OF assms(3)] by simp_all
  have m: "c * ?H + h \<le> 1023 * 255 + 254"
    using mult_mono [of c 1023 ?H 255] v H assms(2) by linarith
  have k: "(c * ?H + h) * ?S + sec - 1 \<le> (1023 * 255 + 254) * 63 + 62"
    using mult_mono [OF m S(2)] v S assms(4) by linarith
  have n: "0 \<le> (c * ?H + h) * ?S + (sec - 1)" using v H S by simp
  have u: "uint lba = (c * ?H + h) * ?S + (sec - 1)"
    unfolding l uint_word_of_int using k n by (subst mod_pos_pos_trivial) (simp_all add: add_diff_eq)
  have le: "lba \<le> ucast max_chs_lba"
    using k u by (simp add: word_le_def max_chs_lba_val)
  have d: "uint lba div ?S = c * ?H + h" "uint lba mod ?S = sec - 1"
    using S v assms(4) by (simp_all add: u)
  have "uint lba div (?S * ?H) = c" "(uint lba div ?S) mod ?H = h"
    using S H v assms(2) by (simp_all add: zdiv_zmult2_eq d)
  then show ?thesis
    using lba2chs_val [OF le, of param] S d(2) by (cases "last_sectors_per_track param = 0") simp_all
qed

theorem lba2chs_chs2lba_witness:
  "lba2chs (zero_param\<lparr>last_heads := 15, last_cylinders := 1022, last_sectors_per_track := 63\<rparr>) 80007 = Some (Some (79, 5, 61))"
  by (rule lba2chs_chs2lba) (simp_all add: chs2lba_def zero_param_def varify_chs_def chs_max_defs)

end
