(* ===== verification/Bios.thy ===== *)
theory Bios
  imports Disk
begin

text \<open>
  What the disk driver asks of the machine, and what the machine promises. \<open>reaches\<close> is
  the step relation of the device state: each step is one platform operation, and every
  BIOS request satisfies a given predicate. The lemmas \<open>via_*\<close> show which requests each
  driver function issues. \<open>disk_image\<close> is the documented contract of the INT 13h read and
  write services on the contents of the disks, the hypothesis of the theorems on wiping.
\<close>

section \<open>Device steps\<close>

inductive reaches :: "'e platform \<Rightarrow> (real_area \<Rightarrow> bool) \<Rightarrow> 'e \<Rightarrow> 'e \<Rightarrow> bool" for P ok where
  here: "reaches P ok e e"
| bios: "reaches P ok e f \<Longrightarrow> ok a \<Longrightarrow> reaches P ok e (snd (snd (p_bios P a f)))"
| inb: "reaches P ok e f \<Longrightarrow> reaches P ok e (snd (p_inb P port f))"
| outb: "reaches P ok e f \<Longrightarrow> reaches P ok e (p_outb P b port f)"
| rdtsc: "reaches P ok e f \<Longrightarrow> reaches P ok e (snd (p_rdtsc P f))"
| rdmsr: "reaches P ok e f \<Longrightarrow> reaches P ok e (snd (p_rdmsr P n f))"
| malloc: "reaches P ok e f \<Longrightarrow> reaches P ok e (snd (p_malloc P n f))"
| free: "reaches P ok e f \<Longrightarrow> reaches P ok e (p_free P f)"

lemma reaches_trans: "reaches P ok f g \<Longrightarrow> reaches P ok e f \<Longrightarrow> reaches P ok e g"
  by (induction rule: reaches.induct) (auto intro: reaches.intros)

lemma reaches_mono: "reaches P ok e f \<Longrightarrow> (\<And>a. ok a \<Longrightarrow> ok' a) \<Longrightarrow> reaches P ok' e f"
  by (induction rule: reaches.induct) (auto intro: reaches.intros)

text \<open>An invariant of the device state, kept by every step.\<close>

definition keeps :: "'e platform \<Rightarrow> (real_area \<Rightarrow> bool) \<Rightarrow> ('e \<Rightarrow> bool) \<Rightarrow> bool" where
  "keeps P ok I \<longleftrightarrow>
     (\<forall>a e. ok a \<longrightarrow> I e \<longrightarrow> I (snd (snd (p_bios P a e)))) \<and>
     (\<forall>port e. I e \<longrightarrow> I (snd (p_inb P port e))) \<and>
     (\<forall>b port e. I e \<longrightarrow> I (p_outb P b port e)) \<and>
     (\<forall>e. I e \<longrightarrow> I (snd (p_rdtsc P e))) \<and>
     (\<forall>n e. I e \<longrightarrow> I (snd (p_rdmsr P n e))) \<and>
     (\<forall>n e. I e \<longrightarrow> I (snd (p_malloc P n e))) \<and>
     (\<forall>e. I e \<longrightarrow> I (p_free P e))"

lemma reaches_keeps: "reaches P ok e f \<Longrightarrow> keeps P ok I \<Longrightarrow> I e \<Longrightarrow> I f"
  by (induction rule: reaches.induct) (auto simp: keeps_def)

text \<open>
  A driver function changes the mailbox and the device state and nothing else, and the
  transfer buffer keeps its size when the BIOS keeps it.
\<close>

definition rbuf_fixed :: "'e platform \<Rightarrow> bool" where
  "rbuf_fixed P \<longleftrightarrow> (\<forall>a e. length (rbuf (fst (snd (p_bios P a e)))) = length (rbuf a))"

definition via ::
  "'e platform \<Rightarrow> (real_area \<Rightarrow> bool) \<Rightarrow> ('e, 'z) mach_scheme \<Rightarrow> ('e, 'z) mach_scheme \<Rightarrow> bool" where
  "via P ok s t \<longleftrightarrow> (\<exists>a e. t = s\<lparr>ra := a, dev := e\<rparr> \<and> reaches P ok (dev s) e \<and>
     (rbuf_fixed P \<longrightarrow> length (rbuf a) = length (rbuf (ra s))))"

lemma via_ra [simp]: "length (rbuf a) = length (rbuf (ra s)) \<Longrightarrow> via P ok s (s\<lparr>ra := a\<rparr>)"
  unfolding via_def by (intro exI [of _ a] exI [of _ "dev s"]) (simp add: here)

lemma via_refl [simp, intro]: "via P ok s s"
  using via_ra [of "ra s" s] by simp

lemma via_trans: "via P ok s t \<Longrightarrow> via P ok t u \<Longrightarrow> via P ok s u"
  unfolding via_def by (fastforce intro: reaches_trans)

lemma via_mono: "via P ok s t \<Longrightarrow> (\<And>a. ok a \<Longrightarrow> ok' a) \<Longrightarrow> via P ok' s t"
  unfolding via_def by (metis reaches_mono)

lemma via_upd_reg [simp]: "via P ok s (upd_reg f s)"
  by (simp add: upd_reg_def)

lemma via_ptrs: "via P ok s t \<Longrightarrow> ptrs t = ptrs s"
  by (auto simp: via_def)

lemma via_dev: "via P ok s t \<Longrightarrow> reaches P ok (dev s) (dev t)"
  by (auto simp: via_def)

lemma via_rbuf: "via P ok s t \<Longrightarrow> rbuf_fixed P \<Longrightarrow> length (rbuf (ra t)) = length (rbuf (ra s))"
  by (auto simp: via_def)

lemma via_int13_call: "ok (ra s) \<Longrightarrow> via P ok s (snd (int13_call P s))"
  unfolding via_def int13_call_def query_pcbios_def Let_def case_prod_beta snd_conv
  by (intro exI conjI, rule refl, rule bios [OF here]) (simp_all add: rbuf_fixed_def)

section \<open>The requests of the driver\<close>

text \<open>
  \<open>read_only\<close> are the services that do not write a disk; \<open>chs_write\<close> and \<open>lba_write\<close> are
  the write requests to one drive, with the range of blocks the latter may touch.
\<close>

definition read_only :: "real_area \<Rightarrow> bool" where
  "read_only a \<longleftrightarrow> r_ah (reg a) \<in> {0x00, 0x01, 0x02, 0x04, 0x08, 0x41, 0x42, 0x48}"

definition lba_write :: "u8 \<Rightarrow> u64 \<Rightarrow> nat \<Rightarrow> real_area \<Rightarrow> bool" where
  "lba_write drv lba n a \<longleftrightarrow>
     r_ah (reg a) = 0x43 \<and> r_dl (reg a) = drv \<and> dap_begin (dap a) = lba \<and> unat (dap_nsectors (dap a)) = n"

definition chs_write :: "u8 \<Rightarrow> int \<Rightarrow> int \<Rightarrow> int \<Rightarrow> nat \<Rightarrow> real_area \<Rightarrow> bool" where
  "chs_write drv c h sec n a \<longleftrightarrow>
     r_ah (reg a) = 0x03 \<and> r_dl (reg a) = drv \<and> get_chs_from_pack (r_cx (reg a)) = (c, sec) \<and>
     uint (r_dh (reg a)) = h \<and> unat (r_al (reg a)) = n"

lemma via_int13_1: "ok ((ra s)\<lparr>reg := (reg (ra s))\<lparr>r_es := 0, r_si := 0, r_di := 0\<rparr>\<rparr>) \<Longrightarrow>
    via P ok s (snd (int13_1 P s))"
  unfolding int13_1_def
  by (rule via_trans [OF _ via_int13_call]) (simp_all add: upd_reg_def)

lemma via_int13_2: "ok ((ra s)\<lparr>reg := set_bx (ucast (p_real_buffer (ptrs s) XOR push_bit 4 (ucast REAL_CODE_SEG)))
       ((reg (ra s))\<lparr>r_es := REAL_CODE_SEG, r_si := 0, r_di := 0\<rparr>)\<rparr>) \<Longrightarrow>
    via P ok s (snd (int13_2 P s))"
  unfolding int13_2_def
  by (rule via_trans [OF _ via_int13_call]) (simp_all add: upd_reg_def)

lemma via_int13_3:
  assumes "\<And>a. r_ah (reg a) = r_ah (reg (ra s)) \<Longrightarrow> r_dl (reg a) = r_dl (reg (ra s)) \<Longrightarrow>
    dap_begin (dap a) = dap_begin (dap (ra s)) \<Longrightarrow> dap_nsectors (dap a) = dap_nsectors (dap (ra s)) \<Longrightarrow> ok a"
  shows "via P ok s (snd (int13_3 P s))"
  unfolding int13_3_def Let_def
  by (rule via_trans [OF _ via_int13_call], rule via_trans [OF via_ra via_upd_reg])
     (simp_all add: upd_reg_def assms)

lemma via_int13_4: "(\<And>a. r_ah (reg a) = r_ah (reg (ra s)) \<Longrightarrow> ok a) \<Longrightarrow> via P ok s (snd (int13_4 P s))"
  unfolding int13_4_def Let_def
  by (rule via_trans [OF _ via_int13_call], rule via_trans [OF via_ra via_upd_reg])
     (simp_all add: upd_reg_def)

lemma via_request_1:
  "fn \<in> {0x00, 0x01, 0x08, 0x41} \<Longrightarrow> (\<And>r. r_ah (f r) = fn) \<Longrightarrow> via P read_only s (snd (int13_1 P (upd_reg f s)))"
  by (rule via_trans [OF via_upd_reg via_int13_1]) (auto simp: upd_reg_def read_only_def)

lemma via_get_disk_param: "via P read_only s (snd (get_disk_param P drv s))"
  using via_request_1 [of "0x08" "request 0x08 drv" P s]
  by (simp add: get_disk_param_def Let_def request_def case_prod_beta)

lemma via_reset_disk_drive: "via P read_only s (snd (reset_disk_drive P drv s))"
  using via_request_1 [of "0x00" "request 0x00 drv" P s]
  by (simp add: reset_disk_drive_def request_def)

lemma via_get_last_status: "via P read_only s (snd (get_last_status P drv s))"
  using via_request_1 [of "0x01" "request 0x01 drv" P s]
  by (simp add: get_last_status_def request_def case_prod_beta)

lemma via_check_extensions_present: "via P read_only s (snd (check_extensions_present P drv e0 v0 s))"
  using via_request_1 [of "0x41" "\<lambda>r. (request 0x41 drv r)\<lparr>r_bl := 0xaa, r_bh := 0x55\<rparr>" P s]
  by (simp add: check_extensions_present_def request_def case_prod_beta)

lemma via_get_disk_param_ext: "via P read_only s (snd (get_disk_param_ext P param s))"
proof -
  have "via P read_only s (snd (int13_4 P (upd_reg (request 0x48 (disk_id param)) s)))"
    by (rule via_trans [OF via_upd_reg via_int13_4]) (simp add: upd_reg_def request_def read_only_def)
  then show ?thesis by (simp add: get_disk_param_ext_def case_prod_beta)
qed

lemma via_sectors_lba_rw:
  assumes "\<And>a. \<not> w \<Longrightarrow> r_ah (reg a) = 0x42 \<Longrightarrow> ok a"
    "\<And>a. w \<Longrightarrow> lba_write (disk_id param) lba (unat nsector) a \<Longrightarrow> ok a"
  shows "via P ok s (snd (sectors_lba_rw P w param lba nsector buffer sz check s))"
proof (cases "nsector > of_nat BIOS_MAX_SECTOR_CNT")
  case False
  then have n: "unat nsector \<le> 63"
    by (simp add: BIOS_MAX_SECTOR_CNT_def word_le_nat_alt not_less)
  then have c: "unat (ucast nsector :: u16) = unat nsector"
    by (simp add: unsigned_ucast_eq take_bit_nat_eq_self)
  have "via P ok s (snd (int13_3 P (upd_reg (lba_request (if w then 0x43 else 0x42) param check)
      (t\<lparr>ra := (ra t)\<lparr>dap := (dap (ra t))\<lparr>dap_nsectors := ucast nsector, dap_begin := lba\<rparr>\<rparr>\<rparr>))))"
    if "via P ok s t" for t
    by (rule via_trans [OF _ via_int13_3], rule via_trans [OF that], rule via_trans [OF via_ra via_upd_reg])
       (simp, (cases w; simp add: upd_reg_def lba_request_def lba_write_def c assms))
  then show ?thesis
    by (auto simp: sectors_lba_rw_def Let_def case_prod_beta)
qed (simp add: sectors_lba_rw_def Let_def)

lemma via_sector_chs_verify:
  assumes "\<And>a. r_ah (reg a) = 0x04 \<Longrightarrow> ok a"
  shows "via P ok s (snd (sector_chs_verify P param c h sec nsector sz s))"
proof -
  have "via P ok s (snd (int13_2 P (upd_reg (chs_request 0x04 param c h sec nsector) s)))"
    by (rule via_trans [OF via_upd_reg via_int13_2])
       (simp add: upd_reg_def chs_request_def set_bx_def set_cx_def assms)
  then show ?thesis
    by (simp add: sector_chs_verify_def case_prod_beta)
qed

lemma chs_request_fields:
  assumes "varify_chs c h sec = 0" "unat nsector \<le> 63"
    and r': "r' = set_bx b ((chs_request fn param c h sec nsector r)\<lparr>r_es := es, r_si := 0, r_di := 0\<rparr>)"
  shows "r_ah r' = fn" "r_dl r' = disk_id param" "get_chs_from_pack (r_cx r') = (c, sec)" "uint (r_dh r') = h"
    "unat (r_al r') = unat nsector"
proof -
  have v: "0 \<le> c" "c \<le> 1023" "0 \<le> h" "h \<le> 254" "0 < sec" "sec \<le> 63"
    using assms(1) by (auto simp: varify_chs_def chs_max_defs split: if_splits)
  have "take_bit 8 h = h" using v by (simp add: take_bit_int_eq_self)
  then show "uint (r_dh r') = h" by (simp add: r' chs_request_def set_bx_def set_cx_def uint_word_of_int_eq)
  show "unat (r_al r') = unat nsector"
    using assms(2) by (simp add: r' chs_request_def set_bx_def unsigned_ucast_eq take_bit_nat_eq_self)
  have "r_cx (set_bx b (x\<lparr>r_al := n, r_ah := f, r_bl := 0, r_bh := 0, r_dl := d, r_es := es, r_si := 0, r_di := 0\<rparr>)) = r_cx x"
    for x n f d by (simp add: r_cx_def set_bx_def)
  then show "get_chs_from_pack (r_cx r') = (c, sec)"
    using v get_set_pack [of c sec] by (simp add: r' chs_request_def)
  show "r_ah r' = fn" "r_dl r' = disk_id param" by (simp_all add: r' chs_request_def set_bx_def)
qed

lemma chs_write_request:
  assumes "varify_chs c h sec = 0" "unat nsector \<le> 63"
  shows "chs_write (disk_id param) c h sec (unat nsector)
    ((ra t)\<lparr>reg := set_bx b ((chs_request 0x03 param c h sec nsector r)\<lparr>r_es := es, r_si := 0, r_di := 0\<rparr>)\<rparr>)"
  using chs_request_fields [OF assms refl] by (simp add: chs_write_def)

lemma via_sector_chs_rw:
  assumes "\<And>a. \<not> w \<Longrightarrow> r_ah (reg a) = 0x02 \<Longrightarrow> ok a"
    "\<And>a. w \<Longrightarrow> chs_write (disk_id param) c h sec (unat nsector) a \<Longrightarrow> ok a"
    "\<And>a. w \<Longrightarrow> r_ah (reg a) = 0x04 \<Longrightarrow> ok a"
  shows "via P ok s (snd (sector_chs_rw P w param c h sec nsector buffer sz check s))"
proof (cases "varify_chs c h sec < 0 \<or> nsector > of_nat BIOS_MAX_SECTOR_CNT")
  case False
  then have v: "varify_chs c h sec = 0" and n: "unat nsector \<le> 63"
    by (auto simp: BIOS_MAX_SECTOR_CNT_def word_le_nat_alt not_less varify_chs_def split: if_splits)
  have call: "via P ok s (snd (int13_2 P (upd_reg (chs_request (if w then 0x03 else 0x02) param c h sec nsector) t)))"
    if "via P ok s t" for t
  proof (rule via_trans [OF _ via_int13_2], rule via_trans [OF that via_upd_reg], cases w)
    case True
    then show "ok ((ra (upd_reg (chs_request (if w then 0x03 else 0x02) param c h sec nsector) t))
      \<lparr>reg := set_bx (ucast (p_real_buffer (ptrs (upd_reg (chs_request (if w then 0x03 else 0x02) param c h sec nsector) t)) XOR push_bit 4 (ucast REAL_CODE_SEG)))
       ((reg (ra (upd_reg (chs_request (if w then 0x03 else 0x02) param c h sec nsector) t)))\<lparr>r_es := REAL_CODE_SEG, r_si := 0, r_di := 0\<rparr>)\<rparr>)"
      using chs_write_request [OF v n] by (intro assms(2)) (simp_all add: upd_reg_def)
  qed (simp add: assms upd_reg_def chs_request_def set_bx_def set_cx_def)
  have ver: "w \<Longrightarrow> via P ok s t \<Longrightarrow> via P ok s (snd (sector_chs_verify P param c h sec nsector n t))" for t n
    by (rule via_trans [OF _ via_sector_chs_verify]) (simp_all add: assms)
  show ?thesis
    using call ver by (cases w) (simp_all add: sector_chs_rw_def Let_def case_prod_beta)
qed (auto simp: sector_chs_rw_def)

section \<open>The contract of the disk services\<close>

text \<open>
  \<open>D e d k\<close> is the content of block \<open>k\<close> of drive \<open>d\<close> in device state \<open>e\<close>. A write request
  changes no block outside its range, and stores the transfer buffer when it succeeds.
\<close>

type_synonym disks = "u8 \<Rightarrow> nat \<Rightarrow> bytes"

definition written :: "disks \<Rightarrow> disks \<Rightarrow> bool \<Rightarrow> u8 \<Rightarrow> nat \<Rightarrow> nat \<Rightarrow> bytes \<Rightarrow> bool" where
  "written old new failed drv b n buf \<longleftrightarrow>
     (\<forall>d k. \<not> (d = drv \<and> b \<le> k \<and> k < b + n) \<longrightarrow> new d k = old d k) \<and>
     (\<not> failed \<longrightarrow> (\<forall>j < n. new drv (b + j) = chunk 512 j buf))"

text \<open>The physical addresses of the buffer in a request of either kind.\<close>

definition lba_buffer :: "real_area \<Rightarrow> nat" where
  "lba_buffer a = unat (dap_base (dap a)) * 16 + unat (dap_offset (dap a))"

definition chs_buffer :: "real_area \<Rightarrow> nat" where
  "chs_buffer a = unat (r_es (reg a)) * 16 + unat (r_bh (reg a)) * 256 + unat (r_bl (reg a))"

definition chs_block :: "nat \<times> nat \<Rightarrow> int \<Rightarrow> int \<Rightarrow> int \<Rightarrow> nat" where
  "chs_block g c h sec = (nat c * fst g + nat h) * snd g + (nat sec - 1)"

text \<open>\<open>G d\<close> is the number of heads and of sectors per track of drive \<open>d\<close>, \<open>B\<close> the address of the transfer buffer.\<close>

definition disk_image :: "'e platform \<Rightarrow> ('e \<Rightarrow> disks) \<Rightarrow> (u8 \<Rightarrow> nat \<times> nat) \<Rightarrow> nat \<Rightarrow> bool" where
  "disk_image P D G B \<longleftrightarrow>
     rbuf_fixed P \<and>
     (\<forall>d. keeps P read_only (\<lambda>e. D e = d)) \<and>
     (\<forall>a e drv b n. lba_write drv b n a \<and> lba_buffer a = B \<longrightarrow>
        written (D e) (D (snd (snd (p_bios P a e)))) (fst (p_bios P a e)) drv (unat b) n (rbuf a)) \<and>
     (\<forall>a e drv c h sec n. chs_write drv c h sec n a \<and> chs_buffer a = B \<longrightarrow>
        written (D e) (D (snd (snd (p_bios P a e)))) (fst (p_bios P a e)) drv (chs_block (G drv) c h sec) n (rbuf a))"

text \<open>The drive takes every extended write within its capacity.\<close>

definition accepts :: "'e platform \<Rightarrow> (u8 \<Rightarrow> nat) \<Rightarrow> bool" where
  "accepts P cap \<longleftrightarrow>
     (\<forall>a e drv b n. lba_write drv b n a \<and> 0 < n \<and> unat b + n \<le> cap drv \<longrightarrow> \<not> fst (p_bios P a e))"

lemma disk_image_lba:
  "disk_image P D G B \<Longrightarrow> lba_write drv b n a \<Longrightarrow> lba_buffer a = B \<Longrightarrow> p_bios P a e = (cf, a', e') \<Longrightarrow>
     written (D e) (D e') cf drv (unat b) n (rbuf a)"
  unfolding disk_image_def by (metis fst_conv snd_conv)

lemma disk_image_chs:
  "disk_image P D G B \<Longrightarrow> chs_write drv c h sec n a \<Longrightarrow> chs_buffer a = B \<Longrightarrow> p_bios P a e = (cf, a', e') \<Longrightarrow>
     written (D e) (D e') cf drv (chs_block (G drv) c h sec) n (rbuf a)"
  unfolding disk_image_def by (metis fst_conv snd_conv)

lemma int13_3_buffer:
  assumes "unat p < 2 ^ 20"
  shows "unat (ucast (drop_bit 4 ((p :: u32) AND 0xf0000)) :: u16) * 16 + unat (ucast (p AND 0xffff) :: u16) = unat p"
proof -
  have m: "(0xffff :: u32) = mask 16" "(0xf0000 :: u32) = push_bit 16 (mask 4)"
    by (simp_all add: mask_numeral)
  have lo: "unat (ucast (p AND 0xffff) :: u16) = unat p mod 2 ^ 16"
    by (simp add: m unsigned_ucast_eq unsigned_take_bit_eq flip: take_bit_eq_mask) (simp add: take_bit_eq_mod)
  have hi: "ucast (drop_bit 4 (p AND 0xf0000)) = push_bit 12 (ucast (drop_bit 16 p) :: u16)"
    unfolding m by (rule bit_word_eqI) (auto simp: bit_simps)
  have q: "unat p div 2 ^ 16 < 16" using assms by (simp add: less_mult_imp_div_less)
  have u: "unat (ucast (drop_bit 16 p) :: u16) = unat p div 2 ^ 16"
    using q by (simp add: unsigned_ucast_eq unsigned_drop_bit_eq) (simp add: drop_bit_eq_div take_bit_nat_eq_self)
  have hi': "unat (ucast (drop_bit 4 (p AND 0xf0000)) :: u16) = unat p div 2 ^ 16 * 2 ^ 12"
    unfolding hi push_bit_eq_mult using q u by (simp add: unat_word_ariths)
  show ?thesis unfolding lo hi' using mod_div_mult_eq [of "unat p" "2 ^ 16"] by simp
qed

lemma int13_2_buffer:
  assumes "2 ^ 16 \<le> unat p" "unat p < 2 ^ 17"
  shows "unat (REAL_CODE_SEG :: u16) * 16 +
    unat (ucast (drop_bit 8 (ucast ((p :: u32) XOR push_bit 4 (ucast REAL_CODE_SEG)) :: u16)) :: u8) * 256 +
    unat (ucast (ucast (p XOR push_bit 4 (ucast REAL_CODE_SEG)) :: u16) :: u8) = unat p"
proof -
  let ?x = "ucast (p XOR push_bit 4 (ucast REAL_CODE_SEG)) :: u16"
  have z: "ucast (push_bit 4 (ucast REAL_CODE_SEG) :: u32) = (0 :: u16)" by (simp add: REAL_CODE_SEG_def word_uint_eq_iff)
  have x: "?x = ucast p"
    unfolding unsigned_xor_eq z by simp
  have "unat (ucast (drop_bit 8 ?x) :: u8) * 256 + unat (ucast ?x :: u8) = unat ?x"
  proof -
    have "unat ?x < 2 ^ LENGTH(16)" by (rule unsigned_less)
    then have "unat ?x div 256 < 256" by (simp add: less_mult_imp_div_less)
    then have "unat (ucast (drop_bit 8 ?x) :: u8) = unat ?x div 256"
      by (simp add: unsigned_ucast_eq unsigned_drop_bit_eq) (simp add: drop_bit_eq_div take_bit_nat_eq_self)
    moreover have "unat (ucast y :: u8) = unat (y :: u16) mod 256" for y
      by (simp add: unsigned_ucast_eq) (simp add: take_bit_eq_mod)
    ultimately show ?thesis by simp
  qed
  moreover have "unat ?x = unat p - 2 ^ 16"
    using assms by (simp add: x unsigned_ucast_eq take_bit_eq_mod le_mod_geq)
  ultimately show ?thesis using assms by (simp add: REAL_CODE_SEG_def)
qed

section \<open>One write request\<close>

text \<open>
  \<open>ready\<close> holds after \<^verbatim>\<open>relocate_real\<close>: the mailbox lies in the segment at \<^verbatim>\<open>REAL_CODE_ADDR\<close> and
  its buffer has \<^verbatim>\<open>MAX_SECTOR_BUFFER_SIZE\<close> bytes.
\<close>

definition ready :: "nat \<Rightarrow> ('e, 'z) mach_scheme \<Rightarrow> bool" where
  "ready B s \<longleftrightarrow> unat (p_real_buffer (ptrs s)) = B \<and> 2 ^ 16 \<le> B \<and> B < 2 ^ 17 \<and>
     length (rbuf (ra s)) = MAX_SECTOR_BUFFER_SIZE"

definition lba_disk :: "disk_param \<Rightarrow> bool" where
  "lba_disk param \<longleftrightarrow> has_ext param \<noteq> 0 \<and> ext_bytes_per_sector (ext param) = 512"

lemma unat_times_512: "unat n \<le> 63 \<Longrightarrow> unat (n * 512 :: u32) = unat n * 512"
  by (simp add: unat_word_ariths)

lemma lba_in_range: "lba < m \<Longrightarrow> \<not> lba > m - 1" for lba m :: u64
proof -
  assume lt: "lba < m"
  then have "m \<noteq> 0" by auto
  from unat_minus_one [OF this] show ?thesis
    using lt by (simp add: not_less word_le_nat_alt word_less_nat_alt)
qed

lemma write_sectors_lba_call:
  assumes "ready B s" "lba_disk param" "lba < ext_nsectors (ext param)"
    and n: "unat n * 512 \<le> unat sz" "unat sz \<le> MAX_SECTOR_BUFFER_SIZE" and len: "unat sz \<le> length buffer"
  obtains a cf a' e' ret sz' s' where "write_sectors_lba P param lba n buffer sz check s = ((ret, buffer, sz'), s')"
    "lba_write (disk_id param) lba (unat n) a" "lba_buffer a = B" "rbuf a = memcpy_buf (unat sz) (rbuf (ra s)) buffer"
    "r_al (reg a) = word_of_int check"
    "p_bios P a (dev s) = (cf, a', e')" "dev s' = e'" "rbuf (ra s') = rbuf a'"
    "ret = (if cf then uint (r_ah (reg a')) else 0)"
proof -
  have n63: "unat n \<le> 63" using n by (simp add: MAX_SECTOR_BUFFER_SIZE_def BIOS_MAX_SECTOR_CNT_def)
  note nm = unat_times_512 [OF n63]
  note le = lba_in_range [OF assms(3)]
  have bounds: "\<not> n > of_nat BIOS_MAX_SECTOR_CNT" "\<not> n * 512 > of_nat MAX_SECTOR_BUFFER_SIZE" "\<not> n * 512 > sz"
     "\<not> sz > of_nat MAX_SECTOR_BUFFER_SIZE"
    using n n63 nm by (simp_all add: not_less word_le_nat_alt MAX_SECTOR_BUFFER_SIZE_def BIOS_MAX_SECTOR_CNT_def)
  let ?d = "(dap (ra s))\<lparr>dap_nsectors := ucast n, dap_begin := lba, dap_size := 0x10, dap_unused := 0,
        dap_offset := ucast (p_real_buffer (ptrs s) AND 0xffff),
        dap_base := ucast (drop_bit 4 (p_real_buffer (ptrs s) AND 0xf0000))\<rparr>"
  let ?a = "(ra s)\<lparr>rbuf := memcpy_buf (unat sz) (rbuf (ra s)) buffer, dap := ?d,
       reg := (lba_request 0x43 param check (reg (ra s)))\<lparr>r_si := ucast (p_real_dap (ptrs s) AND 0xffff), r_di := 0\<rparr>\<rparr>"
  obtain cf a' e' where call: "p_bios P ?a (dev s) = (cf, a', e')" by (cases "p_bios P ?a (dev s)") 
  have "unat (ucast n :: u16) = unat n"
    using n63 by (simp add: unsigned_ucast_eq take_bit_nat_eq_self)
  then have w: "lba_write (disk_id param) lba (unat n) ?a"
    by (simp add: lba_write_def lba_request_def)
  have b: "lba_buffer ?a = B"
    using assms(1) int13_3_buffer [of "p_real_buffer (ptrs s)"] by (simp add: ready_def lba_buffer_def)
  have eq: "write_sectors_lba P param lba n buffer sz check s =
      ((if cf then uint (r_ah (reg a')) else 0, buffer,
        if cf then sz else (if ucast (r_al (reg a')) > n then n else ucast (dap_nsectors (dap a'))) * 512),
       s\<lparr>ra := a'\<lparr>reg := (reg a')\<lparr>r_di := 0, r_res := (if cf then 1 else 0)\<rparr>\<rparr>, dev := e'\<rparr>)"
    using assms(2) le bounds call
    by (simp add: write_sectors_lba_def sectors_lba_rw_def lba_disk_def Let_def int13_3_def int13_call_def query_pcbios_def upd_reg_def)
  show thesis
    by (rule that [OF eq w b _ _ call]) (simp_all add: lba_request_def)
qed

lemma ready_via: "ready B s \<Longrightarrow> via P ok s t \<Longrightarrow> rbuf_fixed P \<Longrightarrow> ready B t"
  by (simp add: ready_def via_ptrs via_rbuf)

lemma disk_image_read_only:
  "disk_image P D G B \<Longrightarrow> reaches P read_only e f \<Longrightarrow> D f = D e"
  using reaches_keeps [of P read_only e f "\<lambda>x. D x = D e"] by (simp add: disk_image_def)

lemma accepts_lba:
  "accepts P cap \<Longrightarrow> lba_write drv b n a \<Longrightarrow> 0 < n \<Longrightarrow> unat b + n \<le> cap drv \<Longrightarrow> p_bios P a e = (cf, a', e') \<Longrightarrow> \<not> cf"
  unfolding accepts_def by (metis fst_conv)

lemma via_write_sectors_lba:
  "(\<And>a. lba_write (disk_id param) lba (unat n) a \<Longrightarrow> ok a) \<Longrightarrow>
     via P ok s (snd (write_sectors_lba P param lba n buffer sz check s))"
  unfolding write_sectors_lba_def by (rule via_sectors_lba_rw) simp_all

lemma write_sectors_lba_image:
  assumes image: "disk_image P D G B" and rd: "ready B s" and disk: "lba_disk param"
    and lba: "lba < ext_nsectors (ext param)"
    and n: "unat n * 512 \<le> unat sz" "unat sz \<le> MAX_SECTOR_BUFFER_SIZE" and len: "unat sz \<le> length buffer"
    and res: "write_sectors_lba P param lba n buffer sz check s = ((ret, buf', sz'), s')"
  shows "buf' = buffer"
    "\<not> (d = disk_id param \<and> unat lba \<le> k \<and> k < unat lba + unat n) \<Longrightarrow> D (dev s') d k = D (dev s) d k"
    "accepts P cap \<Longrightarrow> 0 < unat n \<Longrightarrow> unat lba + unat n \<le> cap (disk_id param) \<Longrightarrow>
       ret = 0 \<and> (\<forall>j < unat n. D (dev s') (disk_id param) (unat lba + j) = chunk 512 j buffer)"
proof -
  obtain a cf a' e' ret0 sz0 s0 where
    eq: "write_sectors_lba P param lba n buffer sz check s = ((ret0, buffer, sz0), s0)" and
    a: "lba_write (disk_id param) lba (unat n) a" "lba_buffer a = B"
      "rbuf a = memcpy_buf (unat sz) (rbuf (ra s)) buffer"
    and call: "p_bios P a (dev s) = (cf, a', e')" and "dev s0 = e'"
    and "ret0 = (if cf then uint (r_ah (reg a')) else 0)"
    by (rule write_sectors_lba_call [OF rd disk lba n len, of P check])
  then have e: "dev s' = e'" and ret: "ret = (if cf then uint (r_ah (reg a')) else 0)" and buf: "buf' = buffer"
    using res by simp_all
  have w: "written (D (dev s)) (D e') cf (disk_id param) (unat lba) (unat n) (rbuf a)"
    by (rule disk_image_lba [OF image a(1,2) call])
  have ch: "chunk 512 j (rbuf a) = chunk 512 j buffer" if "j < unat n" for j
  proof -
    have "(j + 1) * 512 \<le> unat sz" using mult_le_mono1 [of "j + 1" "unat n" 512] that n(1) by linarith
    then show ?thesis
      using n(2) len rd by (simp add: a(3) chunk_memcpy_buf ready_def)
  qed
  show "buf' = buffer" by (rule buf)
  show "D (dev s') d k = D (dev s) d k" if "\<not> (d = disk_id param \<and> unat lba \<le> k \<and> k < unat lba + unat n)"
    using w that e by (simp add: written_def)
  show "ret = 0 \<and> (\<forall>j < unat n. D (dev s') (disk_id param) (unat lba + j) = chunk 512 j buffer)"
    if acc: "accepts P cap" "0 < unat n" "unat lba + unat n \<le> cap (disk_id param)"
  proof -
    have "\<not> cf" by (rule accepts_lba [OF acc(1) a(1) acc(2,3) call])
    then show ?thesis using w ret e ch by (simp add: written_def)
  qed
qed


section \<open>An ideal machine\<close>

text \<open>
  A machine with perfect disks, whose clock advances by a fixed amount per reading; it
  meets the contracts above and is the concrete instance of the witnesses. Its
  device state holds the disks, the counter and the state of the CMOS index port.
\<close>

record ideal_dev =
  i_disks :: disks
  i_tsc :: nat
  i_port :: nat

definition store_blocks :: "disks \<Rightarrow> u8 \<Rightarrow> nat \<Rightarrow> nat \<Rightarrow> bytes \<Rightarrow> disks" where
  "store_blocks D drv b n buf =
     (\<lambda>d k. if d = drv \<and> b \<le> k \<and> k < b + n then chunk 512 (k - b) buf else D d k)"

definition load_blocks :: "disks \<Rightarrow> u8 \<Rightarrow> nat \<Rightarrow> nat \<Rightarrow> bytes \<Rightarrow> bytes" where
  "load_blocks D drv b n buf = memcpy_buf (n * 512) buf (concat (map (D drv) [b..<b + n]))"

definition ideal_bios :: "(u8 \<Rightarrow> nat \<times> nat) \<Rightarrow> real_area \<Rightarrow> ideal_dev \<Rightarrow> bool \<times> real_area \<times> ideal_dev" where
  "ideal_bios G a e =
     (let r = reg a; drv = r_dl r; (c, sec) = get_chs_from_pack (r_cx r);
          cb = chs_block (G drv) c (uint (r_dh r)) sec; cn = unat (r_al r);
          lb = unat (dap_begin (dap a)); ln = unat (dap_nsectors (dap a))
      in if r_ah r = 0x43 then (False, a, e\<lparr>i_disks := store_blocks (i_disks e) drv lb ln (rbuf a)\<rparr>)
         else if r_ah r = 0x03 then (False, a, e\<lparr>i_disks := store_blocks (i_disks e) drv cb cn (rbuf a)\<rparr>)
         else if r_ah r = 0x42 then (False, a\<lparr>rbuf := load_blocks (i_disks e) drv lb ln (rbuf a)\<rparr>, e)
         else if r_ah r = 0x02 then (False, a\<lparr>rbuf := load_blocks (i_disks e) drv cb cn (rbuf a)\<rparr>, e)
         else (False, a, e))"

definition ideal :: "(u8 \<Rightarrow> nat \<times> nat) \<Rightarrow> ideal_dev platform" where
  "ideal G = \<lparr>p_bios = ideal_bios G,
     p_inb = (\<lambda>port e. (if port = 0x61 \<and> 5 < i_port e then 0x20 else if port = 0x3fd then 0x60 else 0, e\<lparr>i_port := i_port e + 1\<rparr>)),
     p_outb = (\<lambda>v port e. e),
     p_rdtsc = (\<lambda>e. (of_nat (i_tsc e), e\<lparr>i_tsc := i_tsc e + 100000000\<rparr>)),
     p_rdmsr = (\<lambda>n e. ((0, 0), e)),
     p_malloc = (\<lambda>n e. (Some (replicate (unat n) 0xA5), e)),
     p_free = (\<lambda>e. e),
     p_mbr_bin = replicate 512 0x90,
     p_stack = replicate 1024 0xCC\<rparr>"

lemma written_store_blocks: "written D (store_blocks D drv b n buf) False drv b n buf"
  by (auto simp: written_def store_blocks_def)

lemma ideal_disk_image: "disk_image (ideal G) i_disks G B"
proof -
  have "rbuf_fixed (ideal G)"
    by (auto simp: rbuf_fixed_def ideal_def ideal_bios_def load_blocks_def Let_def case_prod_beta)
  moreover have "keeps (ideal G) read_only (\<lambda>e. i_disks e = d)" for d
    by (auto simp: keeps_def ideal_def ideal_bios_def read_only_def Let_def case_prod_beta)
  ultimately show ?thesis
    by (auto simp: disk_image_def ideal_def ideal_bios_def lba_write_def chs_write_def Let_def written_store_blocks)
qed

lemma ideal_accepts: "accepts (ideal G) cap"
  by (auto simp: accepts_def ideal_def ideal_bios_def Let_def case_prod_beta)

definition blank_reg :: reg_req where
  "blank_reg = \<lparr>r_al = 0, r_ah = 0, r_bl = 0, r_bh = 0, r_cl = 0, r_ch = 0, r_dl = 0, r_dh = 0,
     r_es = 0, r_si = 0, r_di = 0, r_res = 0\<rparr>"

definition blank_area :: real_area where
  "blank_area = \<lparr>reg = blank_reg,
     dap = \<lparr>dap_size = 0, dap_unused = 0, dap_nsectors = 0, dap_offset = 0, dap_base = 0, dap_begin = 0\<rparr>,
     pext = zero_ext, rbuf = replicate MAX_SECTOR_BUFFER_SIZE 0\<rparr>"

definition sample_ptrs :: real_ptrs where
  "sample_ptrs = \<lparr>p_real_buffer = 0x10200, p_real_reg = 0x10100, p_real_dap = 0x10120, p_real_disk_param_ext = 0x10140\<rparr>"

definition sample_dev :: ideal_dev where
  "sample_dev = \<lparr>i_disks = (\<lambda>d k. replicate 512 0x55), i_tsc = 0, i_port = 0\<rparr>"

end
