(* ===== verification/Lib.thy ===== *)
theory Lib
  imports Machine
begin

text \<open>
  The 64-bit division of lib.c. \<^verbatim>\<open>gcc -m32\<close> compiles every \<^verbatim>\<open>uint64_t\<close> division of
  the program into a call of \<^verbatim>\<open>__udivdi3\<close> or \<^verbatim>\<open>__umoddi3\<close>; both run the
  shift-and-subtract loop \<^verbatim>\<open>__udivmoddi4\<close>. \<open>None\<close> is the divide exception that the
  intentional \<^verbatim>\<open>1/((unsigned)den)\<close> raises. The loops terminate and compute
  quotient and remainder; the locale \<open>u64_division\<close> is what the rest of the program relies on.
\<close>

section \<open>The loops of \<^verbatim>\<open>__udivmoddi4\<close>\<close>

text \<open>
  \<^verbatim>\<open>while ((int64_t)den >= 0) { den <<= 1; qbit <<= 1; }\<close>. It is entered with
  \<open>den \<noteq> 0\<close> only, which the guard repeats.
\<close>

function left_justify :: "u64 \<Rightarrow> u64 \<Rightarrow> u64 \<times> u64" where
  "left_justify den qbit =
     (if den \<noteq> 0 \<and> 0 \<le> sint den then left_justify (push_bit 1 den) (push_bit 1 qbit)
      else (den, qbit))"
  by pat_completeness auto

lemma sint_nonneg_u64: "0 \<le> sint (x :: u64) \<longleftrightarrow> unat x < 2 ^ 63"
proof -
  have "unat x < 2 ^ LENGTH(64)" by (rule unsigned_less)
  then have lt: "unat x < 2 ^ 64" by simp
  have "0 \<le> sint x \<longleftrightarrow> \<not> bit (unat x) 63"
    by (simp add: sint_uint bit_unsigned_iff)
  also have "\<dots> \<longleftrightarrow> even (unat x div 2 ^ 63)"
    by (simp add: bit_iff_odd)
  also have "\<dots> \<longleftrightarrow> unat x < 2 ^ 63"
    using lt div_less [of "unat x" "2 ^ 63"]
    by (cases "unat x < 2 ^ 63") (auto simp: div_nat_eqI [where q = 1])
  finally show ?thesis .
qed

lemma unat_shl1_u64: "unat (x :: u64) < 2 ^ 63 \<Longrightarrow> unat (push_bit (Suc 0) x) = 2 * unat x"
  by (simp add: push_bit_eq_mult unat_word_ariths)

lemma unat_shr1: "unat (drop_bit (Suc 0) (x :: u64)) = unat x div 2"
  by (simp add: drop_bit_Suc unat_div_distrib)

termination left_justify
proof (relation "measure (\<lambda>(den, qbit). 2 ^ 64 - unat den)", simp, goal_cases)
  case (1 den qbit)
  then have "unat den < 2 ^ 63" "0 < unat den"
    by (auto simp: sint_nonneg_u64 unat_gt_0)
  then show ?case
    using unat_shl1_u64 [of den] by simp
qed

text \<open>
  \<^verbatim>\<open>while (qbit) { if (den <= num) { num -= den; quot += qbit; } den >>= 1; qbit >>= 1; }\<close>
\<close>

function divide_loop :: "u64 \<Rightarrow> u64 \<Rightarrow> u64 \<Rightarrow> u64 \<Rightarrow> u64 \<times> u64" where
  "divide_loop num den qbit quot =
     (if qbit \<noteq> 0
      then (if den \<le> num
            then divide_loop (num - den) (drop_bit 1 den) (drop_bit 1 qbit) (quot + qbit)
            else divide_loop num (drop_bit 1 den) (drop_bit 1 qbit) quot)
      else (quot, num))"
  by pat_completeness auto
termination
proof (relation "measure (\<lambda>(num, den, qbit, quot). unat qbit)", simp, goal_cases)
  case (1 num den qbit quot)
  then show ?case by (simp add: unat_shr1 unat_gt_0)
next
  case (2 num den qbit quot)
  then show ?case by (simp add: unat_shr1 unat_gt_0)
qed

declare left_justify.simps [simp del] divide_loop.simps [simp del]

definition udivmoddi4 :: "u64 \<Rightarrow> u64 \<Rightarrow> (u64 \<times> u64) option" where
  "udivmoddi4 num den =
     (if den = 0 then None
      else case left_justify den 1 of (den', qbit) \<Rightarrow> Some (divide_loop num den' qbit 0))"

definition udivdi3 :: "u64 \<Rightarrow> u64 \<Rightarrow> u64 option" where
  "udivdi3 num den = map_option fst (udivmoddi4 num den)"

definition umoddi3 :: "u64 \<Rightarrow> u64 \<Rightarrow> u64 option" where
  "umoddi3 num den = map_option snd (udivmoddi4 num den)"

section \<open>Correctness\<close>

text \<open>The first loop scales the divisor by a power of two until its top bit is set.\<close>

lemma left_justify_scales:
  assumes "den \<noteq> 0" "unat den = d * 2 ^ j" "qbit = 2 ^ j" "j < 64"
  shows "\<exists>k < 64. unat (fst (left_justify den qbit)) = d * 2 ^ k \<and>
              2 ^ 63 \<le> d * 2 ^ k \<and> snd (left_justify den qbit) = 2 ^ k"
  using assms
proof (induction den qbit arbitrary: j rule: left_justify.induct)
  case (1 den qbit)
  show ?case
  proof (cases "0 \<le> sint den")
    case True
    then have small: "unat den < 2 ^ 63" by (simp add: sint_nonneg_u64)
    have dbl: "unat (push_bit 1 den) = d * 2 ^ Suc j"
      using "1.prems"(2) unat_shl1_u64 [OF small] by simp
    have "0 < d" using "1.prems"(1,2) by (cases d) (auto simp: unat_eq_zero)
    then have "2 ^ j \<le> d * 2 ^ j" by simp
    with small "1.prems"(2) have "(2::nat) ^ j < 2 ^ 63" by linarith
    then have j: "Suc j < 64" using power_less_imp_less_exp [of "2::nat" j 63] by simp
    have nz: "push_bit 1 den \<noteq> 0"
      using dbl \<open>0 < d\<close> by (metis less_numeral_extra(3) mult_pos_pos unat_0 zero_less_numeral zero_less_power)
    have q: "push_bit 1 qbit = 2 ^ Suc j"
      using "1.prems"(3) by (simp add: push_bit_eq_mult)
    have "den \<noteq> 0 \<and> 0 \<le> sint den" using True "1.prems"(1) by simp
    from "1.IH" [OF this nz dbl q j] show ?thesis
      using True "1.prems"(1) by (subst (1 2) left_justify.simps) simp
  next
    case False
    then have "2 ^ 63 \<le> d * 2 ^ j"
      using "1.prems"(2) by (simp add: sint_nonneg_u64)
    then show ?thesis
      using False "1.prems" by (subst (1 2) left_justify.simps) auto
  qed
qed

text \<open>
  The second loop is restoring division. With \<open>den = d * 2\<^sup>k\<close>, \<open>qbit = 2\<^sup>k\<close> and
  \<open>num < d * 2\<^sup>k\<^sup>+\<^sup>1\<close> it adds \<open>num div d\<close> to \<open>quot\<close> and leaves \<open>num mod d\<close>.
\<close>

lemma divide_loop_end: "divide_loop n e 0 q = (q, n)"
  by (subst divide_loop.simps) simp

lemma divide_loop_last:
  assumes "0 < d" "unat den = d" "unat num < 2 * d"
  shows "divide_loop num den 1 quot = (quot + of_nat (unat num div d), of_nat (unat num mod d))"
proof (cases "den \<le> num")
  case True
  then have le: "d \<le> unat num" using assms(2) by (simp add: word_le_nat_alt)
  have "unat num div d = 1" "unat num mod d = unat num - d"
    using le assms(1,3) by (simp_all add: div_nat_eqI mod_nat_eqI)
  moreover have "num - den = of_nat (unat num - d)"
    using arg_cong [OF unat_sub [OF True], where f = "of_nat :: nat \<Rightarrow> u64"] assms(2) by (simp only: of_nat_unat ucast_id)
  ultimately show ?thesis
    using True by (subst divide_loop.simps) (simp add: divide_loop_end drop_bit_Suc)
next
  case False
  then show ?thesis
    using assms(2) by (subst divide_loop.simps) (simp add: divide_loop_end drop_bit_Suc word_le_nat_alt)
qed

lemma divide_loop_div_mod:
  assumes "0 < d" "unat den = d * 2 ^ k" "qbit = 2 ^ k" "k < 64" "unat num < d * 2 ^ Suc k"
  shows "divide_loop num den qbit quot =
           (quot + of_nat (unat num div d), of_nat (unat num mod d))"
  using assms(2-)
proof (induction k arbitrary: num den qbit quot)
  case 0
  then show ?case using divide_loop_last [OF \<open>0 < d\<close>, of den num quot] by simp
next
  case (Suc k)
  have q: "drop_bit 1 qbit = 2 ^ k" "qbit \<noteq> 0"
    using Suc.prems(2,3) by (simp_all add: drop_bit_exp_eq possible_bit_word del: power_Suc)
  have e: "unat (drop_bit 1 den) = d * 2 ^ k"
    using Suc.prems(1) by (simp add: unat_shr1)
  have k: "k < 64" using Suc.prems(3) by simp
  show ?case
  proof (cases "den \<le> num")
    case True
    then have n: "unat (num - den) = unat num - d * 2 ^ Suc k" "d * 2 ^ Suc k \<le> unat num"
      using Suc.prems(1) by (simp_all add: unat_sub word_le_nat_alt)
    then have lt: "unat (num - den) < d * 2 ^ Suc k"
      using Suc.prems(4) by simp
    have split: "unat num = d * 2 ^ Suc k + unat (num - den)" using n by simp
    have "unat num div d = 2 ^ Suc k + unat (num - den) div d"
      using \<open>0 < d\<close> by (subst split) (simp del: power_Suc)
    moreover have "unat num mod d = unat (num - den) mod d"
      by (subst split) (simp only: mod_mult_self4)
    ultimately show ?thesis
      using Suc.IH [OF e q(1) k lt, of "quot + qbit"] True q(2) Suc.prems(2)
      by (subst divide_loop.simps) (simp add: add.assoc)
  next
    case False
    then have "unat num < d * 2 ^ Suc k"
      using Suc.prems(1) by (simp add: word_le_nat_alt)
    from Suc.IH [OF e q(1) k this, of quot] show ?thesis
      using False q(2) by (subst divide_loop.simps) simp
  qed
qed


lemma udivmoddi4_nonzero: "den \<noteq> 0 \<Longrightarrow> udivmoddi4 num den = Some (num div den, num mod den)"
proof -
  assume nz: "den \<noteq> 0"
  obtain e q where lj: "left_justify den 1 = (e, q)" by (cases "left_justify den 1")
  obtain k where k: "k < 64" "unat e = unat den * 2 ^ k" "2 ^ 63 \<le> unat den * 2 ^ k" "q = 2 ^ k"
    using left_justify_scales [OF nz, of "unat den" 0 1] lj by auto
  have "unat num < 2 ^ LENGTH(64)" by (rule unsigned_less)
  then have "unat num < unat den * 2 ^ Suc k" using k(3) by simp
  moreover have "0 < unat den" using nz by (simp add: unat_gt_0)
  ultimately have "divide_loop num e q 0 = (of_nat (unat num div unat den), of_nat (unat num mod unat den))"
    using divide_loop_div_mod [of "unat den" e k q num 0] k by simp
  then show ?thesis
    using nz lj by (simp add: udivmoddi4_def word_div_def word_mod_def unat_div_distrib unat_mod_distrib flip: unat_div_distrib unat_mod_distrib)
qed

text \<open>
  C15. The shift-and-subtract division that gcc's 64-bit \<^verbatim>\<open>/\<close> and \<^verbatim>\<open>%\<close> call returns the
  quotient and the remainder for every pair of operands, and traps exactly for a zero
  divisor; both loops end.
\<close>

theorem udivmoddi4_div_mod:
  "udivmoddi4 num den = (if den = 0 then None else Some (num div den, num mod den))"
  by (simp add: udivmoddi4_nonzero) (simp add: udivmoddi4_def)

section \<open>What the program relies on\<close>

locale u64_division =
  fixes udiv :: "u64 \<Rightarrow> u64 \<Rightarrow> u64 option"
    and umod :: "u64 \<Rightarrow> u64 \<Rightarrow> u64 option"
  assumes udiv_nonzero: "d \<noteq> 0 \<Longrightarrow> udiv n d = Some (n div d)"
    and umod_nonzero: "d \<noteq> 0 \<Longrightarrow> umod n d = Some (n mod d)"
    and udiv_trap: "udiv n 0 = None"
    and umod_trap: "umod n 0 = None"
begin

text \<open>A proportion \<^verbatim>\<open>a * k / b\<close> with \<open>a \<le> b\<close> stays within its scale.\<close>

lemma proportion:
  assumes "b \<noteq> 0" "a \<le> b" "unat b * unat k < 2 ^ 64"
  shows "\<exists>q. udiv (a * k) b = Some q \<and> unat q = unat a * unat k div unat b \<and> unat q \<le> unat k"
proof -
  have ab: "unat a \<le> unat b" using assms(2) by (simp add: word_le_nat_alt)
  then have "unat a * unat k \<le> unat b * unat k" by simp
  then have "unat a * unat k < 2 ^ 64"
    using assms(3) by linarith
  then have eq: "unat (a * k) = unat a * unat k"
    by (simp add: unat_word_ariths)
  have "unat a * unat k div unat b \<le> unat k"
    using ab assms(1) by (metis \<open>unat a * unat k \<le> unat b * unat k\<close> div_le_mono nonzero_mult_div_cancel_left unat_eq_zero)
  then show ?thesis
    using assms(1) by (simp add: udiv_nonzero unat_div_distrib eq)
qed

lemma udiv_Some_iff: "udiv n d = Some q \<longleftrightarrow> d \<noteq> 0 \<and> q = n div d"
  by (cases "d = 0") (auto simp: udiv_nonzero udiv_trap)

lemma umod_Some_iff: "umod n d = Some r \<longleftrightarrow> d \<noteq> 0 \<and> r = n mod d"
  by (cases "d = 0") (auto simp: umod_nonzero umod_trap)

text \<open>Quotient and remainder of one division fit together.\<close>

lemma recompose: "udiv n d = Some q \<Longrightarrow> umod n d = Some r \<Longrightarrow> n = q * d + r \<and> r < d"
  by (auto simp: udiv_Some_iff umod_Some_iff word_mod_div_equality word_mod_less_divisor word_gt_0)

end

interpretation lib64: u64_division udivdi3 umoddi3
  by unfold_locales (simp_all add: udivdi3_def umoddi3_def udivmoddi4_nonzero, simp_all add: udivmoddi4_def)

end
