(* ===== verification/Timer.thy ===== *)
theory Timer
  imports Bios Lib "HOL-Library.Signed_Division"
begin

text \<open>
  The clock of timer.c: the real-time clock read over CMOS ports, the calibration of the
  time-stamp counter, the calendar and \<^verbatim>\<open>do_gettimeofday\<close>, and the delays of lib.c built
  on it. A function that may fail to return (a polling loop, a divide exception) gives
  an option, and \<open>None\<close> is that it does not return.
\<close>

section \<open>State\<close>

text \<open>\<^verbatim>\<open>struct cpu_ident\<close> of lib.h; head.S fills it in with \<^verbatim>\<open>cpuid\<close> before the C code starts.\<close>

record cpu_ident =
  ci_type :: int
  ci_model :: int
  ci_step :: int
  ci_cpuid :: int
  ci_capability :: u32
  ci_vend_id :: string
  ci_cache_info :: bytes
  ci_pwrcap :: u32
  ci_ext :: u32
  ci_feature_flag :: u32
  ci_dcache0_eax :: u32
  ci_dcache0_ebx :: u32
  ci_dcache0_ecx :: u32
  ci_dcache0_edx :: u32
  ci_dcache1_eax :: u32
  ci_dcache1_ebx :: u32
  ci_dcache1_ecx :: u32
  ci_dcache1_edx :: u32
  ci_dcache2_eax :: u32
  ci_dcache2_ebx :: u32
  ci_dcache2_ecx :: u32
  ci_dcache2_edx :: u32
  ci_dcache3_eax :: u32
  ci_dcache3_ebx :: u32
  ci_dcache3_ecx :: u32
  ci_dcache3_edx :: u32

record rtc_time =
  tm_sec :: int
  tm_min :: int
  tm_hour :: int
  tm_mday :: int
  tm_mon :: int
  tm_year :: int
  tm_wday :: int

text \<open>The globals of timer.c.\<close>

record timer_vars =
  cpu_id :: cpu_ident
  extclock :: u32
  rdtsc_ok :: u32
  pae :: u32
  tm_base_clk :: u64
  tsc_invariable :: int
  imc_type :: u32
  cpu_type_str :: string
  l1_cache :: int
  l2_cache :: int
  l3_cache :: int
  speed :: u32
  global_rtc_tm :: rtc_time

record 'e tmach = "'e mach" +
  tv :: timer_vars

definition epoch :: u32 where "epoch = 1900"

text \<open>The port instructions on the machine state.\<close>

definition inb :: "'e platform \<Rightarrow> u16 \<Rightarrow> ('e, 'z) mach_scheme \<Rightarrow> u8 \<times> ('e, 'z) mach_scheme" where
  "inb P port s = (case p_inb P port (dev s) of (v, e) \<Rightarrow> (v, s\<lparr>dev := e\<rparr>))"

definition outb :: "'e platform \<Rightarrow> u8 \<Rightarrow> u16 \<Rightarrow> ('e, 'z) mach_scheme \<Rightarrow> ('e, 'z) mach_scheme" where
  "outb P v port s = s\<lparr>dev := p_outb P v port (dev s)\<rparr>"

definition rdtsc :: "'e platform \<Rightarrow> ('e, 'z) mach_scheme \<Rightarrow> u64 \<times> ('e, 'z) mach_scheme" where
  "rdtsc P s = (case p_rdtsc P (dev s) of (v, e) \<Rightarrow> (v, s\<lparr>dev := e\<rparr>))"

definition rdmsr :: "'e platform \<Rightarrow> u32 \<Rightarrow> ('e, 'z) mach_scheme \<Rightarrow> (u32 \<times> u32) \<times> ('e, 'z) mach_scheme" where
  "rdmsr P n s = (case p_rdmsr P n (dev s) of (v, e) \<Rightarrow> (v, s\<lparr>dev := e\<rparr>))"

section \<open>The real-time clock\<close>

definition rtc_cmos_read :: "'e platform \<Rightarrow> u8 \<Rightarrow> ('e, 'z) mach_scheme \<Rightarrow> u8 \<times> ('e, 'z) mach_scheme" where
  "rtc_cmos_read P addr s = inb P 0x71 (outb P addr 0x70 s)"

definition rtc_is_updating :: "'e platform \<Rightarrow> ('e, 'z) mach_scheme \<Rightarrow> u8 \<times> ('e, 'z) mach_scheme" where
  "rtc_is_updating P s = (case rtc_cmos_read P 10 s of (v, s) \<Rightarrow> (v AND 0x80, s))"

partial_function (option) rtc_wait :: "'e platform \<Rightarrow> ('e, 'z) mach_scheme \<Rightarrow> ('e, 'z) mach_scheme option" where
  "rtc_wait P s =
     (case rtc_is_updating P s of (u, s) \<Rightarrow> if u \<noteq> 0 then rtc_wait P s else Some s)"

definition bcd2bin :: "u8 \<Rightarrow> u8" where
  "bcd2bin v = (v AND 0x0f) + drop_bit 4 v * 10"

text \<open>
  Registers 0, 2, 4, 7, 8, 9 and 6 are read in this order, then the control register
  (11), whose bit 2 selects binary values.
\<close>

fun cmos_reads :: "'e platform \<Rightarrow> u8 list \<Rightarrow> ('e, 'z) mach_scheme \<Rightarrow> u8 list \<times> ('e, 'z) mach_scheme" where
  "cmos_reads P [] s = ([], s)"
| "cmos_reads P (addr # addrs) s =
     (case rtc_cmos_read P addr s of (v, s) \<Rightarrow> case cmos_reads P addrs s of (vs, s) \<Rightarrow> (v # vs, s))"

definition rtc_decode :: "u8 list \<Rightarrow> rtc_time" where
  "rtc_decode vs =
     (let ctrl = vs ! 7;
          d = (\<lambda>i. uint (if ctrl AND 0x04 = 0 then bcd2bin (vs ! i) else vs ! i));
          year = d 5 + uint (epoch - 1900)
      in \<lparr>tm_sec = d 0, tm_min = d 1, tm_hour = d 2, tm_mday = d 3, tm_mon = d 4 - 1,
          tm_year = (if year \<le> 69 then year + 100 else year), tm_wday = d 6\<rparr>)"

definition rtc_get_rtc_time :: "'e platform \<Rightarrow> ('e, 'z) mach_scheme \<Rightarrow> (rtc_time \<times> ('e, 'z) mach_scheme) option" where
  "rtc_get_rtc_time P s =
     do {
       s \<leftarrow> rtc_wait P s;
       case cmos_reads P [0, 2, 4, 7, 8, 9, 6, 11] s of (vs, s) \<Rightarrow> Some (rtc_decode vs, s)
     }"

section \<open>Calibration of the time-stamp counter\<close>

definition TICKS :: nat where "TICKS = 59659"

text \<open>
  A coefficient is a 5-bit integer plus a half when bit 14 is set; it is kept here in
  halves. The quotient of the product of a 32-bit count and such a coefficient by
  another one is exact enough in the extended precision of the x87 unit for its integer
  part to be that of the rational quotient.
\<close>

definition coefficient :: "u32 \<Rightarrow> u64" where
  "coefficient m = ucast (drop_bit 8 m AND 0x1F) * 2 + ucast (drop_bit 14 m AND 1)"

definition correct_tsc :: "'e platform \<Rightarrow> u32 \<Rightarrow> ('e, 'z) tmach_scheme \<Rightarrow> u32 \<times> ('e, 'z) tmach_scheme" where
  "correct_tsc P el_org s =
     (case rdmsr P 0x198 s of ((lo, _), s) \<Rightarrow>
      case (if drop_bit 31 lo AND 1 \<noteq> 0
            then (case rdmsr P 0x198 s of ((_, hi), s) \<Rightarrow> (coefficient hi, s))
            else (case rdmsr P 0x17 s of ((lo, _), s) \<Rightarrow> (coefficient lo, s))) of (coef_max, s) \<Rightarrow>
      case (if drop_bit 7 (ci_feature_flag (cpu_id (tv s))) AND 1 \<noteq> 0
            then (case rdmsr P 0x198 s of ((lo, _), s) \<Rightarrow> (coefficient lo, s))
            else (case rdmsr P 0x2A s of ((lo, _), s) \<Rightarrow> (ucast (drop_bit 22 lo AND 0x1F) * 2, s))) of (coef_now, s) \<Rightarrow>
        (if coef_max \<noteq> 0 \<and> coef_now \<noteq> 0 then ucast (ucast el_org * coef_now div coef_max) else el_org, s))"

partial_function (option) gate_loop ::
  "'e platform \<Rightarrow> u32 \<Rightarrow> ('e, 'z) mach_scheme \<Rightarrow> (u32 \<times> ('e, 'z) mach_scheme) option" where
  "gate_loop P loops s =
     (case inb P 0x61 s of (v, s) \<Rightarrow>
        if v AND 0x20 = 0 then gate_loop P (loops + 1) s else Some (loops + 1, s))"

definition cpuspeed :: "'e platform \<Rightarrow> ('e, 'z) tmach_scheme \<Rightarrow> (int \<times> ('e, 'z) tmach_scheme) option" where
  "cpuspeed P s =
     (case inb P 0x61 s of (v, s) \<Rightarrow>
      let s = outb P ((v AND NOT 0x02) OR 0x01) 0x61 s;
          s = outb P 0xb0 0x43 s;
          s = outb P (of_nat TICKS) 0x42 s;
          s = outb P (of_nat (TICKS div 256)) 0x42 s
      in case rdtsc P s of (st, s) \<Rightarrow>
         do {
           (loops, s) \<leftarrow> gate_loop P 0 s;
           case rdtsc P s of (en, s) \<Rightarrow>
             let end_low = ucast (en - st) :: u32
             in if sint loops < 4 \<or> end_low < 50000 then Some (-1, s)
                else case (if tsc_invariable (tv s) \<noteq> 0 then correct_tsc P end_low s else (end_low, s)) of
                       (end_low, s) \<Rightarrow> Some (sint (end_low div 50), s)
         })"

section \<open>Calendar and time of day\<close>

definition my_mktime :: "u32 \<Rightarrow> u32 \<Rightarrow> u32 \<Rightarrow> u32 \<Rightarrow> u32 \<Rightarrow> u32 \<Rightarrow> u32" where
  "my_mktime year0 mon0 day hour minute sec =
     (let mon = mon0 - 2; early = (sint mon \<le> 0);
          mon = (if early then mon + 12 else mon); year = (if early then year0 - 1 else year0)
      in (((year div 4 - year div 100 + year div 400 + 367 * mon div 12 + day + year * 365 - 719499) * 24 + hour)
            * 60 + minute) * 60 + sec)"

definition get_timer_base_usec :: u32 where "get_timer_base_usec = 0"

definition get_timer_offset_usec :: "'e platform \<Rightarrow> ('e, 'z) tmach_scheme \<Rightarrow> (u32 \<times> ('e, 'z) tmach_scheme) option" where
  "get_timer_offset_usec P s =
     (case rdtsc P s of (cur, s) \<Rightarrow>
        do {
          q \<leftarrow> udivdi3 (cur - tm_base_clk (tv s)) (ucast (extclock (tv s)));
          Some (ucast (q * 1000), s)
        })"

definition get_timer_base_sec :: "timer_vars \<Rightarrow> u32" where
  "get_timer_base_sec t =
     (let r = global_rtc_tm t
      in my_mktime (word_of_int (tm_year r) + epoch) (word_of_int (tm_mon r + 1)) (word_of_int (tm_mday r))
           (word_of_int (tm_hour r)) (word_of_int (tm_min r)) (word_of_int (tm_sec r)))"

function norm_usec :: "u32 \<Rightarrow> u32 \<Rightarrow> u32 \<times> u32" where
  "norm_usec usec sec = (if usec \<ge> 1000000 then norm_usec (usec - 1000000) (sec + 1) else (usec, sec))"
  by auto
termination
  by (relation "measure (\<lambda>(usec, sec). unat usec)") (auto simp: word_le_nat_alt unat_sub)

declare norm_usec.simps [simp del]

text \<open>\<^verbatim>\<open>gettimeofday\<close> reaches this function through libgloss; the pair is \<^verbatim>\<open>tv_sec\<close>, \<^verbatim>\<open>tv_usec\<close>.\<close>

definition do_gettimeofday :: "'e platform \<Rightarrow> ('e, 'z) tmach_scheme \<Rightarrow> ((u32 \<times> u32) \<times> ('e, 'z) tmach_scheme) option" where
  "do_gettimeofday P s =
     do {
       (off, s) \<leftarrow> get_timer_offset_usec P s;
       case norm_usec (get_timer_base_usec + off) (get_timer_base_sec (tv s)) of
         (usec, sec) \<Rightarrow> Some ((sec, usec), s)
     }"

section \<open>Delays (lib.c)\<close>

definition elapsed_us :: "u32 \<times> u32 \<Rightarrow> u32 \<times> u32 \<Rightarrow> u32" where
  "elapsed_us start cur = (fst cur - fst start) * 1000 * 1000 + (snd cur - snd start)"

partial_function (option) usleep_loop ::
  "'e platform \<Rightarrow> u32 \<times> u32 \<Rightarrow> u32 \<Rightarrow> ('e, 'z) tmach_scheme \<Rightarrow> ('e, 'z) tmach_scheme option" where
  "usleep_loop P start usec s =
     do {
       (cur, s) \<leftarrow> do_gettimeofday P s;
       if elapsed_us start cur \<ge> usec then Some s else usleep_loop P start usec s
     }"

definition usleep :: "'e platform \<Rightarrow> u32 \<Rightarrow> ('e, 'z) tmach_scheme \<Rightarrow> (int \<times> ('e, 'z) tmach_scheme) option" where
  "usleep P usec s =
     do {
       (start, s) \<leftarrow> do_gettimeofday P s;
       s \<leftarrow> usleep_loop P start usec s;
       Some (0, s)
     }"

definition msleep :: "'e platform \<Rightarrow> u32 \<Rightarrow> ('e, 'z) tmach_scheme \<Rightarrow> (int \<times> ('e, 'z) tmach_scheme) option" where
  "msleep P msec s = usleep P (msec * 1000) s"

definition sleep :: "'e platform \<Rightarrow> u32 \<Rightarrow> ('e, 'z) tmach_scheme \<Rightarrow> (int \<times> ('e, 'z) tmach_scheme) option" where
  "sleep P sec s = msleep P (sec * 1000) s"

section \<open>A sample state\<close>

definition sample_cpu :: cpu_ident where
  "sample_cpu = \<lparr>ci_type = 6, ci_model = 10, ci_step = 7, ci_cpuid = 2, ci_capability = 0, ci_vend_id = ''GenuineIntel'',
     ci_cache_info = replicate 16 0, ci_pwrcap = 0, ci_ext = 0, ci_feature_flag = 0,
     ci_dcache0_eax = 0, ci_dcache0_ebx = 0, ci_dcache0_ecx = 0, ci_dcache0_edx = 0,
     ci_dcache1_eax = 0, ci_dcache1_ebx = 0, ci_dcache1_ecx = 0, ci_dcache1_edx = 0,
     ci_dcache2_eax = 0, ci_dcache2_ebx = 0, ci_dcache2_ecx = 0, ci_dcache2_edx = 0,
     ci_dcache3_eax = 0, ci_dcache3_ebx = 0, ci_dcache3_ecx = 0, ci_dcache3_edx = 0\<rparr>"

definition sample_timer :: timer_vars where
  "sample_timer = \<lparr>cpu_id = sample_cpu, extclock = 100000, rdtsc_ok = 1, pae = 0, tm_base_clk = 0,
     tsc_invariable = 0, imc_type = 0, cpu_type_str = ''686'', l1_cache = 32, l2_cache = 256, l3_cache = 0, speed = 100000,
     global_rtc_tm = \<lparr>tm_sec = 0, tm_min = 0, tm_hour = 0, tm_mday = 1, tm_mon = 0, tm_year = 119, tm_wday = 0\<rparr>\<rparr>"

definition sample_tmach :: "nat \<Rightarrow> ideal_dev tmach" where
  "sample_tmach clk = \<lparr>ptrs = sample_ptrs, ra = blank_area, dev = sample_dev\<lparr>i_tsc := clk\<rparr>, tv = sample_timer\<rparr>"

lemmas sample_defs = sample_tmach_def sample_timer_def sample_dev_def ideal_def

section \<open>The calendar against a reference\<close>

definition leap :: "nat \<Rightarrow> bool" where
  "leap y \<longleftrightarrow> (4 dvd y \<and> \<not> 100 dvd y) \<or> 400 dvd y"

definition days_in_month :: "nat \<Rightarrow> nat \<Rightarrow> nat" where
  "days_in_month y m = (if m = 2 then (if leap y then 29 else 28) else if m \<in> {4, 6, 9, 11} then 30 else 31)"

text \<open>Days from 1 January 1970 to 1 January of year \<open>1970 + n\<close>, and from there to the first of a month.\<close>

fun days_to_year :: "nat \<Rightarrow> nat" where
  "days_to_year 0 = 0"
| "days_to_year (Suc n) = days_to_year n + (if leap (1970 + n) then 366 else 365)"

fun days_to_month :: "nat \<Rightarrow> nat \<Rightarrow> nat" where
  "days_to_month y 0 = 0"
| "days_to_month y (Suc m) = (if m = 0 then 0 else days_to_month y m + days_in_month y m)"

definition unix_time :: "nat \<Rightarrow> nat \<Rightarrow> nat \<Rightarrow> nat \<Rightarrow> nat \<Rightarrow> nat \<Rightarrow> nat" where
  "unix_time y m d h mi s =
     (((days_to_year (y - 1970) + days_to_month y m + (d - 1)) * 24 + h) * 60 + mi) * 60 + s"

definition leaps :: "nat \<Rightarrow> int" where
  "leaps y = int (y div 4) - int (y div 100) + int (y div 400)"

lemma leaps_Suc: "leaps (Suc y) = leaps y + (if leap (Suc y) then 1 else 0)"
proof -
  have "(400::nat) dvd x \<Longrightarrow> 100 dvd x" "(100::nat) dvd x \<Longrightarrow> 4 dvd x" for x
    using dvd_trans [of 100 400 x] dvd_trans [of 4 100 x] by simp_all
  then show ?thesis
    by (auto simp: leaps_def leap_def div_Suc simp flip: dvd_eq_mod_eq_0)
qed

lemma days_to_year_closed: "int (days_to_year n) = 365 * int n + leaps (1969 + n) - leaps 1969"
proof (induction n)
  case (Suc n)
  then show ?case using leaps_Suc [of "1969 + n"] by simp
qed simp

text \<open>The day number that \<^verbatim>\<open>my_mktime\<close> computes from the year and month counted from March.\<close>

definition day_number :: "nat \<Rightarrow> nat \<Rightarrow> nat \<Rightarrow> int" where
  "day_number y m d =
     (let (y, m) = (if m \<le> 2 then (y - 1, m + 10) else (y, m - 2))
      in leaps y + int (367 * m div 12) + int d + int y * 365 - 719499)"

lemma month_cases: "1 \<le> m \<Longrightarrow> m \<le> 12 \<Longrightarrow> m \<in> {1, 2, 3, 4, 5, 6, 7, 8, 9, 10, 11, 12 :: nat}"
  by (simp, presburger)

lemma days_to_month_values:
  "map (days_to_month y) [1, 2, 3, 4, 5, 6, 7, 8, 9, 10, 11, 12] =
   (let l = (if leap y then 1 else 0)
    in [0, 31, 59 + l, 90 + l, 120 + l, 151 + l, 181 + l, 212 + l, 243 + l, 273 + l, 304 + l, 334 + l])"
  by (simp add: days_in_month_def numeral_eq_Suc)

lemma day_number_correct:
  assumes "1970 \<le> y" "1 \<le> m" "m \<le> 12" "1 \<le> d"
  shows "day_number y m d = int (days_to_year (y - 1970) + days_to_month y m + (d - 1))"
proof -
  have y: "int (days_to_year (y - 1970)) = 365 * int y - 719527 + leaps (y - 1)"
    using assms(1) by (simp add: days_to_year_closed) (simp add: leaps_def of_nat_diff)
  have l: "leaps y = leaps (y - 1) + (if leap y then 1 else 0)"
    using leaps_Suc [of "y - 1"] assms(1) by simp
  have yd: "int (y - Suc 0) = int y - 1" using assms(1) by simp
  show ?thesis
    using month_cases [OF assms(2,3)] assms(4) days_to_month_values [of y] y l yd
    by (elim insertE) (simp_all add: day_number_def of_nat_diff Let_def)
qed


lemma my_mktime_month:
  assumes "1 \<le> m" "m \<le> 12"
  shows "(sint ((of_nat m :: u32) - 2) \<le> 0) = (m \<le> 2)"
  using month_cases [OF assms] by (elim insertE) simp_all

lemma my_mktime_day_number:
  assumes "1 \<le> y" "y < 2 ^ 31" "1 \<le> m" "m \<le> 12"
  shows "my_mktime (of_nat y) (of_nat m) (of_nat d) h mi s =
    ((of_int (day_number y m d) * 24 + h) * 60 + mi) * 60 + s"
proof -
  define y' m' where "y' = (if m \<le> 2 then y - 1 else y)" and "m' = (if m \<le> 2 then m + 10 else m - 2)"
  have yw: "(if m \<le> 2 then of_nat y - 1 else of_nat y :: u32) = of_nat y'"
    using assms(1) by (simp add: y'_def of_nat_diff)
  have mw: "(if m \<le> 2 then of_nat m - 2 + 12 else of_nat m - 2 :: u32) = of_nat m'"
    by (simp add: m'_def of_nat_diff)
  have b: "y' < 2 ^ 32" "367 * m' < 2 ^ 32" "m' \<le> 12"
    using assms by (auto simp: y'_def m'_def)
  have divs: "(of_nat y' :: u32) div 4 = of_nat (y' div 4)" "(of_nat y' :: u32) div 100 = of_nat (y' div 100)"
    "(of_nat y' :: u32) div 400 = of_nat (y' div 400)" "(367 * of_nat m' :: u32) div 12 = of_nat (367 * m' div 12)"
    using u32_div_of_nat [OF b(1), of 4] u32_div_of_nat [OF b(1), of 100] u32_div_of_nat [OF b(1), of 400]
      u32_div_of_nat [OF b(2), of 12] by simp_all
  have dn: "day_number y m d = leaps y' + int (367 * m' div 12) + int d + int y' * 365 - 719499"
    by (simp add: day_number_def y'_def m'_def)
  show ?thesis
    unfolding my_mktime_def Let_def my_mktime_month [OF assms(3,4)] yw mw divs dn leaps_def
    by (simp add: algebra_simps)
qed

lemma unix_time_bound:
  assumes "1970 \<le> y" "y \<le> 2105" "1 \<le> m" "m \<le> 12" "d \<le> 31" "h < 24" "mi < 60" "s < 60"
  shows "unix_time y m d h mi s < 2 ^ 32"
proof -
  have "int (days_to_year (y - 1970)) = 365 * (int y - 1970) + leaps (y - 1) - 477"
    using assms(1) by (simp add: days_to_year_closed leaps_def of_nat_diff)
  moreover have "leaps (y - 1) \<le> 526 - 19 + 5"
  proof -
    have "(y - 1) div 4 \<le> 2104 div 4" "1969 div 100 \<le> (y - 1) div 100" "(y - 1) div 400 \<le> 2104 div 400"
      using assms(1,2) by (intro div_le_mono, linarith)+
    then show ?thesis by (simp add: leaps_def)
  qed
  ultimately have "int (days_to_year (y - 1970)) \<le> 49310" using assms(2) by simp
  then have "days_to_year (y - 1970) \<le> 49310" by simp
  moreover have "days_to_month y m \<le> 335"
    using month_cases [OF assms(3,4)] days_to_month_values [of y] by (elim insertE) (simp_all add: Let_def)
  ultimately show ?thesis using assms(5-8) by (simp add: unix_time_def)
qed

lemma my_mktime_unix_time:
  assumes "1970 \<le> y" "y \<le> 2105" "1 \<le> m" "m \<le> 12" "1 \<le> d" "d \<le> 31" "h < 24" "mi < 60" "s < 60"
  shows "my_mktime (of_nat y) (of_nat m) (of_nat d) (of_nat h) (of_nat mi) (of_nat s) = of_nat (unix_time y m d h mi s)"
  using assms(1,2,3,4) unfolding unix_time_def
  by (subst my_mktime_day_number) (simp_all add: day_number_correct [OF assms(1,3,4,5)])

text \<open>
  C23. For every date from 1970 to 2105 the time \<^verbatim>\<open>my_mktime\<close> computes in 32-bit arithmetic
  is the number of seconds since 1 January 1970 that counting leap years and month
  lengths gives.
\<close>

theorem my_mktime_correct:
  assumes "1970 \<le> y" "y \<le> 2105" "1 \<le> m" "m \<le> 12" "1 \<le> d" "d \<le> 31" "h < 24" "mi < 60" "s < 60"
  shows "unat (my_mktime (of_nat y) (of_nat m) (of_nat d) (of_nat h) (of_nat mi) (of_nat s)) = unix_time y m d h mi s"
  using unix_time_bound [OF assms(1-4,6-9)]
  by (simp add: my_mktime_unix_time [OF assms] unat_of_nat take_bit_nat_eq_self)

theorem my_mktime_correct_witness: "unat (my_mktime 2024 2 29 12 30 15) = unix_time 2024 2 29 12 30 15"
  using my_mktime_correct [of 2024 2 29 12 30 15] by simp

section \<open>The date of the real-time clock\<close>







text \<open>In 12-hour mode bit 7 of the hour register marks the afternoon: 11 PM is \<^verbatim>\<open>0x91\<close>, which the code takes for hour 91.\<close>

lemma rtc_twelve_hour:
  "ctrl AND 0x04 = 0 \<Longrightarrow> tm_hour (rtc_decode [sec, minute, 0x91, day, month, year, wday, ctrl]) = 91"
  by (simp add: rtc_decode_def Let_def bcd2bin_def)

section \<open>The time of day\<close>

lemma norm_usec_val:
  "norm_usec usec sec = (of_nat (unat usec mod 1000000), sec + of_nat (unat usec div 1000000))"
proof (induction usec sec rule: norm_usec.induct)
  case (1 usec sec)
  show ?case
  proof (cases "usec \<ge> 1000000")
    case True
    have u: "unat usec \<ge> 1000000" using True by (simp add: word_le_nat_alt)
    then have s: "unat (usec - 1000000) = unat usec - 1000000" using True by (simp add: unat_sub)
    show ?thesis using 1 True u by (subst norm_usec.simps) (simp add: s le_div_geq le_mod_geq)
  next
    case False
    then have "unat usec < 1000000" by (simp add: word_le_nat_alt)
    then show ?thesis using False by (subst norm_usec.simps) simp
  qed
qed

text \<open>Milliseconds since \<^verbatim>\<open>timer_init\<close>, from a reading of the counter.\<close>

definition elapsed_ms :: "timer_vars \<Rightarrow> u64 \<Rightarrow> nat" where
  "elapsed_ms t cur = unat (cur - tm_base_clk t) div unat (extclock t)"

lemma do_gettimeofday_val:
  assumes "extclock (tv s) \<noteq> 0" "p_rdtsc P (dev s) = (cur, e)"
  shows "do_gettimeofday P s =
    (let us = elapsed_ms (tv s) cur * 1000 mod 2 ^ 32
     in Some ((get_timer_base_sec (tv s) + of_nat (us div 1000000), of_nat (us mod 1000000)), s\<lparr>dev := e\<rparr>))"
proof -
  let ?d = "cur - tm_base_clk (tv s)" and ?k = "ucast (extclock (tv s)) :: u64"
  have c: "?k \<noteq> 0"
    using assms(1) by (metis unat_u32_u64 unat_eq_zero)
  have "unat (?d div ?k * 1000) mod 2 ^ 32 = (unat (?d div ?k) * 1000) mod 2 ^ 64 mod 2 ^ 32"
    by (simp add: unat_word_ariths)
  also have "\<dots> = unat (?d div ?k) * 1000 mod 2 ^ 32"
    by (intro mod_mod_cancel) (simp add: le_imp_power_dvd)
  finally have u: "unat (ucast (?d div ?k * 1000) :: u32) = elapsed_ms (tv s) cur * 1000 mod 2 ^ 32"
    by (simp only: unat_u64_u32 elapsed_ms_def unat_div_distrib unat_u32_u64)
  show ?thesis
    using c assms(2)
    by (simp add: do_gettimeofday_def get_timer_offset_usec_def rdtsc_def lib64.udiv_nonzero get_timer_base_usec_def
        norm_usec_val Let_def u del: unat_u32_u64)
qed

text \<open>
  C29. Up to 4294 seconds after \<^verbatim>\<open>timer_init\<close> the time of day is the date of the real-time
  clock plus the milliseconds the time-stamp counter has advanced.
\<close>

theorem do_gettimeofday_exact:
  assumes "extclock (tv s) \<noteq> 0" "p_rdtsc P (dev s) = (cur, e)" "elapsed_ms (tv s) cur \<le> 4294967"
  shows "do_gettimeofday P s =
    Some ((get_timer_base_sec (tv s) + of_nat (elapsed_ms (tv s) cur div 1000),
           of_nat (elapsed_ms (tv s) cur mod 1000 * 1000)), s\<lparr>dev := e\<rparr>)"
proof -
  have "elapsed_ms (tv s) cur * 1000 mod 2 ^ 32 = elapsed_ms (tv s) cur * 1000"
    using assms(3) by (intro mod_less) simp
  moreover have "m * 1000 div 1000000 = m div 1000" "m * 1000 mod 1000000 = m mod 1000 * 1000" for m :: nat
    using div_mult_mult2 [of 1000 m 1000] mod_mult_mult2 [of m 1000 1000] by simp_all
  ultimately show ?thesis
    by (simp add: do_gettimeofday_val [OF assms(1,2)] Let_def)
qed

theorem do_gettimeofday_exact_witness:
  "do_gettimeofday (ideal (\<lambda>_. (1, 1))) (sample_tmach 123456712345) =
     Some ((get_timer_base_sec sample_timer + 1234, 567000),
       (sample_tmach 123456712345)\<lparr>dev := sample_dev\<lparr>i_tsc := 123556712345\<rparr>\<rparr>)"
  using do_gettimeofday_exact [of "sample_tmach 123456712345" "ideal (\<lambda>_. (1, 1))" 123456712345
      "sample_dev\<lparr>i_tsc := 123556712345\<rparr>"]
  by (simp add: sample_defs elapsed_ms_def)

text \<open>The microseconds a time of day lies after the time of \<^verbatim>\<open>timer_init\<close>.\<close>

definition tod_us :: "timer_vars \<Rightarrow> u32 \<times> u32 \<Rightarrow> nat" where
  "tod_us t now = unat (fst now - get_timer_base_sec t) * 1000000 + unat (snd now)"

lemma tod_us_val:
  assumes "extclock (tv s) \<noteq> 0" "p_rdtsc P (dev s) = (cur, e)"
  obtains now where "do_gettimeofday P s = Some (now, s\<lparr>dev := e\<rparr>)" "tod_us (tv s) now = elapsed_ms (tv s) cur * 1000 mod 2 ^ 32"
proof -
  define us where "us = elapsed_ms (tv s) cur * 1000 mod 2 ^ 32"
  have "us < 2 ^ 32" by (simp add: us_def)
  then have "us div 1000000 < 2 ^ 32" "us mod 1000000 < 2 ^ 32" by simp_all
  then have "tod_us (tv s) (get_timer_base_sec (tv s) + of_nat (us div 1000000), of_nat (us mod 1000000)) = us"
    by (simp add: tod_us_def unat_of_nat take_bit_nat_eq_self)
  then show thesis
    using do_gettimeofday_val [OF assms] by (intro that) (simp_all add: Let_def us_def)
qed

text \<open>
  C30. The microsecond count is cut to 32 bits before it is carried into the seconds, so the
  time of day falls back after 4294967 milliseconds (71.6 minutes): a reading taken up to that moment
  shows the milliseconds that have passed since \<^verbatim>\<open>timer_init\<close>, but a later reading, at most
  4294967 milliseconds after the first, shows \<open>2 ^ 32\<close> microseconds less than have passed, and so an
  earlier time than the first reading.
\<close>

theorem do_gettimeofday_wraps:
  assumes "extclock (tv s) \<noteq> 0" "tv s' = tv s" "p_rdtsc P (dev s) = (cur, e)" "p_rdtsc P (dev s') = (cur', e')"
    and "elapsed_ms (tv s) cur \<le> 4294967" "4294968 \<le> elapsed_ms (tv s) cur'" "elapsed_ms (tv s) cur' \<le> elapsed_ms (tv s) cur + 4294967"
  shows "\<exists>now now'. do_gettimeofday P s = Some (now, s\<lparr>dev := e\<rparr>) \<and> do_gettimeofday P s' = Some (now', s'\<lparr>dev := e'\<rparr>) \<and>
    tod_us (tv s) now = elapsed_ms (tv s) cur * 1000 \<and> tod_us (tv s) now' + 2 ^ 32 = elapsed_ms (tv s) cur' * 1000 \<and>
    tod_us (tv s) now' < tod_us (tv s) now"
proof -
  let ?m = "elapsed_ms (tv s) cur * 1000" and ?m' = "elapsed_ms (tv s) cur' * 1000"
  obtain now where a: "do_gettimeofday P s = Some (now, s\<lparr>dev := e\<rparr>)" "tod_us (tv s) now = ?m mod 2 ^ 32"
    by (rule tod_us_val [OF assms(1,3)])
  have clk: "extclock (tv s') \<noteq> 0" using assms(1,2) by simp
  obtain now' where b: "do_gettimeofday P s' = Some (now', s'\<lparr>dev := e'\<rparr>)" "tod_us (tv s) now' = ?m' mod 2 ^ 32"
    using tod_us_val [OF clk assms(4)] unfolding assms(2) by blast
  have "?m mod 2 ^ 32 = ?m" using assms(5) by (intro mod_less) simp
  moreover have "?m' mod 2 ^ 32 = ?m' - 2 ^ 32"
  proof -
    have "2 ^ 32 \<le> ?m'" "?m' - 2 ^ 32 < 2 ^ 32" using assms(5-7) by simp_all
    then show ?thesis using le_mod_geq [of "2 ^ 32" ?m'] by simp
  qed
  ultimately show ?thesis using a b assms(5-7) by simp
qed

theorem do_gettimeofday_wraps_witness:
  "\<exists>now now' t t'. do_gettimeofday (ideal (\<lambda>_. (1, 1))) (sample_tmach 429000000000) = Some (now, t) \<and>
     do_gettimeofday (ideal (\<lambda>_. (1, 1))) (sample_tmach 429600000000) = Some (now', t') \<and>
     tod_us sample_timer now = 4290000000 \<and> tod_us sample_timer now' = 1032704"
proof -
  let ?P = "ideal (\<lambda>_. (1, 1))" and ?s = "sample_tmach 429000000000" and ?s' = "sample_tmach 429600000000"
  have tv: "tv (sample_tmach n) = sample_timer" for n by (simp add: sample_tmach_def)
  have m: "elapsed_ms sample_timer 429000000000 = 4290000" "elapsed_ms sample_timer 429600000000 = 4296000"
    by (simp_all add: elapsed_ms_def sample_timer_def)
  have "\<exists>now now'. do_gettimeofday ?P ?s = Some (now, ?s\<lparr>dev := sample_dev\<lparr>i_tsc := 429100000000\<rparr>\<rparr>) \<and>
    do_gettimeofday ?P ?s' = Some (now', ?s'\<lparr>dev := sample_dev\<lparr>i_tsc := 429700000000\<rparr>\<rparr>) \<and>
    tod_us (tv ?s) now = elapsed_ms (tv ?s) 429000000000 * 1000 \<and> tod_us (tv ?s) now' + 2 ^ 32 = elapsed_ms (tv ?s) 429600000000 * 1000 \<and>
    tod_us (tv ?s) now' < tod_us (tv ?s) now"
    by (rule do_gettimeofday_wraps) (unfold tv m, simp_all add: sample_defs)
  then show ?thesis unfolding tv m by auto
qed

section \<open>Device steps of the clock\<close>

lemma via_dev_update: "reaches P ok (dev s) e \<Longrightarrow> via P ok s (s\<lparr>dev := e\<rparr>)"
  unfolding via_def by (intro exI [of _ "ra s"] exI [of _ e]) simp

lemma via_inb: "via P ok s (snd (inb P port s))"
  by (simp add: inb_def case_prod_beta via_dev_update reaches.inb here)

lemma via_outb: "via P ok s (outb P v port s)"
  by (simp add: outb_def via_dev_update reaches.outb here)

lemma via_rdtsc: "via P ok s (snd (rdtsc P s))"
  by (simp add: rdtsc_def case_prod_beta via_dev_update reaches.rdtsc here)

lemma via_rdmsr: "via P ok s (snd (rdmsr P n s))"
  by (simp add: rdmsr_def case_prod_beta via_dev_update reaches.rdmsr here)

lemma via_do_gettimeofday: "do_gettimeofday P s = Some (r, t) \<Longrightarrow> via P ok s t"
  using via_rdtsc [of P ok s]
  by (auto simp: do_gettimeofday_def get_timer_offset_usec_def split: prod.splits bind_splits)

lemma do_gettimeofday_returns:
  "extclock (tv s) \<noteq> 0 \<Longrightarrow> \<exists>r t. do_gettimeofday P s = Some (r, t)"
  using do_gettimeofday_val [of s P] by (cases "p_rdtsc P (dev s)") (simp add: Let_def)

section \<open>The wait for the clock update\<close>

text \<open>
  The wait for the end of a clock update returns as soon as one of the polls reads a
  clear update flag.
\<close>

theorem rtc_wait_returns:
  "fst (rtc_is_updating P (((\<lambda>t. snd (rtc_is_updating P t)) ^^ n) s)) = 0 \<Longrightarrow> \<exists>t. rtc_wait P s = Some t"
proof (induction n arbitrary: s)
  case 0
  then show ?case by (subst rtc_wait.simps) (simp add: case_prod_beta)
next
  case (Suc n)
  then have "\<exists>t. rtc_wait P (snd (rtc_is_updating P s)) = Some t"
    by (simp only: funpow_Suc_right o_apply)
  then show ?case by (subst rtc_wait.simps) (simp add: case_prod_beta)
qed


theorem rtc_wait_returns_witness: "\<exists>t. rtc_wait (ideal (\<lambda>_. (1, 1))) (sample_tmach 0) = Some t"
  by (rule rtc_wait_returns [of _ 2])
     (simp add: rtc_is_updating_def rtc_cmos_read_def inb_def outb_def sample_defs numeral_2_eq_2)

section \<open>The frame of the clock functions\<close>

text \<open>\<open>dvia\<close> is a run that touches the devices only, without a call of the BIOS.\<close>

definition dvia :: "'e platform \<Rightarrow> ('e, 'z) mach_scheme \<Rightarrow> ('e, 'z) mach_scheme \<Rightarrow> bool" where
  "dvia P s t \<longleftrightarrow> (\<exists>e. t = s\<lparr>dev := e\<rparr> \<and> reaches P (\<lambda>_. False) (dev s) e)"

lemma dvia_dev: "reaches P (\<lambda>_. False) (dev s) e \<Longrightarrow> dvia P s (s\<lparr>dev := e\<rparr>)"
  by (auto simp: dvia_def)

lemma dvia_refl [simp, intro]: "dvia P s s"
  using dvia_dev [OF here, of P s] by simp

lemma dvia_trans: "dvia P s t \<Longrightarrow> dvia P t u \<Longrightarrow> dvia P s u"
  by (fastforce simp: dvia_def intro: reaches_trans)

lemma dvia_inb [simp]: "dvia P s (snd (inb P port s))"
  by (simp add: inb_def case_prod_beta dvia_dev reaches.inb here)

lemma dvia_outb [simp]: "dvia P s (outb P v port s)"
  by (simp add: outb_def dvia_dev reaches.outb here)

lemma dvia_rdtsc [simp]: "dvia P s (snd (rdtsc P s))"
  by (simp add: rdtsc_def case_prod_beta dvia_dev reaches.rdtsc here)

lemma dvia_rdmsr [simp]: "dvia P s (snd (rdmsr P n s))"
  by (simp add: rdmsr_def case_prod_beta dvia_dev reaches.rdmsr here)

lemma dvia_rtc_cmos_read [simp]: "dvia P s (snd (rtc_cmos_read P a s))"
  unfolding rtc_cmos_read_def by (rule dvia_trans [OF dvia_outb dvia_inb])

lemma dvia_rtc_wait:
  assumes "rtc_wait P s = Some t"
  shows "dvia P s t"
proof -
  have u: "dvia P s (snd (rtc_is_updating P s))" for P :: "'a platform" and s :: "('a, 'b) mach_scheme"
    by (simp add: rtc_is_updating_def case_prod_beta)
  have "case_prod dvia (P, s) t"
    by (rule rtc_wait.raw_induct [where Pa = "case_prod dvia", OF _ assms])
       (auto simp: case_prod_beta split: if_splits intro: u dvia_trans [OF u])
  then show ?thesis by simp
qed

lemma dvia_cmos_reads: "dvia P s (snd (cmos_reads P as s))"
proof (induction "as" arbitrary: s)
  case (Cons a "as")
  then show ?case by (auto simp: case_prod_beta intro: dvia_trans [OF dvia_rtc_cmos_read])
qed simp

lemma dvia_rtc_get_rtc_time: "rtc_get_rtc_time P s = Some (tm, t) \<Longrightarrow> dvia P s t"
proof -
  assume "rtc_get_rtc_time P s = Some (tm, t)"
  then obtain u where "rtc_wait P s = Some u" "t = snd (cmos_reads P [0, 2, 4, 7, 8, 9, 6, 11] u)"
    unfolding rtc_get_rtc_time_def case_prod_beta by (auto simp del: cmos_reads.simps split: bind_splits)
  then show ?thesis using dvia_trans [OF dvia_rtc_wait dvia_cmos_reads] by metis
qed

lemma dvia_gate_loop:
  assumes "gate_loop P n s = Some r"
  shows "dvia P s (snd r)"
proof -
  have "(\<lambda>x r. dvia (fst (fst x)) (snd x) (snd r)) ((P, n), s) r"
    by (rule gate_loop.raw_induct [where Pa = "\<lambda>x r. dvia (fst (fst x)) (snd x) (snd r)", OF _ assms])
       (auto simp: case_prod_beta split: if_splits, blast intro: dvia_trans [OF dvia_inb])
  then show ?thesis by simp
qed

lemma dvia_correct_tsc: "dvia P s (snd (correct_tsc P n s))"
  using dvia_trans [OF dvia_trans [OF dvia_rdmsr dvia_rdmsr] dvia_rdmsr]
  by (auto simp: correct_tsc_def case_prod_beta)


lemma dvia_cpuspeed: "cpuspeed P s = Some (k, t) \<Longrightarrow> dvia P s t"
proof -
  assume c: "cpuspeed P s = Some (k, t)"
  define s1 where "s1 = outb P (of_nat (TICKS div 256)) 0x42 (outb P (of_nat TICKS) 0x42 (outb P 0xb0 0x43
      (outb P ((fst (inb P 0x61 s) AND NOT 0x02) OR 0x01) 0x61 (snd (inb P 0x61 s)))))"
  have v1: "dvia P s s1"
    unfolding s1_def by (rule dvia_trans [OF dvia_trans [OF dvia_trans [OF dvia_trans [OF dvia_inb dvia_outb] dvia_outb] dvia_outb] dvia_outb])
  obtain n s2 where g: "gate_loop P 0 (snd (rdtsc P s1)) = Some (n, s2)"
    using c [unfolded cpuspeed_def case_prod_beta Let_def, folded s1_def] by (auto split: bind_splits)
  have v2: "dvia P s (snd (rdtsc P s2))"
    by (rule dvia_trans [OF dvia_trans [OF v1 dvia_trans [OF dvia_rdtsc dvia_gate_loop [OF g, simplified]]] dvia_rdtsc])
  have "t = snd (rdtsc P s2) \<or> (\<exists>el. t = snd (correct_tsc P el (snd (rdtsc P s2))))"
    using c [unfolded cpuspeed_def case_prod_beta Let_def, folded s1_def] g by (auto split: if_splits)
  then show ?thesis using v2 dvia_trans [OF v2 dvia_correct_tsc] by auto
qed

lemma dvia_do_gettimeofday: "do_gettimeofday P s = Some (r, t) \<Longrightarrow> dvia P s t"
  by (auto simp: do_gettimeofday_def get_timer_offset_usec_def case_prod_beta split: bind_splits)

end
