(* ===== verification/Display.thy ===== *)
theory Display
  imports Timer
begin

text \<open>
  The text screen and the keyboard of display.c. The memory the code writes is a function
  from physical addresses to bytes, so a cell of the screen is the byte pair at
  \<^verbatim>\<open>SCREEN_ADR + 160 * y + 2 * x\<close>; the static array \<^verbatim>\<open>buf\<close> is rebuilt by every function that
  uses it and is passed as a value. The number printers may loop for arguments no caller
  uses, so they give an option.
\<close>

section \<open>State\<close>

record 'e dmach = "'e tmach" +
  mem :: "int \<Rightarrow> u8"

definition SCREEN_ADR :: int where "SCREEN_ADR = 0xb8000"

definition SCREEN_WIDTH :: nat where "SCREEN_WIDTH = 80"

definition SCREEN_HEIGHT :: nat where "SCREEN_HEIGHT = 25"

definition SCREEN_END_ADR :: int where
  "SCREEN_END_ADR = SCREEN_ADR + int SCREEN_WIDTH * int SCREEN_HEIGHT * 2"

section \<open>Text output\<close>

fun put_chars :: "int \<Rightarrow> string \<Rightarrow> (int \<Rightarrow> u8) \<Rightarrow> int \<Rightarrow> u8" where
  "put_chars dptr [] m = m"
| "put_chars dptr (c # text) m = put_chars (dptr + 2) text (m(dptr := ord8 c))"

definition cprint :: "int \<Rightarrow> int \<Rightarrow> string \<Rightarrow> ('e, 'z) dmach_scheme \<Rightarrow> ('e, 'z) dmach_scheme" where
  "cprint y x text s = s\<lparr>mem := put_chars (SCREEN_ADR + 160 * y + 2 * x) text (mem s)\<rparr>"

text \<open>The digit character \<^verbatim>\<open>k + '0'\<close>.\<close>

definition digit :: "u32 \<Rightarrow> char" where
  "digit k = char_of (unat k + 48)"

fun pow_loop :: "nat \<Rightarrow> u32 \<Rightarrow> u32" where
  "pow_loop 0 j = j"
| "pow_loop (Suc n) j = pow_loop n (j * 10)"

partial_function (option) dprint_left :: "u32 \<Rightarrow> u32 \<Rightarrow> bool \<Rightarrow> string \<Rightarrow> string option" where
  "dprint_left j val flag acc =
     (if j = 0 then Some acc
      else let k = val div j
           in if k > 9 then dprint_left (j * 100 div 10) val flag acc
              else if flag \<or> k \<noteq> 0 \<or> j = 1 then dprint_left (j div 10) (val - k * j) True (acc @ [digit k])
              else dprint_left (j div 10) (val - k * j) flag (acc @ '' ''))"

partial_function (option) dprint_right :: "u32 \<Rightarrow> u32 \<Rightarrow> int \<Rightarrow> bool \<Rightarrow> string \<Rightarrow> string option" where
  "dprint_right j val len flag acc =
     (if int (length acc) \<ge> len then Some acc
      else if j \<noteq> 0
      then let k = val div j
           in if k > 9 then dprint_right (j * 100 div 10) val (len + 1) flag acc
              else if k = 0 \<and> \<not> flag then dprint_right (j div 10) val len flag acc
              else dprint_right (j div 10) (val - k * j) len True (acc @ [digit k])
      else if \<not> flag \<and> int (length acc) < len - 1 then dprint_right (j div 10) val len True (acc @ ''0'')
      else dprint_right (j div 10) val len True (acc @ '' ''))"

definition dprint ::
  "int \<Rightarrow> int \<Rightarrow> u32 \<Rightarrow> int \<Rightarrow> int \<Rightarrow> ('e, 'z) dmach_scheme \<Rightarrow> ('e, 'z) dmach_scheme option" where
  "dprint y x val len right s =
     (if val > 999999999 \<or> len > 9 then Some s
      else let j = pow_loop (nat (len - 1)) 1
           in do {
             buf \<leftarrow> (if right = 0 then dprint_left j val False [] else dprint_right j val len False []);
             Some (cprint y x buf s)
           })"

section \<open>Hexadecimal output\<close>

text \<open>The loop over the eight digits, with \<^verbatim>\<open>flag\<close> the number of significant ones.\<close>

fun hex_loop :: "u32 \<Rightarrow> nat list \<Rightarrow> nat \<Rightarrow> string \<Rightarrow> nat \<times> string" where
  "hex_loop val [] flag acc = (flag, acc)"
| "hex_loop val (i # is) flag acc =
     (let j = drop_bit (28 - 4 * i) val AND 0xf
      in if j < 10
         then (if 0 < flag \<or> j \<noteq> 0 \<or> i = 7 then hex_loop val is (flag + 1) (acc @ [char_of (unat j + 48)])
               else hex_loop val is flag (acc @ ''0''))
         else hex_loop val is (flag + 1) (acc @ [char_of (unat j + 97 - 10)]))"

text \<open>
  The string printed is \<^verbatim>\<open>buf + (idx - digits)\<close>; \<^verbatim>\<open>idx\<close> is 8 and the last digit always counts
  as significant, so at least one and at most eight digits are printed.
\<close>

definition hprint2 :: "int \<Rightarrow> int \<Rightarrow> u32 \<Rightarrow> int \<Rightarrow> ('e, 'z) dmach_scheme \<Rightarrow> ('e, 'z) dmach_scheme" where
  "hprint2 y x val digits s =
     (case hex_loop val [0..<8] 0 [] of (flag, buf) \<Rightarrow>
        let digits = (if digits > 8 then 8 else digits);
            digits = (if int flag > digits then int flag else digits)
        in cprint y x (drop (nat (int (length buf) - digits)) buf) s)"

definition hprint :: "int \<Rightarrow> int \<Rightarrow> u32 \<Rightarrow> ('e, 'z) dmach_scheme \<Rightarrow> ('e, 'z) dmach_scheme" where
  "hprint y x val s = hprint2 y x val 8 s"

definition aprint :: "int \<Rightarrow> int \<Rightarrow> u32 \<Rightarrow> ('e, 'z) dmach_scheme \<Rightarrow> ('e, 'z) dmach_scheme option" where
  "aprint y x page s =
     (if push_bit 2 page < 9999
      then do { s \<leftarrow> dprint y x (push_bit 2 page) 4 0 s; Some (cprint y (x + 4) ''K'' s) }
      else if drop_bit 8 page < 9999
      then do { s \<leftarrow> dprint y x (drop_bit 8 (page + 128)) 4 0 s; Some (cprint y (x + 4) ''M'' s) }
      else if drop_bit 18 page < 9999
      then do { s \<leftarrow> dprint y x (drop_bit 18 (page + 131072)) 4 0 s; Some (cprint y (x + 4) ''G'' s) }
      else do { s \<leftarrow> dprint y x (drop_bit 28 (page + 134217728)) 4 0 s; Some (cprint y (x + 4) ''T'' s) })"

section \<open>Screen set-up\<close>

fun fill_cells :: "nat \<Rightarrow> int \<Rightarrow> (int \<Rightarrow> u8) \<Rightarrow> int \<Rightarrow> u8" where
  "fill_cells 0 pp m = m"
| "fill_cells (Suc n) pp m = fill_cells n (pp + 2) (m(pp := 0x20, pp + 1 := 0x17))"

fun fill_attr :: "nat \<Rightarrow> int \<Rightarrow> int \<Rightarrow> u8 \<Rightarrow> (int \<Rightarrow> u8) \<Rightarrow> int \<Rightarrow> u8" where
  "fill_attr 0 step pp a m = m"
| "fill_attr (Suc n) step pp a m = fill_attr n step (pp + step) a (m(pp := a))"

definition display_init :: "('e, 'z) dmach_scheme \<Rightarrow> ('e, 'z) dmach_scheme" where
  "display_init s =
     s\<lparr>mem := fill_attr 80 2 (SCREEN_ADR + 1 + 24 * 160) 0x71 (fill_cells (80 * 24) SCREEN_ADR (mem s))\<rparr>"

section \<open>Keyboard\<close>

text \<open>The pairs of character and key code, in the order of the table.\<close>

definition ser_map :: "(int \<times> int) list" where
  "ser_map =
     [(27, 1), (127, 14), (8, 14), (10, 28), (13, 28), (9, 15), (19, 57), (17, 28), (32, 57),
      (97, 30), (65, 30), (1, 30), (98, 48), (66, 48), (2, 48), (99, 46), (67, 46), (3, 46),
      (100, 32), (68, 32), (4, 32), (101, 18), (69, 18), (5, 18), (102, 33), (70, 33),
      (6, 33), (103, 34), (71, 34), (7, 34), (104, 35), (72, 35), (8, 35), (105, 23),
      (73, 23), (9, 23), (106, 36), (74, 36), (10, 36), (107, 37), (75, 37), (11, 37),
      (108, 38), (76, 38), (12, 38), (109, 50), (77, 50), (13, 50), (110, 49), (78, 49),
      (14, 49), (111, 24), (79, 24), (15, 24), (112, 25), (80, 25), (16, 25), (113, 16),
      (81, 16), (17, 16), (114, 19), (82, 19), (18, 19), (115, 31), (83, 31), (19, 31),
      (116, 20), (84, 20), (20, 20), (117, 22), (85, 22), (21, 22), (118, 47), (86, 47),
      (22, 47), (119, 17), (87, 17), (23, 17), (120, 45), (88, 45), (24, 45), (121, 21),
      (89, 21), (25, 21), (122, 44), (90, 44), (26, 44), (45, 12), (95, 12), (31, 12),
      (61, 12), (43, 12), (91, 26), (123, 26), (27, 26), (93, 27), (125, 27), (29, 27),
      (59, 39), (58, 39), (39, 40), (34, 40), (96, 41), (126, 41), (92, 43), (124, 43),
      (28, 43), (44, 51), (60, 51), (46, 52), (62, 52), (47, 53), (63, 53), (49, 2), (33, 2),
      (50, 3), (64, 3), (51, 4), (35, 4), (52, 5), (36, 5), (53, 6), (37, 6), (54, 7),
      (94, 7), (30, 7), (55, 8), (38, 8), (56, 9), (42, 9), (57, 10), (40, 10), (48, 11),
      (41, 11), (0, 0)]"

fun find_key :: "(int \<times> int) list \<Rightarrow> int \<Rightarrow> int" where
  "find_key [] c = 0"
| "find_key (p # ps) c = (if fst p = 0 then 0 else if c = fst p then snd p else find_key ps c)"

definition ascii_to_keycode :: "int \<Rightarrow> int" where
  "ascii_to_keycode c = find_key ser_map c"

definition get_key :: "'e platform \<Rightarrow> ('e, 'z) mach_scheme \<Rightarrow> int \<times> ('e, 'z) mach_scheme" where
  "get_key P s =
     (case inb P 0x64 s of (c, s) \<Rightarrow>
        if c AND 1 = 0 then (0, s) else case inb P 0x60 s of (c, s) \<Rightarrow> (uint c, s))"

text \<open>Only the escape key has an effect: the warm-start flag and the reset of the keyboard controller.\<close>

definition check_input :: "'e platform \<Rightarrow> ('e, 'z) dmach_scheme \<Rightarrow> ('e, 'z) dmach_scheme" where
  "check_input P s =
     (case get_key P s of (c, s) \<Rightarrow>
        if c \<noteq> 0 \<and> c AND 0x7f = 1
        then outb P 0xfe 0x64 (s\<lparr>mem := (mem s)(0x472 := 0x34, 0x473 := 0x12)\<rparr>)
        else s)"

end
