(* ===== verification/Newlib.thy ===== *)
theory Newlib
  imports Prelude
begin

text \<open>
  The newlib routines the program links against and whose behaviour its results
  depend on: \<^verbatim>\<open>strcmp\<close>, \<^verbatim>\<open>strcasecmp\<close> (the header's \<^verbatim>\<open>stricmp\<close>), \<^verbatim>\<open>strtok_r\<close>,
  \<^verbatim>\<open>strtol\<close>/\<^verbatim>\<open>atoi\<close> in base 10 and \<^verbatim>\<open>srand\<close>/\<^verbatim>\<open>rand\<close>. Strings are NUL-free character
  lists, so running off the end of a list is reading the terminator. \<open>str_compare\<close> is the
  interface of the two comparison routines.
\<close>

section \<open>String comparison (string/strcmp.c, string/strcasecmp.c)\<close>

definition code :: "char \<Rightarrow> int" where
  "code c = int (of_char c)"

lemma code_inject [simp]: "code a = code b \<longleftrightarrow> a = b"
  by (simp add: code_def)

lemma code_nonneg [simp]: "0 \<le> code c"
  by (simp add: code_def)

text \<open>
  The byte loop of \<^verbatim>\<open>strcmp\<close>: advance while the characters agree, then subtract them
  as unsigned characters.
\<close>

fun strcmp :: "string \<Rightarrow> string \<Rightarrow> int" where
  "strcmp [] [] = 0"
| "strcmp [] (b # bs) = - code b"
| "strcmp (a # as) [] = code a"
| "strcmp (a # as) (b # bs) = (if a = b then strcmp as bs else code a - code b)"

definition tolower :: "char \<Rightarrow> int" where
  "tolower c = (if 65 \<le> code c \<and> code c \<le> 90 then code c + 32 else code c)"

fun strcasecmp :: "string \<Rightarrow> string \<Rightarrow> int" where
  "strcasecmp [] [] = 0"
| "strcasecmp [] (b # bs) = - tolower b"
| "strcasecmp (a # as) [] = tolower a"
| "strcasecmp (a # as) (b # bs) =
     (if tolower a - tolower b \<noteq> 0 then tolower a - tolower b else strcasecmp as bs)"

definition nul_free :: "string \<Rightarrow> bool" where
  "nul_free s \<longleftrightarrow> (\<forall>c \<in> set s. code c \<noteq> 0)"

lemma tolower_eq_0 [simp]: "tolower c = 0 \<longleftrightarrow> code c = 0"
  by (simp add: tolower_def)

lemma nul_free_Cons [simp]: "nul_free (c # s) \<longleftrightarrow> code c \<noteq> 0 \<and> nul_free s"
  and nul_free_Nil [simp]: "nul_free []"
  by (auto simp: nul_free_def)

text \<open>What a caller may conclude from a comparison that returns 0.\<close>

locale str_compare =
  fixes cmp :: "string \<Rightarrow> string \<Rightarrow> int"
    and norm :: "char \<Rightarrow> int"
  assumes cmp_zero: "nul_free a \<Longrightarrow> nul_free b \<Longrightarrow> cmp a b = 0 \<longleftrightarrow> map norm a = map norm b"
begin

lemma matches_refl: "nul_free a \<Longrightarrow> cmp a a = 0"
  by (simp add: cmp_zero)

lemma matches_length: "nul_free a \<Longrightarrow> nul_free b \<Longrightarrow> cmp a b = 0 \<Longrightarrow> length a = length b"
  by (metis cmp_zero length_map)

lemma matches_trans:
  "nul_free a \<Longrightarrow> nul_free b \<Longrightarrow> nul_free c \<Longrightarrow> cmp a b = 0 \<Longrightarrow> cmp b c = 0 \<Longrightarrow> cmp a c = 0"
  by (simp add: cmp_zero)

text \<open>A string matches at most one of two keywords that do not match each other.\<close>

lemma matches_unique:
  "nul_free a \<Longrightarrow> nul_free b \<Longrightarrow> nul_free c \<Longrightarrow> cmp b c \<noteq> 0 \<Longrightarrow> cmp a b = 0 \<Longrightarrow> cmp a c \<noteq> 0"
  by (simp add: cmp_zero)

end

interpretation cmp: str_compare strcmp code
proof unfold_locales
  fix a b
  show "nul_free a \<Longrightarrow> nul_free b \<Longrightarrow> strcmp a b = 0 \<longleftrightarrow> map code a = map code b"
    by (induction a b rule: strcmp.induct) auto
qed

interpretation casecmp: str_compare strcasecmp tolower
proof unfold_locales
  fix a b
  show "nul_free a \<Longrightarrow> nul_free b \<Longrightarrow> strcasecmp a b = 0 \<longleftrightarrow> map tolower a = map tolower b"
    by (induction a b rule: strcasecmp.induct) auto
qed

lemma strcmp_eq_0 [simp]: "nul_free a \<Longrightarrow> nul_free b \<Longrightarrow> strcmp a b = 0 \<longleftrightarrow> a = b"
proof -
  have "inj code" by (rule injI) simp
  then show "nul_free a \<Longrightarrow> nul_free b \<Longrightarrow> strcmp a b = 0 \<longleftrightarrow> a = b"
    by (simp add: cmp.cmp_zero inj_map_eq_map)
qed

section \<open>Tokens (string/strtok\_r.c)\<close>

text \<open>
  \<^verbatim>\<open>s\<close> is \<open>None\<close> for NULL; the result is the token and the new \<^verbatim>\<open>*lasts\<close>. The label
  \<^verbatim>\<open>cont\<close> skips leading delimiters, the second loop scans to the next delimiter,
  overwrites it with NUL and remembers what follows it.
\<close>

fun span_skip :: "string \<Rightarrow> string \<Rightarrow> string" where
  "span_skip delim [] = []"
| "span_skip delim (c # s) = (if c \<in> set delim then span_skip delim s else c # s)"

fun scan_token :: "string \<Rightarrow> string \<Rightarrow> string \<times> string option" where
  "scan_token delim [] = ([], None)"
| "scan_token delim (c # s) =
     (if c \<in> set delim then ([], Some s)
      else case scan_token delim s of (tok, rest) \<Rightarrow> (c # tok, rest))"

definition strtok_r :: "string option \<Rightarrow> string \<Rightarrow> string option \<Rightarrow> string option \<times> string option" where
  "strtok_r s delim lasts =
     (case (case s of Some t \<Rightarrow> Some t | None \<Rightarrow> lasts) of
        None \<Rightarrow> (None, lasts)
      | Some t \<Rightarrow>
          (case span_skip delim t of
             [] \<Rightarrow> (None, None)
           | c # u \<Rightarrow> (case scan_token delim (c # u) of (tok, rest) \<Rightarrow> (Some tok, rest))))"

text \<open>The amount of text a call can still consume; every token makes it smaller.\<close>

definition pending :: "string option \<Rightarrow> string option \<Rightarrow> nat" where
  "pending s lasts = (case s of Some t \<Rightarrow> Suc (length t) | None \<Rightarrow>
     (case lasts of None \<Rightarrow> 0 | Some t \<Rightarrow> Suc (length t)))"

lemma length_span_skip: "length (span_skip delim s) \<le> length s"
  by (induction s) auto

lemma scan_token_rest: "scan_token delim s = (tok, Some u) \<Longrightarrow> length u < length s"
  by (induction s arbitrary: tok) (auto split: if_splits prod.splits)

lemma strtok_r_pending:
  assumes "strtok_r s delim lasts = (Some tok, lasts')"
  shows "pending None lasts' < pending s lasts"
proof -
  from assms obtain t c u where t: "(case s of Some t \<Rightarrow> Some t | None \<Rightarrow> lasts) = Some t"
    and cu: "span_skip delim t = c # u" and sc: "scan_token delim (c # u) = (tok, lasts')"
    by (auto simp: strtok_r_def split: option.splits list.splits prod.splits)
  have "length (c # u) \<le> length t" by (metis cu length_span_skip)
  moreover have "pending s lasts = Suc (length t)"
    using t by (auto simp: pending_def split: option.splits)
  ultimately show ?thesis
    using scan_token_rest [of delim "c # u" tok] sc
    by (cases lasts') (auto simp: pending_def)
qed

lemma span_skip_dropWhile: "span_skip delim s = dropWhile (\<lambda>c. c \<in> set delim) s"
  by (induction s) auto

lemma scan_token_eq:
  "scan_token delim s =
     (takeWhile (\<lambda>c. c \<notin> set delim) s,
      case dropWhile (\<lambda>c. c \<notin> set delim) s of [] \<Rightarrow> None | _ # u \<Rightarrow> Some u)"
  by (induction s) auto

text \<open>A token is never empty and never contains a delimiter.\<close>

lemma strtok_r_token:
  assumes "strtok_r s delim lasts = (Some tok, lasts')"
  shows "tok \<noteq> [] \<and> set tok \<inter> set delim = {}"
proof -
  from assms obtain t c u where cu: "span_skip delim t = c # u"
    and tok: "tok = takeWhile (\<lambda>c. c \<notin> set delim) (c # u)"
    by (auto simp: strtok_r_def scan_token_eq simp del: takeWhile.simps split: option.splits list.splits)
  have "c \<notin> set delim"
    using cu hd_dropWhile [of "\<lambda>c. c \<in> set delim" t] by (simp add: span_skip_dropWhile)
  then have "tok \<noteq> []" using tok by simp
  moreover have "set tok \<inter> set delim = {}"
    unfolding tok by (blast dest: set_takeWhileD)
  ultimately show ?thesis ..
qed

text \<open>Reading a word back as \<^verbatim>\<open>int\<close> or \<^verbatim>\<open>long\<close>.\<close>

lemma sint_word_of_int_u32: "- (2 ^ 31) \<le> x \<Longrightarrow> x < 2 ^ 31 \<Longrightarrow> sint (word_of_int x :: u32) = x"
  by (simp add: int_word_sint)

section \<open>Numbers (stdlib/strtol.c, stdlib/atoi.c)\<close>

definition isspace :: "char \<Rightarrow> bool" where
  "isspace c \<longleftrightarrow> code c = 32 \<or> (9 \<le> code c \<and> code c \<le> 13)"

definition isdigit :: "char \<Rightarrow> bool" where
  "isdigit c \<longleftrightarrow> 48 \<le> code c \<and> code c \<le> 57"

definition digit_val :: "char \<Rightarrow> nat" where
  "digit_val c = nat (code c - 48)"

text \<open>
  The accumulation loop of \<^verbatim>\<open>_strtol_r\<close> for base 10. A letter counts 10 or more and
  ends the number, as every other non-digit does. \<open>any\<close> is the flag of the code:
  0 nothing read, 1 digits read, -1 overflow.
\<close>

fun strtol_loop :: "u32 \<Rightarrow> nat \<Rightarrow> u32 \<Rightarrow> int \<Rightarrow> string \<Rightarrow> u32 \<times> int" where
  "strtol_loop cutoff cutlim acc any [] = (acc, any)"
| "strtol_loop cutoff cutlim acc any (c # s) =
     (if isdigit c
      then (if any < 0 \<or> cutoff < acc \<or> (acc = cutoff \<and> cutlim < digit_val c)
            then strtol_loop cutoff cutlim acc (-1) s
            else strtol_loop cutoff cutlim (acc * 10 + of_nat (digit_val c)) 1 s)
      else (acc, any))"

text \<open>Leading white space and an optional sign.\<close>

definition signed_text :: "string \<Rightarrow> bool \<times> string" where
  "signed_text s = (case dropWhile isspace s of [] \<Rightarrow> (False, [])
     | c # t \<Rightarrow> if c = CHR ''-'' then (True, t) else if c = CHR ''+'' then (False, t) else (False, c # t))"

definition strtol10 :: "string \<Rightarrow> int" where
  "strtol10 nptr =
     (case signed_text nptr of (neg, s) \<Rightarrow>
        let cutoff = (if neg then 2147483648 else 2147483647 :: u32);
            res = strtol_loop (cutoff div 10) (unat (cutoff mod 10)) 0 0 s
        in sint (if snd res < 0 then (if neg then 0x80000000 else 0x7fffffff :: u32)
                 else if neg then - fst res else fst res))"

definition atoi :: "string \<Rightarrow> int" where
  "atoi s = strtol10 s"

text \<open>The number the digits at the head of a string denote.\<close>

fun dec_val :: "nat \<Rightarrow> string \<Rightarrow> nat" where
  "dec_val v [] = v"
| "dec_val v (c # s) = (if isdigit c then dec_val (v * 10 + digit_val c) s else v)"

lemma dec_val_mono: "v \<le> dec_val v s"
proof (induction s arbitrary: v)
  case (Cons c s)
  show ?case using Cons.IH [of "v * 10 + digit_val c"] by simp
qed simp

lemma digit_val_less: "isdigit c \<Longrightarrow> digit_val c < 10"
  by (auto simp: isdigit_def digit_val_def)

lemma strtol_loop_overflow: "fst (strtol_loop q r acc (-1) s) = acc \<and> snd (strtol_loop q r acc (-1) s) = -1"
  by (induction s) auto

text \<open>
  With the limit \<open>L = 10 q + r\<close> the loop computes the value exactly as long as it
  stays within the limit and reports overflow otherwise.
\<close>

lemma strtol_loop_val:
  assumes "q < 2 ^ 32" "r < 10" "q * 10 + r < 2 ^ 32" "0 \<le> any" "unat acc \<le> q * 10 + r"
  shows "(dec_val (unat acc) s \<le> q * 10 + r \<longrightarrow>
            unat (fst (strtol_loop (of_nat q) r acc any s)) = dec_val (unat acc) s \<and>
            0 \<le> snd (strtol_loop (of_nat q) r acc any s)) \<and>
         (q * 10 + r < dec_val (unat acc) s \<longrightarrow> snd (strtol_loop (of_nat q) r acc any s) = -1)"
  using assms(4,5)
proof (induction s arbitrary: acc any)
  case Nil
  then show ?case by simp
next
  case (Cons c s)
  show ?case
  proof (cases "isdigit c")
    case False
    then show ?thesis using Cons.prems by simp
  next
    case True
    define v where "v = unat acc * 10 + digit_val c"
    have q: "unat (of_nat q :: u32) = q" using assms(1) by (simp add: unat_of_nat)
    have guard: "(any < 0 \<or> of_nat q < acc \<or> (acc = of_nat q \<and> r < digit_val c)) \<longleftrightarrow> q * 10 + r < v"
      using Cons.prems(1) digit_val_less [OF True] assms(2) q
      by (auto simp: v_def word_less_nat_alt word_unat_eq_iff)
    show ?thesis
    proof (cases "q * 10 + r < v")
      case over: True
      then have "q * 10 + r < dec_val v s" using dec_val_mono [of v s] by linarith
      then show ?thesis
        using True over guard strtol_loop_overflow [of "of_nat q" r acc s] by (simp add: v_def)
    next
      case False
      then have "v < 2 ^ 32" using assms(3) by linarith
      then have "unat (acc * 10 + of_nat (digit_val c) :: u32) = v"
        by (simp add: v_def unat_word_ariths unat_of_nat mod_simps)
      then show ?thesis
        using Cons.IH [of 1 "acc * 10 + of_nat (digit_val c)"] True False guard
        by (auto simp: v_def)
    qed
  qed
qed

text \<open>\<open>atoi\<close> is the denoted number saturated to the range of \<^verbatim>\<open>long\<close>.\<close>

lemma atoi_saturates:
  "atoi s = (case signed_text s of
     (True, t) \<Rightarrow> - int (min (dec_val 0 t) 2147483648)
   | (False, t) \<Rightarrow> int (min (dec_val 0 t) 2147483647))"
proof -
  obtain neg t where nt: "signed_text s = (neg, t)" by (cases "signed_text s")
  define q r where "q = (214748364 :: nat)" and "r = (if neg then 8 else 7 :: nat)"
  define res where "res = strtol_loop (of_nat q) r 0 0 t"
  have val: "(dec_val 0 t \<le> q * 10 + r \<longrightarrow> unat (fst res) = dec_val 0 t \<and> 0 \<le> snd res) \<and>
      (q * 10 + r < dec_val 0 t \<longrightarrow> snd res = -1)"
    using strtol_loop_val [of q r 0 0 t] by (auto simp: res_def q_def r_def)
  have fst_res: "fst res = word_of_int (int (unat (fst res)))" by simp
  have eq: "atoi s = sint (if snd res < 0 then (if neg then 0x80000000 else 0x7fffffff :: u32)
               else if neg then - fst res else fst res)"
    using nt by (cases neg) (simp_all add: atoi_def strtol10_def res_def q_def r_def Let_def)
  show ?thesis
  proof (cases "dec_val 0 t \<le> q * 10 + r")
    case True
    then have u: "unat (fst res) = dec_val 0 t" "\<not> snd res < 0" using val by auto
    have "sint (fst res) = int (dec_val 0 t)" if "\<not> neg"
      using True that u(1) sint_word_of_int_u32 [of "int (dec_val 0 t)"]
      by (subst fst_res) (simp add: q_def r_def)
    moreover have "sint (- fst res) = - int (dec_val 0 t)" if "neg"
    proof -
      have "- fst res = word_of_int (- int (dec_val 0 t))"
        by (subst fst_res) (simp add: u(1))
      then show ?thesis
        using True that by (simp add: sint_word_of_int_u32 q_def r_def del: of_int_minus)
    qed
    ultimately show ?thesis
      using True u(2) nt eq by (auto simp: q_def r_def)
  next
    case False
    then show ?thesis
      using val nt eq by (auto simp: q_def r_def)
  qed
qed

section \<open>Pseudo-random numbers (stdlib/rand.c)\<close>

text \<open>The reentrant state \<^verbatim>\<open>_rand_next\<close> is a 64-bit word; \<^verbatim>\<open>RAND_MAX\<close> is \<^verbatim>\<open>0x7fffffff\<close>.\<close>

definition srand :: "u32 \<Rightarrow> u64" where
  "srand seed = ucast seed"

definition rand_step :: "u64 \<Rightarrow> u64" where
  "rand_step nxt = nxt * 6364136223846793005 + 1"

definition rand :: "u64 \<Rightarrow> int \<times> u64" where
  "rand nxt = (uint (drop_bit 32 (rand_step nxt) AND 0x7fffffff), rand_step nxt)"

section \<open>Formatted output (the conversions of printf that the program uses)\<close>

text \<open>\<open>dec\<close> and \<open>hex\<close> are the digits of \<^verbatim>\<open>%u\<close> and \<^verbatim>\<open>%x\<close>, \<open>fmt_d\<close> is \<^verbatim>\<open>%d\<close>, and \<open>pad_left\<close> fills a field from the left.\<close>

fun dec :: "nat \<Rightarrow> string" where
  "dec n = (if n < 10 then [char_of (48 + n)] else dec (n div 10) @ [char_of (48 + n mod 10)])"

fun hex :: "nat \<Rightarrow> string" where
  "hex n = (let d = n mod 16; c = char_of (if d < 10 then 48 + d else 87 + d) :: char
            in if n < 16 then [c] else hex (n div 16) @ [c])"

declare dec.simps [simp del] hex.simps [simp del]

definition fmt_d :: "int \<Rightarrow> string" where
  "fmt_d i = (if i < 0 then ''-'' @ dec (nat (- i)) else dec (nat i))"

definition pad_left :: "char \<Rightarrow> nat \<Rightarrow> string \<Rightarrow> string" where
  "pad_left c w t = replicate (w - length t) c @ t"

text \<open>\<^verbatim>\<open>%02d\<close>: the sign comes before the zeros.\<close>

definition fmt_02d :: "int \<Rightarrow> string" where
  "fmt_02d i = (if i < 0 then ''-'' @ pad_left CHR ''0'' 1 (dec (nat (- i))) else pad_left CHR ''0'' 2 (dec (nat i)))"

text \<open>\<^verbatim>\<open>snprintf\<close> stores at most \<open>n - 1\<close> characters of the formatted text.\<close>

definition snprintf :: "nat \<Rightarrow> string \<Rightarrow> string" where
  "snprintf n t = take (n - 1) t"

lemma length_dec: "n < 10 ^ k \<Longrightarrow> 0 < k \<Longrightarrow> length (dec n) \<le> k"
proof (induction n arbitrary: k rule: dec.induct)
  case (1 n)
  show ?case
  proof (cases "n < 10")
    case False
    then have "k \<noteq> 1" using 1(2) by auto
    then obtain k' where k: "k = Suc k'" "0 < k'"
      using 1(3) by (cases k) auto
    then have "n div 10 < 10 ^ k'" using 1(2) by (simp add: less_mult_imp_div_less)
    then show ?thesis using 1(1) [OF False _ k(2)] False k(1) by (subst dec.simps) simp
  qed (use 1(3) in \<open>subst dec.simps; simp\<close>)
qed

end
