(* ===== verification/Options.thy ===== *)
theory Options
  imports Prelude
begin

text \<open>
  The run options of option.c and option.h. The global \<^verbatim>\<open>opt\<close> is one value of the
  record \<open>options\<close>; \<open>opt_ok\<close> is the range every option has after
  \<^verbatim>\<open>set_default_opt\<close> and after the command line has been parsed.
\<close>

definition WIPE_MODE_FAST :: int where "WIPE_MODE_FAST = 0"

definition WIPE_MODE_DOD :: int where "WIPE_MODE_DOD = 1"

definition WIPE_MODE_OCD :: int where "WIPE_MODE_OCD = 2"

lemmas wipe_mode_defs [model_defs] = WIPE_MODE_FAST_def WIPE_MODE_DOD_def WIPE_MODE_OCD_def

record options_t =
  opt_skip :: string
  opt_test :: int
  opt_debug :: int
  opt_check :: int
  opt_force_chs :: int
  opt_mbr :: int
  opt_mode :: int

definition set_default_opt :: options_t where
  "set_default_opt =
     \<lparr>opt_skip = ''NIMIME'', opt_test = 0, opt_debug = 0, opt_check = 0,
      opt_force_chs = 0, opt_mbr = 0, opt_mode = WIPE_MODE_FAST\<rparr>"

definition opt_ok :: "options_t \<Rightarrow> bool" where
  "opt_ok opt \<longleftrightarrow>
     opt_test opt \<in> {0, 1} \<and> opt_check opt \<in> {0, 1} \<and> opt_force_chs opt \<in> {0, 1} \<and>
     opt_mbr opt \<in> {0, 1} \<and> 0 \<le> opt_debug opt \<and> opt_debug opt \<le> 15 \<and>
     opt_mode opt \<in> {WIPE_MODE_FAST, WIPE_MODE_DOD, WIPE_MODE_OCD}"

lemma set_default_opt_ok: "opt_ok set_default_opt"
  by (simp add: opt_ok_def set_default_opt_def)

text \<open>The lines \<^verbatim>\<open>dmp_opt\<close> prints for the mode, as used by the status display too.\<close>

definition mode_name :: "int \<Rightarrow> string" where
  "mode_name m = (if m = WIPE_MODE_FAST then ''FAST'' else if m = WIPE_MODE_DOD then ''DOD'' else ''OCD'')"

end
