(* ===== verification/Status.thy ===== *)
theory Status
  imports Display Newlib Options
begin

text \<open>
  The status display of dwipe.c: the state of the whole program, the lines that show the
  options, the disks and the counters, and the progress bar with its speed and remaining
  time.
\<close>

section \<open>The state of the program\<close>

record progress_t =
  total_bytes :: u64
  done_bytes :: u64
  tv_start :: "u32 \<times> u32"
  saved_pro_width :: int
  pro_reset :: int

text \<open>The globals of dwipe.c, with the options of option.c and the state of newlib's \<^verbatim>\<open>rand\<close>.\<close>

record 'e world = "'e dmach" +
  opt :: options_t
  rand_next :: u64
  disk_list :: "disk_param list"
  total_disk_cnt :: u32
  skiped_disk_cnt :: u32
  done_disk_cnt :: u32
  error_disk_cnt :: u32

definition LINE_CPU :: int where "LINE_CPU = 2"

definition LINE_MODE :: int where "LINE_MODE = 4"

definition LINE_DISK_LIST :: int where "LINE_DISK_LIST = 8"

definition LINE_WIPE_STATUS :: int where "LINE_WIPE_STATUS = 10"

definition LINE_PROGRESS :: int where "LINE_PROGRESS = LINE_WIPE_STATUS + 6"

section \<open>Fixed lines\<close>

definition show_header :: "('e, 'z) dmach_scheme \<Rightarrow> ('e, 'z) dmach_scheme" where
  "show_header s =
     (let s = s\<lparr>mem := fill_attr SCREEN_WIDTH 2 (SCREEN_ADR + 1) 0x20 (mem s)\<rparr>;
          s = cprint 0 0 ''                  DWiPe  v1.0.0 by sTeeL(steel.mental@gmail.com)               '' s;
          s = s\<lparr>mem := fill_attr 2 30 (SCREEN_ADR + 1) 0xA4 (mem s)\<rparr>
      in cprint 0 23 ''+'' s)"

definition clean_line :: "int \<Rightarrow> ('e, 'z) dmach_scheme \<Rightarrow> ('e, 'z) dmach_scheme" where
  "clean_line y s = cprint y 0 (replicate SCREEN_WIDTH CHR '' '') s"

definition show_sepator :: "int \<Rightarrow> ('e, 'z) dmach_scheme \<Rightarrow> ('e, 'z) dmach_scheme" where
  "show_sepator y s = cprint y 0 (replicate SCREEN_WIDTH CHR ''-'') s"

definition show_cpu :: "string \<Rightarrow> int \<Rightarrow> int \<Rightarrow> int \<Rightarrow> u32 \<Rightarrow> ('e, 'z) dmach_scheme \<Rightarrow> ('e, 'z) dmach_scheme" where
  "show_cpu cpu l1 l2 l3 speed_kh s =
     (let s = show_sepator (LINE_CPU - 1) s;
          s = cprint LINE_CPU 0 (snprintf 512
                (''| CPU: '' @ cpu @ '' | Cache L1/L2/L3: '' @ fmt_d l1 @ ''K/'' @ fmt_d l2 @ ''K/'' @ fmt_d l3 @
                 ''K | Spd: '' @ fmt_d (sint (speed_kh div 1000)) @ ''.'' @ fmt_d (sint ((speed_kh div 100) mod 10)) @ '' MHz |'')) s
      in show_sepator (LINE_CPU + 1) s)"

definition on_off :: "int \<Rightarrow> string" where
  "on_off i = (if i \<noteq> 0 then ''ON'' else ''OFF'')"

definition log_flag :: "int \<Rightarrow> int \<Rightarrow> char \<Rightarrow> char" where
  "log_flag debug m c = (if debug AND m \<noteq> 0 then c else CHR ''-'')"

definition show_mode :: "('e, 'z) world_scheme \<Rightarrow> ('e, 'z) world_scheme" where
  "show_mode s =
     (let p = opt s; d = opt_debug p;
          s = cprint LINE_MODE 0 (snprintf 1024
                (''| Skip: '' @ opt_skip p @ '' | Test '' @ on_off (opt_test p) @
                 '' | Debug ['' @ [log_flag d 1 CHR ''E'', log_flag d 2 CHR ''W'', log_flag d 4 CHR ''I'', log_flag d 8 CHR ''D''] @
                 ''] | Check: '' @ on_off (opt_check p) @ '' | Force CHS: '' @ on_off (opt_force_chs p) @ '' |'')) s;
          s = show_sepator (LINE_MODE + 1) s;
          s = cprint (LINE_MODE + 2) 0 (snprintf 1024
                (''| Write Funny MBR: '' @ on_off (opt_mbr p) @ '' | Wiping Mode: '' @ mode_name (opt_mode p) @ '' |'')) s
      in show_sepator (LINE_MODE + 3) s)"

definition show_disk_list :: "u32 \<Rightarrow> u32 \<Rightarrow> u32 \<Rightarrow> u32 \<Rightarrow> ('e, 'z) dmach_scheme \<Rightarrow> ('e, 'z) dmach_scheme" where
  "show_disk_list tot error skiped wiped s =
     show_sepator (LINE_DISK_LIST + 1) (cprint LINE_DISK_LIST 0 (snprintf 1024
       (''| Total: '' @ fmt_02d (sint tot) @ '' | Error: '' @ fmt_02d (sint error) @
        '' | Skiped: '' @ fmt_02d (sint skiped) @ '' | Wiped: '' @ fmt_02d (sint wiped) @ '' |''))
       (clean_line LINE_DISK_LIST s))"

definition fmt_02x :: "u8 \<Rightarrow> string" where
  "fmt_02x v = pad_left CHR ''0'' 2 (hex (unat v))"

definition show_disk_list_enum :: "u8 \<Rightarrow> ('e, 'z) dmach_scheme \<Rightarrow> ('e, 'z) dmach_scheme" where
  "show_disk_list_enum drv s =
     show_sepator (LINE_DISK_LIST + 1) (cprint LINE_DISK_LIST 0 (snprintf 1024
       (''| Enumerating ... '' @ fmt_02x drv @ '' |'')) (clean_line LINE_DISK_LIST s))"

definition status_line :: "int \<Rightarrow> int \<Rightarrow> string \<Rightarrow> ('e, 'z) dmach_scheme \<Rightarrow> ('e, 'z) dmach_scheme" where
  "status_line n x t s = cprint (LINE_WIPE_STATUS + n) x (snprintf 1024 t) (clean_line (LINE_WIPE_STATUS + n) s)"

definition show_disk_status :: "disk_param \<Rightarrow> ('e, 'z) dmach_scheme \<Rightarrow> ('e, 'z) dmach_scheme" where
  "show_disk_status disk s =
     (let s = status_line 0 0 (''Disk '' @ fmt_02x (disk_id disk)) s;
          s = status_line 1 10 (''Drives '' @ fmt_d (uint (drives disk))) s;
          s = status_line 2 10 (''Legacy C/H/S: '' @ fmt_d (uint (last_cylinders disk) + 1) @ ''/'' @
                fmt_d (uint (last_heads disk) + 1) @ ''/'' @ fmt_d (uint (last_sectors_per_track disk))) s
      in if has_ext disk \<noteq> 0
         then let s = status_line 3 10 (''Extent C/H/S: '' @ fmt_d (sint (ext_ncylinders (ext disk))) @ ''/'' @
                    fmt_d (sint (ext_nheads (ext disk))) @ ''/'' @ fmt_d (sint (ext_sectors_per_track (ext disk)))) s;
                  s = status_line 4 10 (''Sector Size: '' @ fmt_d (uint (ext_bytes_per_sector (ext disk))) @ '' B'') s
              in status_line 5 10 (''Extent Total Sectors: '' @ dec (unat (ext_nsectors (ext disk)))) s
         else let s = status_line 3 10 ''Extent Info: Not Supported'' s;
                  s = clean_line (LINE_WIPE_STATUS + 4) s
              in clean_line (LINE_WIPE_STATUS + 5) s)"

section \<open>The progress bar\<close>

definition reset_progress ::
  "'e platform \<Rightarrow> u64 \<Rightarrow> ('e, 'z) tmach_scheme \<Rightarrow> (progress_t \<times> ('e, 'z) tmach_scheme) option" where
  "reset_progress P tot s =
     do {
       (now, s) \<leftarrow> do_gettimeofday P s;
       Some (\<lparr>total_bytes = (if tot = 0 then 1 else tot), done_bytes = 0, tv_start = now,
              saved_pro_width = 0, pro_reset = 0\<rparr>, s)
     }"

text \<open>The elapsed time is computed in \<^verbatim>\<open>long\<close> and sign-extended to 64 bits.\<close>

definition time_diff_msec :: "u32 \<times> u32 \<Rightarrow> u32 \<times> u32 \<Rightarrow> u64" where
  "time_diff_msec start cur =
     (let ms = (fst cur - fst start) * 1000 + word_of_int (sint (snd cur - snd start) sdiv 1000);
          d = word_of_int (sint ms)
      in if d = 0 then 1 else d)"

text \<open>
  \<^verbatim>\<open>1024 * 1024 * 1024 * 1024\<close> has type \<^verbatim>\<open>int\<close>; gcc evaluates it to 0, so the third bound is
  never met and every faster disk shows 999.
\<close>

definition speed_text :: "u64 \<Rightarrow> nat \<times> string" where
  "speed_text bps =
     (if bps < 1024 then (unat (bps * 1000 div 1024), '' B/S'')
      else if bps < 1024 * 1024 then (unat (bps * 1000 div (1024 * 1024)), ''KB/S'')
      else if bps < 1024 * 1024 * 1024 then (unat (bps * 1000 div (1024 * 1024 * 1024)), ''MB/S'')
      else if bps < 0 then (0, ''GB/S'')
      else (999, ''GB/S''))"

definition LINE_WIDTH :: u32 where "LINE_WIDTH = of_nat SCREEN_WIDTH - 30"

definition progress_text :: "u32 \<Rightarrow> u64 \<Rightarrow> int \<Rightarrow> u32 \<Rightarrow> u32 \<Rightarrow> u32 \<Rightarrow> string" where
  "progress_text pro_width bps percent eta_hour eta_min eta_sec =
     (case speed_text bps of (v, unit) \<Rightarrow>
        ''|'' @ replicate (unat pro_width) CHR ''='' @ replicate (unat LINE_WIDTH - unat pro_width) CHR '' '' @
        ''|'' @ dec v @ ''.0'' @ unit @ ''|'' @ pad_left CHR '' '' 3 (fmt_d percent) @ ''%|ETA '' @
        fmt_02d (sint eta_hour) @ '':'' @ fmt_02d (sint eta_min) @ '':'' @ fmt_02d (sint eta_sec) @ ''|'')"

definition update_progress ::
  "'e platform \<Rightarrow> progress_t \<Rightarrow> u64 \<Rightarrow> ('e, 'z) dmach_scheme \<Rightarrow> (progress_t \<times> ('e, 'z) dmach_scheme) option" where
  "update_progress P p write_bytes s =
     do {
       (cur, s) \<leftarrow> do_gettimeofday P s;
       let ms = time_diff_msec (tv_start p) cur;
       let tot = total_bytes p;
       let don = done_bytes p + write_bytes;
       let don = (if don > tot then tot else don);
       let p = p\<lparr>done_bytes := don\<rparr>;
       w \<leftarrow> udivdi3 (don * ucast LINE_WIDTH) tot;
       let pro_width = (ucast w :: u32);
       if word_of_int (saved_pro_width p) = pro_width \<and> pro_reset p \<noteq> 0 then Some (p, s)
       else do {
         let p = p\<lparr>pro_reset := 1, saved_pro_width := sint pro_width\<rparr>;
         pc \<leftarrow> udivdi3 (don * 100) tot;
         bps \<leftarrow> udivdi3 (don * 1000) ms;
         let bps = (if bps = 0 then 1 else bps);
         eta \<leftarrow> udivdi3 (tot - don) bps;
         hour \<leftarrow> udivdi3 eta 3600;
         rest \<leftarrow> umoddi3 eta 3600;
         minute \<leftarrow> udivdi3 rest 60;
         sec \<leftarrow> umoddi3 rest 60;
         let text = progress_text pro_width bps (sint (ucast pc :: u32)) (ucast hour) (ucast minute) (ucast sec);
         Some (p, cprint LINE_PROGRESS 0 (snprintf 1024 text) (clean_line LINE_PROGRESS s))
       }
     }"

section \<open>The frame of the wiping functions\<close>

text \<open>
  \<open>wvia\<close> extends \<open>via\<close> to the whole program: besides the mailbox and the devices only the
  screen and the random state change.
\<close>

definition wvia ::
  "'e platform \<Rightarrow> (real_area \<Rightarrow> bool) \<Rightarrow> ('e, 'z) world_scheme \<Rightarrow> ('e, 'z) world_scheme \<Rightarrow> bool" where
  "wvia P ok s t \<longleftrightarrow> (\<exists>a e m r. t = s\<lparr>ra := a, dev := e, mem := m, rand_next := r\<rparr> \<and>
     reaches P ok (dev s) e \<and> (rbuf_fixed P \<longrightarrow> length (rbuf a) = length (rbuf (ra s))))"

lemma wvia_via: "via P ok s t \<Longrightarrow> wvia P ok s t"
  unfolding via_def wvia_def
  by (elim exE conjE, rule exI, rule exI, rule exI [of _ "mem s"], rule exI [of _ "rand_next s"]) auto

lemma wvia_refl [simp, intro]: "wvia P ok s s"
  by (simp add: wvia_via)

lemma wvia_trans: "wvia P ok s t \<Longrightarrow> wvia P ok t u \<Longrightarrow> wvia P ok s u"
  unfolding wvia_def by (fastforce intro: reaches_trans)

lemma wvia_mono: "wvia P ok s t \<Longrightarrow> (\<And>a. ok a \<Longrightarrow> ok' a) \<Longrightarrow> wvia P ok' s t"
  unfolding wvia_def by (metis reaches_mono)

lemma wvia_mem [simp]: "wvia P ok s (s\<lparr>mem := m\<rparr>)"
  unfolding wvia_def by (rule exI [of _ "ra s"], rule exI [of _ "dev s"], rule exI [of _ m], rule exI [of _ "rand_next s"]) (simp add: here)

lemma wvia_rand [simp]: "wvia P ok s (s\<lparr>rand_next := r\<rparr>)"
  unfolding wvia_def by (rule exI [of _ "ra s"], rule exI [of _ "dev s"], rule exI [of _ "mem s"], rule exI [of _ r]) (simp add: here)

lemma wvia_frame:
  assumes "wvia P ok s t"
  shows "opt t = opt s" "tv t = tv s" "ptrs t = ptrs s" "disk_list t = disk_list s"
    "total_disk_cnt t = total_disk_cnt s" "skiped_disk_cnt t = skiped_disk_cnt s"
    "done_disk_cnt t = done_disk_cnt s" "error_disk_cnt t = error_disk_cnt s"
    "reaches P ok (dev s) (dev t)" "rbuf_fixed P \<Longrightarrow> length (rbuf (ra t)) = length (rbuf (ra s))"
  using assms by (auto simp: wvia_def)

lemma wvia_cprint [simp]: "wvia P ok s (cprint y x text s)"
  by (simp add: cprint_def)

lemma wvia_clean_line [simp]: "wvia P ok s (clean_line y s)"
  by (simp add: clean_line_def)

lemma ready_wvia: "ready B s \<Longrightarrow> wvia P ok s t \<Longrightarrow> rbuf_fixed P \<Longrightarrow> ready B t"
  by (simp add: ready_def wvia_frame)

section \<open>The progress bar stays within its bounds\<close>

definition progress_ok :: "progress_t \<Rightarrow> bool" where
  "progress_ok p \<longleftrightarrow> total_bytes p \<noteq> 0 \<and> done_bytes p \<le> total_bytes p \<and>
     0 \<le> saved_pro_width p \<and> saved_pro_width p \<le> 50"

lemma reset_progress_ok:
  assumes "extclock (tv s) \<noteq> 0"
  obtains p t where "reset_progress P n s = Some (p, t)" "via P ok s t" "progress_ok p"
    "total_bytes p = (if n = 0 then 1 else n)" "done_bytes p = 0"
proof -
  obtain now t where g: "do_gettimeofday P s = Some (now, t)"
    using do_gettimeofday_returns [OF assms, of P] by auto
  show thesis
    by (rule that [OF _ via_do_gettimeofday [OF g]]) (simp_all add: reset_progress_def g, simp_all add: progress_ok_def)
qed

text \<open>A 64-bit product by a small scale, divided by the total, is at most the scale even when the product wraps.\<close>

lemma scaled_ratio_bound:
  assumes "don \<le> tot" "tot \<noteq> (0 :: u64)"
  shows "unat (don * k div tot) \<le> unat k"
proof (cases "unat tot * unat k < 2 ^ 64")
  case True
  then show ?thesis
    using lib64.proportion [OF assms(2,1) True] assms(2) by (auto simp: lib64.udiv_Some_iff)
next
  case False
  have "unat (don * k) < 2 ^ LENGTH(64)" by (rule unsigned_less)
  then have "unat (don * k) \<le> unat k * unat tot" using False by (simp add: mult.commute)
  then have "unat (don * k) div unat tot \<le> unat k * unat tot div unat tot" by (rule div_le_mono)
  also have "\<dots> = unat k" using assms(2) by (simp add: unat_eq_zero)
  finally have "unat (don * k) div unat tot \<le> unat k" .
  then show ?thesis by (simp add: unat_div_distrib)
qed


lemma small_sint: "unat (x :: u64) \<le> 50 \<Longrightarrow> 0 \<le> sint (ucast x :: u32) \<and> sint (ucast x :: u32) \<le> 50"
proof -
  assume x: "unat x \<le> 50"
  have "int (unat x) \<le> int 50" using x by (simp only: of_nat_le_iff)
  then have u: "uint x \<le> 50" by simp
  have "(ucast x :: u32) = word_of_int (int (unat x))"
    unfolding word_unat_eq_iff using x by (simp add: unat_u64_u32)
  moreover have "sint (word_of_int (int (unat x)) :: u32) = int (unat x)"
    using u by (intro sint_word_of_int_u32) (simp_all add: uint_ge_0 order_trans [OF _ uint_ge_0])
  ultimately have "sint (ucast x :: u32) = int (unat x)" by (simp only:)
  then show ?thesis using u by simp
qed

lemma time_diff_msec_pos [simp]: "time_diff_msec a b \<noteq> 0"
  by (simp add: time_diff_msec_def Let_def)

lemma update_progress_ok:
  assumes clk: "extclock (tv s) \<noteq> 0" and ok: "progress_ok p"
  obtains p' t where "update_progress P p n s = Some (p', t)" "wvia P ok' s t" "progress_ok p'"
    "total_bytes p' = total_bytes p"
    "done_bytes p' = (if done_bytes p + n > total_bytes p then total_bytes p else done_bytes p + n)"
proof -
  obtain now t where g: "do_gettimeofday P s = Some (now, t)"
    using do_gettimeofday_returns [OF clk, of P] by auto
  have v: "wvia P ok' s t" by (rule wvia_via [OF via_do_gettimeofday [OF g]])
  define don where "don = (if done_bytes p + n > total_bytes p then total_bytes p else done_bytes p + n)"
  have t0: "total_bytes p \<noteq> 0" and d: "don \<le> total_bytes p"
    using ok by (auto simp: progress_ok_def don_def not_less)
  have "unat (don * ucast LINE_WIDTH div total_bytes p) \<le> 50"
    using scaled_ratio_bound [OF d t0, of "ucast LINE_WIDTH"] by (simp add: LINE_WIDTH_def SCREEN_WIDTH_def)
  then have w: "0 \<le> sint (ucast (don * ucast LINE_WIDTH div total_bytes p) :: u32) \<and>
       sint (ucast (don * ucast LINE_WIDTH div total_bytes p) :: u32) \<le> 50"
    by (simp add: small_sint)
  have nz: "(if x = 0 then 1 else x) \<noteq> 0" for x :: u64 by simp
  have sc: "wvia P ok' s (cprint y x str (clean_line z t))" for y x str z
    by (rule wvia_trans [OF v wvia_trans [OF wvia_clean_line wvia_cprint]])
  show thesis
  proof (cases "word_of_int (saved_pro_width p) = (ucast (don * ucast LINE_WIDTH div total_bytes p) :: u32) \<and> pro_reset p \<noteq> 0")
    case True
    then show ?thesis using t0 d ok v
      by (intro that [of "p\<lparr>done_bytes := don\<rparr>" t])
         (simp_all add: update_progress_def g Let_def lib64.udiv_nonzero progress_ok_def flip: don_def)
  next
    case False
    then obtain str where eq: "update_progress P p n s = Some (p\<lparr>done_bytes := don, pro_reset := 1,
            saved_pro_width := sint (ucast (don * ucast LINE_WIDTH div total_bytes p) :: u32)\<rparr>,
         cprint LINE_PROGRESS 0 str (clean_line LINE_PROGRESS t))"
      using t0 by (auto simp: update_progress_def g Let_def lib64.udiv_nonzero lib64.umod_nonzero simp flip: don_def)
    show ?thesis
      by (rule that [OF eq sc]) (use t0 d w in \<open>simp_all add: progress_ok_def flip: don_def\<close>)
  qed
qed

text \<open>How \<^verbatim>\<open>wipe_disk\<close> starts the bar: reset, then drawn for the first time.\<close>

lemma start_progress_ok:
  fixes s :: "('e, 'z) world_scheme"
  assumes clk: "extclock (tv s) \<noteq> 0"
  obtains p0 s2 p1 s3 where "reset_progress P n s = Some (p0, s2)" "update_progress P p0 0 s2 = Some (p1, s3)"
    "progress_ok p1" "wvia P ok s s3" "extclock (tv s3) \<noteq> 0"
proof -
  obtain p0 s2 where a: "reset_progress P n s = Some (p0, s2)" "via P ok s s2" "progress_ok p0"
    by (rule reset_progress_ok [OF clk])
  have clk2: "extclock (tv s2) \<noteq> 0" using clk wvia_frame(2) [OF wvia_via [OF a(2)]] by simp
  obtain p1 s3 where b: "update_progress P p0 0 s2 = Some (p1, s3)" "wvia P ok s2 s3" "progress_ok p1"
    by (rule update_progress_ok [OF clk2 a(3)])
  show thesis
    by (rule that [OF a(1) b(1,3) wvia_trans [OF wvia_via [OF a(2)] b(2)]]) (use clk2 wvia_frame(2) [OF b(2)] in simp)
qed

text \<open>
  C38. An update of the progress bar always completes once the clock is calibrated: no
  division traps, the bar is at most 50 characters wide, and the bytes done grow by the
  bytes written up to the total.
\<close>

theorem update_progress_bounds:
  fixes s :: "('e, 'z) world_scheme"
  assumes "extclock (tv s) \<noteq> 0" "progress_ok p"
  shows "\<exists>p' t. update_progress P p n s = Some (p', t) \<and> progress_ok p' \<and>
    total_bytes p' = total_bytes p \<and>
    done_bytes p' = (if done_bytes p + n > total_bytes p then total_bytes p else done_bytes p + n)"
  by (rule update_progress_ok [OF assms, of P n "\<lambda>_. True"]) auto

definition sample_world :: "ideal_dev \<Rightarrow> options_t \<Rightarrow> ideal_dev world" where
  "sample_world e p = \<lparr>ptrs = sample_ptrs, ra = blank_area, dev = e, tv = sample_timer, mem = (\<lambda>_. 0), opt = p,
     rand_next = 1, disk_list = [], total_disk_cnt = 0, skiped_disk_cnt = 0, done_disk_cnt = 0, error_disk_cnt = 0\<rparr>"

theorem update_progress_bounds_witness:
  "\<exists>p' t. update_progress (ideal (\<lambda>_. (1, 1)))
      \<lparr>total_bytes = 1000000, done_bytes = 8192, tv_start = (0, 0), saved_pro_width = 0, pro_reset = 1\<rparr> 8192
      (sample_world sample_dev set_default_opt) = Some (p', t) \<and>
    progress_ok p' \<and> total_bytes p' = 1000000 \<and> done_bytes p' = 16384"
  using update_progress_bounds [of "sample_world sample_dev set_default_opt"
      "\<lparr>total_bytes = 1000000, done_bytes = 8192, tv_start = (0, 0), saved_pro_width = 0, pro_reset = 1\<rparr>"
      "ideal (\<lambda>_. (1, 1))" 8192]
  by (simp add: sample_world_def sample_timer_def progress_ok_def)

end
