(* ===== verification/Fat.thy ===== *)
theory Fat
  imports Bios Newlib Options
begin

text \<open>
  The test of fat.c whether a disk carries the label that protects it: the partition
  table of the first sector, and the FAT32 and FAT16 labels in the boot sectors of its
  FAT partitions. \<^verbatim>\<open>contain_fat_label\<close> only reads, whatever the BIOS answers.
\<close>

section \<open>On-disk structures\<close>

definition FAT_LABEL_LEN :: nat where "FAT_LABEL_LEN = 11"

text \<open>The offsets of \<^verbatim>\<open>label\<close> in the packed structures \<^verbatim>\<open>fat_boot_sector_32\<close> and \<^verbatim>\<open>fat_boot_sector_16\<close>, from the sizes of the fields before it.\<close>

definition fat_boot_sector_32 :: nat where
  "fat_boot_sector_32 = sum_list [3, 8, 2, 1, 2, 1, 2, 2, 1, 2, 2, 2, 4, 4, 4, 2, 2, 4, 2, 2, 12, 1, 1, 1, 4]"

definition fat_boot_sector_16 :: nat where
  "fat_boot_sector_16 = sum_list [3, 8, 2, 1, 2, 1, 2, 2, 1, 2, 2, 2, 4, 4, 1, 1, 1, 4]"

record mbr_entry =
  me_status :: u8
  me_begin_head :: u8
  me_begin_cylinder_sector :: u16
  me_type :: u8
  me_end_head :: u8
  me_end_cylinder_sector :: u16
  me_lba_begin :: u32
  me_lba_size :: u32

definition le16 :: "bytes \<Rightarrow> nat \<Rightarrow> u16" where
  "le16 b i = ucast (b ! i) OR push_bit 8 (ucast (b ! (i + 1)))"

definition le32 :: "bytes \<Rightarrow> nat \<Rightarrow> u32" where
  "le32 b i = ucast (le16 b i) OR push_bit 16 (ucast (le16 b (i + 2)))"

text \<open>Entry \<open>i\<close> of \<^verbatim>\<open>memcpy(mbr, buffer + 446, sizeof(mbr))\<close>.\<close>

definition mbr_entry_at :: "bytes \<Rightarrow> nat \<Rightarrow> mbr_entry" where
  "mbr_entry_at buffer i =
     (let b = 446 + 16 * i
      in \<lparr>me_status = buffer ! b, me_begin_head = buffer ! (b + 1),
          me_begin_cylinder_sector = le16 buffer (b + 2), me_type = buffer ! (b + 4),
          me_end_head = buffer ! (b + 5), me_end_cylinder_sector = le16 buffer (b + 6),
          me_lba_begin = le32 buffer (b + 8), me_lba_size = le32 buffer (b + 12)\<rparr>)"

section \<open>Labels\<close>

text \<open>
  The 11 bytes of the label copied to a local array, terminated, and every blank of the
  array replaced by NUL.
\<close>

definition label_copy :: "bytes \<Rightarrow> nat \<Rightarrow> bytes" where
  "label_copy buffer off =
     map (\<lambda>b. if chr8 b = CHR '' '' then 0 else b) (take FAT_LABEL_LEN (drop off buffer) @ [0])"

definition label_matches :: "string \<Rightarrow> bytes \<Rightarrow> bool" where
  "label_matches skip buffer \<longleftrightarrow>
     strcmp skip (cstr (label_copy buffer fat_boot_sector_32)) = 0 \<or>
     strcmp skip (cstr (label_copy buffer fat_boot_sector_16)) = 0"

section \<open>The scan of the partition table\<close>

definition read_boot_chs ::
  "'e platform \<Rightarrow> disk_param \<Rightarrow> mbr_entry \<Rightarrow> bytes \<Rightarrow> ('e, 'z) mach_scheme \<Rightarrow> (int \<times> bytes \<times> u32) \<times> ('e, 'z) mach_scheme" where
  "read_boot_chs P param m buffer s =
     (case get_chs_from_pack (me_begin_cylinder_sector m) of (c, sec) \<Rightarrow>
        read_sectors_chs P param c (uint (me_begin_head m)) sec 1 buffer 1024 s)"

definition read_boot_lba ::
  "'e platform \<Rightarrow> disk_param \<Rightarrow> mbr_entry \<Rightarrow> bytes \<Rightarrow> ('e, 'z) mach_scheme \<Rightarrow> (int \<times> bytes \<times> u32) \<times> ('e, 'z) mach_scheme" where
  "read_boot_lba P param m buffer s = read_sectors_lba P param (ucast (me_lba_begin m)) 1 buffer 1024 s"

text \<open>\<open>None\<close> is the \<^verbatim>\<open>continue\<close> for a partition of another type.\<close>

definition read_boot ::
  "'e platform \<Rightarrow> disk_param \<Rightarrow> mbr_entry \<Rightarrow> bytes \<Rightarrow> ('e, 'z) mach_scheme \<Rightarrow> ((int \<times> bytes \<times> u32) \<times> ('e, 'z) mach_scheme) option" where
  "read_boot P param m buffer s =
     (if me_type m = 0xB then Some (read_boot_chs P param m buffer s)
      else if me_type m = 0xC \<or> me_type m = 0xE then Some (read_boot_lba P param m buffer s)
      else if me_type m = 0xEF
      then (case read_boot_chs P param m buffer s of ((ret, buffer, len), s) \<Rightarrow>
              if ret \<noteq> 0 then Some (read_boot_lba P param m buffer s) else Some ((ret, buffer, len), s))
      else None)"

fun scan_entries ::
  "'e platform \<Rightarrow> disk_param \<Rightarrow> string \<Rightarrow> mbr_entry list \<Rightarrow> bytes \<Rightarrow> ('e, 'z) mach_scheme \<Rightarrow> int \<times> ('e, 'z) mach_scheme" where
  "scan_entries P param skip [] buffer s = (0, s)"
| "scan_entries P param skip (m # ms) buffer s =
     (case read_boot P param m buffer s of
        None \<Rightarrow> scan_entries P param skip ms buffer s
      | Some ((ret, buffer, len), s) \<Rightarrow>
          if ret = 0 \<and> len = 512 \<and> label_matches skip buffer then (1, s)
          else scan_entries P param skip ms buffer s)"

text \<open>The label compared is that of the options; the argument \<open>str\<close> is not used.\<close>

definition contain_fat_label ::
  "'e platform \<Rightarrow> options_t \<Rightarrow> disk_param \<Rightarrow> string \<Rightarrow> ('e, 'z) mach_scheme \<Rightarrow> int \<times> ('e, 'z) mach_scheme" where
  "contain_fat_label P opt param str s =
     (case read_sectors_chs P param 0 0 1 1 (p_stack P) 1024 s of
        ((ret, buffer, len), s) \<Rightarrow>
          if ret \<noteq> 0 \<or> len \<noteq> 512 then (0, s)
          else scan_entries P param (opt_skip opt) (map (mbr_entry_at buffer) [0..<4]) buffer s)"

section \<open>The scan only reads\<close>

lemma via_read_sectors_chs: "via P read_only s (snd (read_sectors_chs P param c h sec n buffer sz s))"
  unfolding read_sectors_chs_def by (rule via_sector_chs_rw) (simp_all add: read_only_def)

lemma via_read_sectors_lba: "via P read_only s (snd (read_sectors_lba P param lba n buffer sz s))"
  unfolding read_sectors_lba_def by (rule via_sectors_lba_rw) (simp_all add: read_only_def)

lemma via_read_boot_chs: "via P read_only s (snd (read_boot_chs P param m buffer s))"
  by (simp add: read_boot_chs_def case_prod_beta via_read_sectors_chs)

lemma via_read_boot_lba: "via P read_only s (snd (read_boot_lba P param m buffer s))"
  by (simp add: read_boot_lba_def via_read_sectors_lba)

lemma via_read_boot: "read_boot P param m buffer s = Some (r, t) \<Longrightarrow> via P read_only s t"
  using via_read_boot_chs [of P s param m buffer] via_read_boot_lba [of P s param m buffer]
    via_trans [OF via_read_boot_chs [of P s param m buffer] via_read_boot_lba]
  by (auto simp: read_boot_def split: if_splits prod.splits) (metis snd_conv)+

lemma via_scan_entries: "via P read_only s (snd (scan_entries P param skip ms buffer s))"
proof (induction ms arbitrary: buffer s)
  case (Cons m ms)
  then show ?case
    by (auto split: option.split dest!: via_read_boot intro: via_trans)
qed simp

lemma via_contain_fat_label: "via P read_only s (snd (contain_fat_label P opt param str s))"
  using via_read_sectors_chs [of P s param 0 0 1 1 "p_stack P" 1024]
  by (auto simp: contain_fat_label_def case_prod_beta intro: via_trans [OF _ via_scan_entries])

end
