(* ===== verification/Wipe.thy ===== *)
theory Wipe
  imports Status Fat
begin

text \<open>
  Wiping in dwipe.c: one block (\<^verbatim>\<open>wipe_sectors_lba\<close>), one disk (\<^verbatim>\<open>wipe_disk\<close>), and what
  these do to the disks under the contract of Bios.thy. A function gives \<open>None\<close> when it
  does not return because of a divide exception.
\<close>

section \<open>One block\<close>

definition WIPE_BUFFER_SIZE :: nat where "WIPE_BUFFER_SIZE = 8192"

text \<open>\<^verbatim>\<open>fill_rand\<close> stores the low byte of one random number per position.\<close>

fun rand_bytes :: "nat \<Rightarrow> u64 \<Rightarrow> bytes \<times> u64" where
  "rand_bytes 0 r = ([], r)"
| "rand_bytes (Suc n) r =
     (case rand r of (v, r) \<Rightarrow> case rand_bytes n r of (bs, r) \<Rightarrow> (word_of_int v # bs, r))"

definition fill_rand :: "bytes \<Rightarrow> nat \<Rightarrow> ('e, 'z) world_scheme \<Rightarrow> bytes \<times> ('e, 'z) world_scheme" where
  "fill_rand buffer buffer_size s =
     (case rand_bytes buffer_size (rand_next s) of (bs, r) \<Rightarrow>
        (memcpy_buf buffer_size buffer bs, s\<lparr>rand_next := r\<rparr>))"

text \<open>The buffer of pass \<open>i\<close> in the modes DOD and OCD.\<close>

definition fill_pass :: "int \<Rightarrow> nat \<Rightarrow> bytes \<Rightarrow> nat \<Rightarrow> ('e, 'z) world_scheme \<Rightarrow> bytes \<times> ('e, 'z) world_scheme" where
  "fill_pass mode i buffer old_size s =
     (if mode = WIPE_MODE_DOD \<and> i mod 2 = 0 then (memset_buf 0 old_size buffer, s)
      else if mode = WIPE_MODE_DOD then (memset_buf 0xFF old_size buffer, s)
      else fill_rand buffer old_size s)"

text \<open>A write of the block, with the position of the block (LBA or CHS) already applied.\<close>

type_synonym ('e, 'z) writer =
  "bytes \<Rightarrow> u32 \<Rightarrow> int \<Rightarrow> ('e, 'z) world_scheme \<Rightarrow> (int \<times> bytes \<times> u32) \<times> ('e, 'z) world_scheme"

text \<open>The passes \<open>is\<close>; \<open>ret\<close> and the size are those of the last one.\<close>

fun wipe_passes ::
  "('e, 'z) writer \<Rightarrow> int \<Rightarrow> int \<Rightarrow> u32 \<Rightarrow> nat list \<Rightarrow> int \<Rightarrow> bytes \<Rightarrow> u32 \<Rightarrow> ('e, 'z) world_scheme \<Rightarrow>
     (int \<times> bytes \<times> u32) \<times> ('e, 'z) world_scheme" where
  "wipe_passes wr mode check old_size [] ret buffer sz s = ((ret, buffer, sz), s)"
| "wipe_passes wr mode check old_size (i # is) ret buffer sz s =
     (case fill_pass mode i buffer (unat old_size) s of (buffer, s) \<Rightarrow>
      case wr buffer old_size check s of ((ret, buffer, sz), s) \<Rightarrow>
        wipe_passes wr mode check old_size is ret buffer sz s)"

definition pass_count :: "int \<Rightarrow> nat" where
  "pass_count mode = (if mode = WIPE_MODE_DOD then 3 else 4)"

definition wipe_sectors_lba ::
  "'e platform \<Rightarrow> disk_param \<Rightarrow> u64 \<Rightarrow> u32 \<Rightarrow> bytes \<Rightarrow> u32 \<Rightarrow> ('e, 'z) world_scheme \<Rightarrow>
     ((int \<times> bytes \<times> u32) \<times> ('e, 'z) world_scheme) option" where
  "wipe_sectors_lba P param offset nsectors buffer sz s =
     (let mode = opt_mode (opt s); check = opt_check (opt s);
          multi = c_bool (check \<noteq> 0 \<or> mode = WIPE_MODE_OCD)
      in if has_ext param \<noteq> 0
         then Some (if opt_test (opt s) \<noteq> 0 then read_sectors_lba P param offset nsectors buffer sz s
                    else if mode = WIPE_MODE_FAST
                    then write_sectors_lba P param offset nsectors (memset_buf 0 (unat sz) buffer) sz check s
                    else if mode = WIPE_MODE_DOD \<or> mode = WIPE_MODE_OCD
                    then wipe_passes (\<lambda>b z c. write_sectors_lba P param offset nsectors b z c) mode multi sz
                           [0..<pass_count mode] (-1) buffer sz s
                    else ((-1, buffer, sz), s))
         else do {
           r \<leftarrow> lba2chs param offset;
           case r of
             None \<Rightarrow> Some ((-1, buffer, sz), s)
           | Some (c, h, sec) \<Rightarrow>
               Some (if opt_test (opt s) \<noteq> 0 then read_sectors_chs P param c h sec nsectors buffer sz s
                     else if mode = WIPE_MODE_FAST
                     then write_sectors_chs P param c h sec nsectors buffer sz check s
                     else if mode = WIPE_MODE_DOD \<or> mode = WIPE_MODE_OCD
                     then wipe_passes (\<lambda>b z k. write_sectors_chs P param c h sec nsectors b z k) mode multi sz
                            [0..<pass_count mode] 0 buffer sz s
                     else ((0, buffer, sz), s))
         })"

section \<open>One disk\<close>

definition is_cdrom :: "disk_param \<Rightarrow> int" where
  "is_cdrom param = c_bool (has_ext param \<noteq> 0 \<and> ext_bytes_per_sector (ext param) \<noteq> 512)"

definition is_skiped_disk :: "'e platform \<Rightarrow> disk_param \<Rightarrow> ('e, 'z) world_scheme \<Rightarrow> int \<times> ('e, 'z) world_scheme" where
  "is_skiped_disk P param s =
     (if is_cdrom param \<noteq> 0 then (1, s)
      else case contain_fat_label P (opt s) param (opt_skip (opt s)) s of (r, s) \<Rightarrow> (c_bool (r \<noteq> 0), s))"

definition malloc :: "'e platform \<Rightarrow> u32 \<Rightarrow> ('e, 'z) mach_scheme \<Rightarrow> bytes option \<times> ('e, 'z) mach_scheme" where
  "malloc P n s = (case p_malloc P n (dev s) of (b, e) \<Rightarrow> (b, s\<lparr>dev := e\<rparr>))"

definition free :: "'e platform \<Rightarrow> ('e, 'z) mach_scheme \<Rightarrow> ('e, 'z) mach_scheme" where
  "free P s = s\<lparr>dev := p_free P (dev s)\<rparr>"

text \<open>The product of the geometry is computed in \<^verbatim>\<open>int\<close> and then widened to 64 bits.\<close>

definition disk_sectors :: "options_t \<Rightarrow> disk_param \<Rightarrow> u32 \<times> u64" where
  "disk_sectors p param =
     (if has_ext param \<noteq> 0 \<and> opt_force_chs p = 0
      then (ucast (ext_bytes_per_sector (ext param)), ext_nsectors (ext param))
      else (512, word_of_int (sint (word_of_int ((uint (last_heads param) + 1) * (uint (last_cylinders param) + 1) *
                   uint (last_sectors_per_track param)) :: u32))))"

text \<open>
  The loop over the full blocks. The Boolean of the result is the jump to \<^verbatim>\<open>fail\<close>; then
  come \<^verbatim>\<open>ret\<close>, the buffer, \<^verbatim>\<open>offset_lba\<close> and the progress.
\<close>

fun wipe_blocks ::
  "'e platform \<Rightarrow> disk_param \<Rightarrow> u32 \<Rightarrow> nat \<Rightarrow> int \<times> bytes \<times> u64 \<times> progress_t \<Rightarrow> ('e, 'z) world_scheme \<Rightarrow>
     ((bool \<times> int \<times> bytes \<times> u64 \<times> progress_t) \<times> ('e, 'z) world_scheme) option" where
  "wipe_blocks P param sector_size 0 v s = Some ((False, v), s)"
| "wipe_blocks P param sector_size (Suc n) v s =
     (case v of (_, buffer, offset_lba, progress) \<Rightarrow>
      if sector_size = 0 then None
      else do {
        let nsec = of_nat WIPE_BUFFER_SIZE div sector_size;
        ((ret, buffer, _), s) \<leftarrow> wipe_sectors_lba P param offset_lba nsec buffer (of_nat WIPE_BUFFER_SIZE) s;
        let offset_lba = offset_lba + ucast nsec;
        (progress, s) \<leftarrow> update_progress P progress (of_nat WIPE_BUFFER_SIZE) s;
        if ret < 0 then Some ((True, ret, buffer, offset_lba, progress), s)
        else wipe_blocks P param sector_size n (ret, buffer, offset_lba, progress) s
      })"

text \<open>The sectors after the full blocks; the Boolean is again the jump to \<^verbatim>\<open>fail\<close>.\<close>

definition wipe_left ::
  "'e platform \<Rightarrow> disk_param \<Rightarrow> u64 \<Rightarrow> int \<Rightarrow> bytes \<Rightarrow> u64 \<Rightarrow> ('e, 'z) world_scheme \<Rightarrow>
     ((bool \<times> int \<times> bytes) \<times> ('e, 'z) world_scheme) option" where
  "wipe_left P param left_sec ret buffer offset_lba s =
     (if left_sec = 0 then Some ((False, ret, buffer), s)
      else do {
        ((ret, buffer, _), s) \<leftarrow> wipe_sectors_lba P param offset_lba (ucast left_sec) buffer (of_nat WIPE_BUFFER_SIZE) s;
        Some ((ret < 0, ret, buffer), s)
      })"

text \<open>The boot sector written at the end; without it the result stays \<open>ret\<close>.\<close>

definition write_mbr ::
  "'e platform \<Rightarrow> disk_param \<Rightarrow> int \<Rightarrow> bytes \<Rightarrow> ('e, 'z) world_scheme \<Rightarrow> int \<times> ('e, 'z) world_scheme" where
  "write_mbr P param ret buffer s =
     (if opt_mbr (opt s) \<noteq> 0 \<and> opt_test (opt s) = 0
      then case write_sectors_chs P param 0 0 1 1 (memcpy_buf (length (p_mbr_bin P)) buffer (p_mbr_bin P))
                  (of_nat (length (p_mbr_bin P))) (opt_check (opt s)) s of
             ((ret, _, _), s) \<Rightarrow> (ret, s)
      else (ret, s))"

definition wipe_tail ::
  "'e platform \<Rightarrow> disk_param \<Rightarrow> u32 \<Rightarrow> u64 \<Rightarrow> int \<times> bytes \<times> u64 \<times> progress_t \<Rightarrow> ('e, 'z) world_scheme \<Rightarrow>
     (int \<times> ('e, 'z) world_scheme) option" where
  "wipe_tail P param sector_size total_sec v s =
     (case v of (ret, buffer, offset_lba, progress) \<Rightarrow>
      do {
        let left_sec = total_sec - offset_lba;
        ((failed, ret, buffer), s) \<leftarrow> wipe_left P param left_sec ret buffer offset_lba s;
        if failed then Some (ret, s)
        else do {
          (progress, s) \<leftarrow> update_progress P progress (left_sec * ucast sector_size) s;
          Some (write_mbr P param ret buffer s)
        }
      })"

text \<open>The wipe of a disk that is not skipped, with the buffer allocated.\<close>

definition wipe_all ::
  "'e platform \<Rightarrow> disk_param \<Rightarrow> bytes \<Rightarrow> ('e, 'z) world_scheme \<Rightarrow> (int \<times> ('e, 'z) world_scheme) option" where
  "wipe_all P param buffer s =
     (case disk_sectors (opt s) param of (sector_size, total_sec) \<Rightarrow>
      do {
        let total_size = total_sec * ucast sector_size;
        (progress, s) \<leftarrow> reset_progress P total_size s;
        (progress, s) \<leftarrow> update_progress P progress 0 s;
        ((failed, v), s) \<leftarrow>
          wipe_blocks P param sector_size (unat (total_size div of_nat WIPE_BUFFER_SIZE)) (-1, buffer, 0, progress) s;
        if failed then Some (fst v, s) else wipe_tail P param sector_size total_sec v s
      })"

definition wipe_disk ::
  "'e platform \<Rightarrow> disk_param \<Rightarrow> ('e, 'z) world_scheme \<Rightarrow> (int \<times> ('e, 'z) world_scheme) option" where
  "wipe_disk P param s =
     (case is_skiped_disk P param s of (skip, s) \<Rightarrow>
      if skip \<noteq> 0 then Some (1, s)
      else case malloc P (of_nat WIPE_BUFFER_SIZE) s of
             (None, s) \<Rightarrow> Some (-1, s)
           | (Some buffer, s) \<Rightarrow>
               do {
                 (ret, s) \<leftarrow> wipe_all P param buffer s;
                 Some (ret, free P s)
               })"

section \<open>The requests of a wipe\<close>

text \<open>
  The write requests for the blocks \<open>b\<close> to \<open>b + n - 1\<close> of a disk, and all the requests that
  wiping a disk may issue: reads, and unless in test mode writes to this drive within its
  total number of sectors, and the boot sector when it is asked for.
\<close>

definition block_write :: "disk_param \<Rightarrow> u64 \<Rightarrow> nat \<Rightarrow> real_area \<Rightarrow> bool" where
  "block_write param b n a \<longleftrightarrow>
     (if has_ext param \<noteq> 0 then lba_write (disk_id param) b n a
      else case lba2chs param b of
             Some (Some (c, h, sec)) \<Rightarrow> chs_write (disk_id param) c h sec n a
           | _ \<Rightarrow> False)"

definition wipe_request :: "options_t \<Rightarrow> disk_param \<Rightarrow> real_area \<Rightarrow> bool" where
  "wipe_request p param a \<longleftrightarrow> read_only a \<or>
     opt_test p = 0 \<and>
     ((\<exists>b n. block_write param b n a \<and> unat b + n \<le> unat (snd (disk_sectors p param))) \<or>
      opt_mbr p \<noteq> 0 \<and> chs_write (disk_id param) 0 0 1 1 a)"

lemma wvia_fill_pass: "wvia P ok s (snd (fill_pass mode i buffer n s))"
  by (simp add: fill_pass_def fill_rand_def case_prod_beta)

lemma wvia_wipe_passes:
  assumes "\<And>b z c s. wvia P ok s (snd (wr b z c s))"
  shows "wvia P ok s (snd (wipe_passes wr mode check old_size is ret buffer sz s))"
proof (induction "is" arbitrary: ret buffer sz s)
  case (Cons i "is")
  have "wvia P ok s (snd (wr (fst (fill_pass mode i buffer (unat old_size) s)) old_size check (snd (fill_pass mode i buffer (unat old_size) s))))"
    by (rule wvia_trans [OF wvia_fill_pass assms])
  then show ?case
    using Cons.IH by (auto simp: case_prod_beta intro: wvia_trans)
qed simp

lemma wvia_wipe_sectors_ext:
  assumes "has_ext param \<noteq> 0" "\<And>a. read_only a \<Longrightarrow> ok a"
    and "\<And>a. opt_test (opt s) = 0 \<Longrightarrow> block_write param off (unat n) a \<Longrightarrow> ok a"
  shows "wvia P ok s (snd (the (wipe_sectors_lba P param off n buffer sz s)))"
proof -
  have rd: "wvia P ok s (snd (read_sectors_lba P param off n b z s))" for b z
    by (rule wvia_via [OF via_mono [OF via_read_sectors_lba assms(2)]])
  have wr: "wvia P ok u (snd (write_sectors_lba P param off n b z c u))" if "opt_test (opt s) = 0" for b z c u
    by (intro wvia_via via_write_sectors_lba assms(3) that) (simp add: block_write_def assms(1))
  have ps: "wvia P ok s (snd (wipe_passes (\<lambda>b z c. write_sectors_lba P param off n b z c) m k o' is ret b z s))"
    if "opt_test (opt s) = 0" for m k o' "is" ret b z
    by (rule wvia_wipe_passes) (rule wr [OF that])
  show ?thesis using assms(1) rd wr ps by (auto simp: wipe_sectors_lba_def Let_def)
qed

lemma wvia_wipe_sectors_chs:
  assumes "has_ext param = 0" "lba2chs param off = Some (Some (c, h, sec))" "\<And>a. read_only a \<Longrightarrow> ok a"
    and "\<And>a. opt_test (opt s) = 0 \<Longrightarrow> block_write param off (unat n) a \<Longrightarrow> ok a"
  shows "wvia P ok s (snd (the (wipe_sectors_lba P param off n buffer sz s)))"
proof -
  have rd: "wvia P ok s (snd (read_sectors_chs P param c h sec n b z s))" for b z
    by (rule wvia_via [OF via_mono [OF via_read_sectors_chs assms(3)]])
  have wr: "wvia P ok u (snd (write_sectors_chs P param c h sec n b z k u))" if "opt_test (opt s) = 0" for b z k u
    unfolding write_sectors_chs_def
    by (rule wvia_via, rule via_sector_chs_rw)
       (simp, rule assms(4) [OF that], simp add: block_write_def assms(1,2), rule assms(3), simp add: read_only_def)
  have ps: "wvia P ok s (snd (wipe_passes (\<lambda>b z k. write_sectors_chs P param c h sec n b z k) m k o' is ret b z s))"
    if "opt_test (opt s) = 0" for m k o' "is" ret b z
    by (rule wvia_wipe_passes) (rule wr [OF that])
  show ?thesis using assms(1) rd wr ps by (auto simp: wipe_sectors_lba_def Let_def assms(2))
qed

lemma wvia_wipe_sectors_lba:
  assumes w: "wipe_sectors_lba P param off n buffer sz s = Some (r, t)"
    and ok: "\<And>a. read_only a \<Longrightarrow> ok a" "\<And>a. opt_test (opt s) = 0 \<Longrightarrow> block_write param off (unat n) a \<Longrightarrow> ok a"
  shows "wvia P ok s t"
proof -
  consider "has_ext param \<noteq> 0" | "has_ext param = 0" "lba2chs param off = None" | "has_ext param = 0" "lba2chs param off = Some None"
    | c h sec where "has_ext param = 0" "lba2chs param off = Some (Some (c, h, sec))"
    by (metis option.exhaust prod_cases3)
  then have "wvia P ok s (snd (the (wipe_sectors_lba P param off n buffer sz s)))"
  proof cases
    case 1
    then show ?thesis by (rule wvia_wipe_sectors_ext [OF _ ok])
  next
    case 4
    then show ?thesis by (rule wvia_wipe_sectors_chs [OF _ _ ok])
  qed (use w in \<open>simp_all add: wipe_sectors_lba_def Let_def\<close>)
  then show ?thesis by (simp add: w)
qed

lemma wvia_update_progress: 
  fixes s :: "('e, 'z) world_scheme"
  assumes "update_progress P p n s = Some (p', t)" 
  shows "wvia P ok s t"
proof -
  obtain now u where g: "do_gettimeofday P s = Some (now, u)"
    using assms by (cases "do_gettimeofday P s") (auto simp: update_progress_def)
  have v: "wvia P ok s u" by (rule wvia_via [OF via_do_gettimeofday [OF g]])
  have sc: "wvia P ok s (cprint y x str (clean_line z u))" for y x str z
    by (rule wvia_trans [OF v wvia_trans [OF wvia_clean_line wvia_cprint]])
  show ?thesis
    using assms v sc by (auto simp: update_progress_def g Let_def split: if_splits bind_splits)
qed

lemma blocks_512: "of_nat WIPE_BUFFER_SIZE div (512 :: u32) = 16" "ucast (16 :: u32) = (16 :: u64)"
  by (simp_all add: WIPE_BUFFER_SIZE_def)

lemma wvia_wipe_blocks:
  assumes "wipe_blocks P param 512 k (ret, buffer, off, p) s = Some ((failed, ret', buffer', off', p'), t)"
    and "unat off + 16 * k \<le> tot" "tot < 2 ^ 64"
    and "\<And>a. read_only a \<Longrightarrow> ok a"
    and "\<And>a b n. opt_test (opt s) = 0 \<Longrightarrow> block_write param b n a \<Longrightarrow> unat b + n \<le> tot \<Longrightarrow> ok a"
  shows "wvia P ok s t \<and> (\<not> failed \<longrightarrow> unat off' = unat off + 16 * k)"
  using assms
proof (induction k arbitrary: ret buffer off p s)
  case (Suc k)
  from Suc.prems(1) obtain r b z u q v where
    w: "wipe_sectors_lba P param off 16 buffer (of_nat WIPE_BUFFER_SIZE) s = Some ((r, b, z), u)"
    and g: "update_progress P p (of_nat WIPE_BUFFER_SIZE) u = Some (q, v)"
    and e: "(if r < 0 then Some ((True, r, b, off + 16, q), v)
        else wipe_blocks P param 512 k (r, b, off + 16, q) v) = Some ((failed, ret', buffer', off', p'), t)"
    by (auto simp: blocks_512 Let_def split: bind_splits cong: if_cong)
  have u1: "wvia P ok s u"
    by (rule wvia_wipe_sectors_lba [OF w Suc.prems(4)])
       (use Suc.prems(2) in \<open>auto intro!: Suc.prems(5) [of off 16]\<close>)
  have u2: "wvia P ok s v"
    by (rule wvia_trans [OF u1 wvia_update_progress [OF g]])
  have o: "unat (off + 16) = unat off + 16"
    using Suc.prems(2,3) by (simp add: unat_word_ariths)
  show ?case
  proof (cases "r < 0")
    case True
    then show ?thesis using e u2 by auto
  next
    case False
    then have "wipe_blocks P param 512 k (r, b, off + 16, q) v = Some ((failed, ret', buffer', off', p'), t)"
      using e by simp
    from Suc.IH [OF this] have "wvia P ok v t \<and> (\<not> failed \<longrightarrow> unat off' = unat (off + 16) + 16 * k)"
      using Suc.prems(2-5) wvia_frame(1) [OF u2] o by simp
    then show ?thesis using u2 o by (auto intro: wvia_trans)
  qed
qed auto


lemma wvia_wipe_left:
  assumes "wipe_left P param (tot - off) ret buffer off s = Some ((failed, r, b), t)"
    and off: "off \<le> tot" "unat tot - unat off < 16"
    and rd: "\<And>a. read_only a \<Longrightarrow> ok a"
    and wr: "\<And>a b n. opt_test (opt s) = 0 \<Longrightarrow> block_write param b n a \<Longrightarrow> unat b + n \<le> unat tot \<Longrightarrow> ok a"
  shows "wvia P ok s t"
proof (cases "tot - off = 0")
  case False
  have l: "unat (tot - off) = unat tot - unat off" using off(1) by (simp add: unat_sub)
  have l': "unat (ucast (tot - off) :: u32) = unat tot - unat off"
    using off(2) unfolding unat_u64_u32 l by simp
  obtain z where "wipe_sectors_lba P param off (ucast (tot - off)) buffer (of_nat WIPE_BUFFER_SIZE) s = Some ((r, b, z), t)"
    using assms(1) False by (auto simp: wipe_left_def split: bind_splits)
  then show ?thesis
    by (rule wvia_wipe_sectors_lba [OF _ rd])
       (use off(1) in \<open>auto intro!: wr [of off] simp: word_le_nat_alt l'\<close>)
qed (use assms(1) in \<open>auto simp: wipe_left_def\<close>)

lemma wvia_write_mbr:
  assumes rd: "\<And>a. read_only a \<Longrightarrow> ok a"
    and mbr: "\<And>a. opt_test (opt s) = 0 \<Longrightarrow> opt_mbr (opt s) \<noteq> 0 \<Longrightarrow> chs_write (disk_id param) 0 0 1 1 a \<Longrightarrow> ok a"
  shows "wvia P ok s (snd (write_mbr P param ret buffer s))"
proof -
  have "wvia P ok s (snd (write_sectors_chs P param 0 0 1 1 b z k s))" if "opt_mbr (opt s) \<noteq> 0" "opt_test (opt s) = 0" for b z k
    unfolding write_sectors_chs_def
    by (rule wvia_via, rule via_sector_chs_rw)
       (simp, rule mbr, use that in \<open>simp_all add: read_only_def rd\<close>)
  then show ?thesis by (simp add: write_mbr_def case_prod_beta)
qed

lemma wvia_wipe_tail:
  assumes "wipe_tail P param 512 tot (ret, buffer, off, p) s = Some (r, t)"
    and off: "off \<le> tot" "unat tot - unat off < 16"
    and rd: "\<And>a. read_only a \<Longrightarrow> ok a"
    and wr: "\<And>a b n. opt_test (opt s) = 0 \<Longrightarrow> block_write param b n a \<Longrightarrow> unat b + n \<le> unat tot \<Longrightarrow> ok a"
    and mbr: "\<And>a. opt_test (opt s) = 0 \<Longrightarrow> opt_mbr (opt s) \<noteq> 0 \<Longrightarrow> chs_write (disk_id param) 0 0 1 1 a \<Longrightarrow> ok a"
  shows "wvia P ok s t"
proof -
  obtain failed r1 b1 u where
    w: "wipe_left P param (tot - off) ret buffer off s = Some ((failed, r1, b1), u)"
    using assms(1) by (auto simp: wipe_tail_def Let_def split: bind_splits)
  have u: "wvia P ok s u" by (rule wvia_wipe_left [OF w off rd wr])
  show ?thesis
  proof (cases failed)
    case True
    then show ?thesis using assms(1) u by (simp add: wipe_tail_def w Let_def)
  next
    case False
    then obtain q v where g: "update_progress P p ((tot - off) * ucast (512 :: u32)) u = Some (q, v)"
      and t: "t = snd (write_mbr P param r1 b1 v)"
      using assms(1) by (auto simp: wipe_tail_def w Let_def split: bind_splits)
    have v: "wvia P ok s v" by (rule wvia_trans [OF u wvia_update_progress [OF g]])
    show ?thesis
      unfolding t by (rule wvia_trans [OF v wvia_write_mbr]) (use mbr wvia_frame(1) [OF v] rd in auto)
  qed
qed


lemma wvia_is_skiped_disk: "wvia P read_only s (snd (is_skiped_disk P param s))"
  by (simp add: is_skiped_disk_def case_prod_beta wvia_via via_contain_fat_label)

lemma wvia_malloc: "wvia P ok s (snd (malloc P n s))"
  by (simp add: malloc_def case_prod_beta wvia_via via_dev_update reaches.malloc here)

lemma wvia_free: "wvia P ok s (free P s)"
  by (simp add: free_def wvia_via via_dev_update reaches.free here)

lemma wvia_reset_progress: "reset_progress P n s = Some (p, t) \<Longrightarrow> wvia P ok s t"
  by (auto simp: reset_progress_def split: bind_splits intro: wvia_via [OF via_do_gettimeofday])

definition plain_disk :: "disk_param \<Rightarrow> bool" where
  "plain_disk param \<longleftrightarrow> has_ext param = 0 \<or> lba_disk param"

lemma plain_disk_sectors: "plain_disk param \<Longrightarrow> disk_sectors p param = (512, snd (disk_sectors p param))"
  by (auto simp: plain_disk_def lba_disk_def disk_sectors_def)

lemma not_skipped_plain: "fst (is_skiped_disk P param s) = 0 \<Longrightarrow> plain_disk param"
  by (auto simp: is_skiped_disk_def is_cdrom_def plain_disk_def lba_disk_def split: if_splits prod.splits)

text \<open>The stages of a wipe that starts.\<close>

lemma wipe_all_stages:
  assumes "wipe_all P param buffer s = Some (ret, t)" "plain_disk param"
    "tot = snd (disk_sectors (opt s) param)"
  obtains p0 s2 p1 s3 failed v s4 where
    "reset_progress P (tot * 512) s = Some (p0, s2)" "update_progress P p0 0 s2 = Some (p1, s3)"
    "wipe_blocks P param 512 (unat (tot * 512 div 8192)) (-1, buffer, 0, p1) s3 = Some ((failed, v), s4)"
    "(if failed then Some (fst v, s4) else wipe_tail P param 512 tot v s4) = Some (ret, t)"
proof -
  have d: "disk_sectors (opt s) param = (512, tot)"
    using plain_disk_sectors [OF assms(2)] assms(3) by metis
  have c: "(ucast (512 :: u32) :: u64) = 512" "(of_nat WIPE_BUFFER_SIZE :: u64) = 8192"
    by (simp_all add: WIPE_BUFFER_SIZE_def)
  obtain p0 s2 where 1: "reset_progress P (tot * 512) s = Some (p0, s2)"
    using assms(1) by (cases "reset_progress P (tot * 512) s") (auto simp: wipe_all_def d Let_def c)
  obtain p1 s3 where 2: "update_progress P p0 0 s2 = Some (p1, s3)"
    using assms(1) by (cases "update_progress P p0 0 s2") (auto simp: wipe_all_def d Let_def c 1)
  obtain failed v s4 where 3: "wipe_blocks P param 512 (unat (tot * 512 div 8192)) (-1, buffer, 0, p1) s3 = Some ((failed, v), s4)"
    using assms(1) by (cases "wipe_blocks P param 512 (unat (tot * 512 div 8192)) (-1, buffer, 0, p1) s3") (auto simp: wipe_all_def d Let_def c 1 2)
  have 4: "(if failed then Some (fst v, s4) else wipe_tail P param 512 tot v s4) = Some (ret, t)"
    using assms(1) by (simp add: wipe_all_def d Let_def c 1 2 3)
  show thesis by (rule that [OF 1 2 3 4])
qed

lemma full_blocks:
  assumes "unat (tot :: u64) < 2 ^ 55"
  shows "unat (tot * 512 div 8192) = unat tot div 16"
  using assms by (simp add: unat_div_distrib unat_word_ariths)

lemma wvia_wipe_all:
  assumes "wipe_all P param buffer s = Some (ret, t)" "plain_disk param"
    and small: "unat (snd (disk_sectors (opt s) param)) < 2 ^ 55"
  shows "wvia P (wipe_request (opt s) param) s t"
proof -
  define tot where "tot = snd (disk_sectors (opt s) param)"
  obtain p0 s2 p1 s3 failed v s4 where st: "reset_progress P (tot * 512) s = Some (p0, s2)" "update_progress P p0 0 s2 = Some (p1, s3)"
    "wipe_blocks P param 512 (unat (tot * 512 div 8192)) (-1, buffer, 0, p1) s3 = Some ((failed, v), s4)"
    "(if failed then Some (fst v, s4) else wipe_tail P param 512 tot v s4) = Some (ret, t)"
    by (rule wipe_all_stages [OF assms(1,2) tot_def])
  obtain r b off p where v: "v = (r, b, off, p)" by (cases v)
  let ?ok = "wipe_request (opt s) param"
  have s3: "wvia P ?ok s s3"
    by (rule wvia_trans [OF wvia_reset_progress [OF st(1)] wvia_update_progress [OF st(2)]])
  have rd: "?ok a" if "read_only a" for a using that by (simp add: wipe_request_def)
  have wr: "?ok a" if "opt_test (opt s) = 0" "block_write param b n a" "unat b + n \<le> unat tot" for a b n
    using that by (auto simp: wipe_request_def tot_def)
  have k: "unat (tot * 512 div 8192) = unat tot div 16" using small by (simp add: full_blocks tot_def)
  have bl: "wvia P ?ok s3 s4 \<and> (\<not> failed \<longrightarrow> unat off = unat (0 :: u64) + 16 * (unat tot div 16))"
    by (rule wvia_wipe_blocks [where tot = "unat tot", OF st(3) [unfolded v k]])
       (use rd wr wvia_frame(1) [OF s3] small in \<open>auto simp: tot_def\<close>)
  then have s4: "wvia P ?ok s s4" using s3 wvia_trans by blast
  show ?thesis
  proof (cases failed)
    case True
    then show ?thesis using st(4) s4 by simp
  next
    case False
    then have o: "unat off = 16 * (unat tot div 16)" and tl: "wipe_tail P param 512 tot (r, b, off, p) s4 = Some (ret, t)"
      using bl st(4) v by simp_all
    have ot: "off \<le> tot" "unat tot - unat off < 16" by (simp_all add: word_le_nat_alt o)
    have "wvia P ?ok s4 t"
      by (rule wvia_wipe_tail [OF tl ot])
         (use rd wr wvia_frame(1) [OF s4] in \<open>auto simp: wipe_request_def\<close>)
    then show ?thesis using s4 wvia_trans by blast
  qed
qed

lemma wipe_disk_reaches:
  assumes "wipe_disk P param s = Some (ret, t)" "unat (snd (disk_sectors (opt s) param)) < 2 ^ 55"
  shows "reaches P (wipe_request (opt s) param) (dev s) (dev t)"
proof -
  let ?ok = "wipe_request (opt s) param"
  obtain sk s1 where sk: "is_skiped_disk P param s = (sk, s1)" by (cases "is_skiped_disk P param s")
  have v1: "wvia P ?ok s s1"
    by (rule wvia_mono [OF wvia_is_skiped_disk [of P s param, unfolded sk snd_conv]]) (simp add: wipe_request_def)
  obtain b s2 where ml: "malloc P (of_nat WIPE_BUFFER_SIZE) s1 = (b, s2)" by (cases "malloc P (of_nat WIPE_BUFFER_SIZE) s1")
  have v2: "wvia P ?ok s s2"
    by (rule wvia_trans [OF v1 wvia_malloc [of P _ s1 "of_nat WIPE_BUFFER_SIZE", unfolded ml snd_conv]])
  have "wvia P ?ok s t"
  proof (cases "sk = 0 \<and> b \<noteq> None")
    case True
    then obtain buf where b: "b = Some buf" by auto
    obtain s3 where w: "wipe_all P param buf s2 = Some (ret, s3)" and t: "t = free P s3"
      using assms(1) True b by (auto simp: wipe_disk_def sk ml split: bind_splits)
    have "plain_disk param" by (rule not_skipped_plain [of P _ s]) (use True sk in simp)
    from wvia_wipe_all [OF w this] have "wvia P ?ok s2 s3"
      using assms(2) wvia_frame(1) [OF v2] by simp
    then show ?thesis unfolding t by (intro wvia_trans [OF wvia_trans [OF v2] wvia_free])
  next
    case False
    then show ?thesis using assms(1) v1 v2 by (auto simp: wipe_disk_def sk ml split: if_splits)
  qed
  then show ?thesis by (rule wvia_frame(9))
qed

text \<open>
  C4. Whatever the BIOS answers, wiping a disk issues only requests that read, and unless
  in test mode writes to this drive within its sector count, plus the boot sector when it
  is asked for.
\<close>

theorem wipe_disk_requests:
  assumes "wipe_disk P param s = Some (ret, t)" "unat (snd (disk_sectors (opt s) param)) < 2 ^ 55"
  shows "reaches P (wipe_request (opt s) param) (dev s) (dev t)"
  by (rule wipe_disk_reaches [OF assms])

section \<open>A wipe returns\<close>

lemma lba2chs_no_trap: "last_sectors_per_track param \<noteq> 0 \<Longrightarrow> lba2chs param off \<noteq> None"
  using lba2chs_val [of off param] by (cases "off \<le> ucast max_chs_lba") (simp_all add: lba2chs_def)

lemma wipe_sectors_lba_returns:
  assumes "has_ext param \<noteq> 0 \<or> last_sectors_per_track param \<noteq> 0"
  shows "\<exists>r t. wipe_sectors_lba P param off n buffer sz s = Some (r, t)"
proof -
  have "\<exists>x. wipe_sectors_lba P param off n buffer sz s = Some x"
  proof (cases "has_ext param \<noteq> 0")
    case True
    show ?thesis unfolding wipe_sectors_lba_def Let_def if_P [OF True] by (intro exI) (rule refl)
  next
    case False
    then obtain q where q: "lba2chs param off = Some q" using assms lba2chs_no_trap [of param off] by blast
    show ?thesis
    proof (cases q)
      case (Some c)
      obtain x y z where c: "c = (x, y, z)" by (cases c)
      show ?thesis
        unfolding wipe_sectors_lba_def Let_def if_not_P [OF False] q Some c Option.bind.bind_lunit option.case prod.case
        by (intro exI) (rule refl)
    qed (simp add: wipe_sectors_lba_def Let_def q False [simplified])
  qed
  then show ?thesis by (metis surj_pair)
qed

lemma wipe_blocks_returns:
  assumes "has_ext param \<noteq> 0 \<or> last_sectors_per_track param \<noteq> 0"
  shows "extclock (tv s) \<noteq> 0 \<Longrightarrow> progress_ok p \<Longrightarrow>
    \<exists>failed r b off' p' t. wipe_blocks P param 512 k (ret, buffer, off, p) s = Some ((failed, r, b, off', p'), t) \<and>
      progress_ok p' \<and> wvia P (\<lambda>_. True) s t"
proof (induction k arbitrary: ret buffer off p s)
  case (Suc k)
  obtain r b z u where w: "wipe_sectors_lba P param off 16 buffer (of_nat WIPE_BUFFER_SIZE) s = Some ((r, b, z), u)"
    using wipe_sectors_lba_returns [OF assms, of P off 16 buffer "of_nat WIPE_BUFFER_SIZE" s] by auto
  have u: "wvia P (\<lambda>_. True) s u" by (rule wvia_wipe_sectors_lba [OF w]) simp_all
  have clk: "extclock (tv u) \<noteq> 0" using Suc.prems(1) wvia_frame(2) [OF u] by simp
  obtain q v where g: "update_progress P p (of_nat WIPE_BUFFER_SIZE) u = Some (q, v)" "wvia P (\<lambda>_. True) u v" "progress_ok q"
    by (rule update_progress_ok [OF clk Suc.prems(2)])
  have v: "wvia P (\<lambda>_. True) s v" by (rule wvia_trans [OF u g(2)])
  show ?case
  proof (cases "r < 0")
    case True
    then show ?thesis using w g v by (intro exI [of _ True]) (simp add: blocks_512 Let_def)
  next
    case False
    have "\<exists>failed r' b' off' p' t. wipe_blocks P param 512 k (r, b, off + 16, q) v = Some ((failed, r', b', off', p'), t) \<and>
      progress_ok p' \<and> wvia P (\<lambda>_. True) v t"
      by (rule Suc.IH) (use g(3) Suc.prems(1) wvia_frame(2) [OF v] in simp_all)
    then show ?thesis using False w g(1) wvia_trans [OF v] by (simp add: blocks_512 Let_def) blast
  qed
qed auto

lemma wipe_tail_returns:
  assumes "has_ext param \<noteq> 0 \<or> last_sectors_per_track param \<noteq> 0 \<or> tot - off = 0"
    and "extclock (tv s) \<noteq> 0" "progress_ok p"
  shows "\<exists>r t. wipe_tail P param 512 tot (ret, buffer, off, p) s = Some (r, t)"
proof -
  obtain failed r b u where w: "wipe_left P param (tot - off) ret buffer off s = Some ((failed, r, b), u)" "wvia P (\<lambda>_. True) s u"
  proof (cases "tot - off = 0")
    case False
    then obtain r b z u where "wipe_sectors_lba P param off (ucast (tot - off)) buffer (of_nat WIPE_BUFFER_SIZE) s = Some ((r, b, z), u)"
      using wipe_sectors_lba_returns [of param P off "ucast (tot - off)" buffer "of_nat WIPE_BUFFER_SIZE" s] assms(1) by auto
    then show ?thesis
      using False wvia_wipe_sectors_lba [of P param off "ucast (tot - off)" buffer "of_nat WIPE_BUFFER_SIZE" s "(r, b, z)" u "\<lambda>_. True"]
      by (intro that) (simp_all add: wipe_left_def)
  qed (rule that [of False ret buffer s], simp_all add: wipe_left_def)
  have clk: "extclock (tv u) \<noteq> 0" using assms(2) wvia_frame(2) [OF w(2)] by simp
  obtain q v where g: "update_progress P p ((tot - off) * ucast (512 :: u32)) u = Some (q, v)"
    by (rule update_progress_ok [OF clk assms(3), of P _ "\<lambda>_. True"])
  have "wipe_tail P param 512 tot (ret, buffer, off, p) s =
    Some (if failed then (r, u) else write_mbr P param r b v)"
    using g by (simp add: wipe_tail_def Let_def w(1))
  then show ?thesis by (metis surj_pair)
qed

lemma wipe_all_returns:
  assumes "plain_disk param" "extclock (tv s) \<noteq> 0"
  shows "\<exists>r t. wipe_all P param buffer s = Some (r, t)"
proof -
  obtain tot where d: "disk_sectors (opt s) param = (512, tot)"
    using plain_disk_sectors [OF assms(1)] by metis
  obtain p0 s2 p1 s3 where a: "reset_progress P (tot * 512) s = Some (p0, s2)" "update_progress P p0 0 s2 = Some (p1, s3)"
    "progress_ok p1" and clk3: "extclock (tv s3) \<noteq> 0"
    by (rule start_progress_ok [OF assms(2)])
  define k where "k = unat (tot * 512 div of_nat WIPE_BUFFER_SIZE)"
  have eq: "wipe_all P param buffer s =
      do { ((failed, v), s) \<leftarrow> wipe_blocks P param 512 k (-1, buffer, 0, p1) s3;
           if failed then Some (fst v, s) else wipe_tail P param 512 tot v s }"
    by (simp add: wipe_all_def d Let_def a(1,2) flip: k_def)
  show ?thesis
  proof (cases "has_ext param \<noteq> 0 \<or> last_sectors_per_track param \<noteq> 0")
    case True
    then obtain failed r b off p4 t where c: "wipe_blocks P param 512 k (-1, buffer, 0, p1) s3 = Some ((failed, r, b, off, p4), t)"
      "progress_ok p4" "wvia P (\<lambda>_. True) s3 t"
      using wipe_blocks_returns [OF True clk3 a(3)] by blast
    have "extclock (tv t) \<noteq> 0" using clk3 wvia_frame(2) [OF c(3)] by simp
    then obtain r' t' where "wipe_tail P param 512 tot (r, b, off, p4) t = Some (r', t')"
      using wipe_tail_returns [of param tot off t p4 P r b] True c(2) by blast
    then show ?thesis by (simp add: eq c(1))
  next
    case False
    then have "tot = 0" using d by (auto simp: disk_sectors_def)
    then have "k = 0" by (simp add: k_def)
    then show ?thesis
      using wipe_tail_returns [of param tot 0 s3 p1 P "-1" buffer] clk3 a(3) \<open>tot = 0\<close> by (simp add: eq)
  qed
qed

lemma wipe_disk_total: "extclock (tv s) \<noteq> 0 \<Longrightarrow> \<exists>ret t. wipe_disk P param s = Some (ret, t)"
proof -
  assume clk: "extclock (tv s) \<noteq> 0"
  obtain sk s1 where sk: "is_skiped_disk P param s = (sk, s1)" by (cases "is_skiped_disk P param s")
  obtain b s2 where ml: "malloc P (of_nat WIPE_BUFFER_SIZE) s1 = (b, s2)" by (cases "malloc P (of_nat WIPE_BUFFER_SIZE) s1")
  have v: "wvia P read_only s s2"
    using wvia_trans [OF wvia_is_skiped_disk [of P s param, unfolded sk snd_conv] wvia_malloc [of P read_only s1 "of_nat WIPE_BUFFER_SIZE"]]
    by (simp add: ml)
  show ?thesis
  proof (cases "sk = 0 \<and> b \<noteq> None")
    case True
    then obtain buf where b: "b = Some buf" by auto
    have "plain_disk param" by (rule not_skipped_plain [of P _ s]) (use True sk in simp)
    then obtain r t where "wipe_all P param buf s2 = Some (r, t)"
      using wipe_all_returns [of param s2 P buf] clk wvia_frame(2) [OF v] by auto
    then show ?thesis using True b by (simp add: wipe_disk_def sk ml)
  qed (auto simp: wipe_disk_def sk ml)
qed

section \<open>The frame of a wipe\<close>

text \<open>
  Without a bound on the size of the disk: a wipe changes only the mailbox, the devices, the
  screen and the random state, and in test mode all its requests read.
\<close>

lemma wvia_wipe_blocks_frame:
  assumes "wipe_blocks P param ss k v s = Some (r, t)"
    and "\<And>a. read_only a \<Longrightarrow> ok a" "\<And>a. opt_test (opt s) = 0 \<Longrightarrow> ok a"
  shows "wvia P ok s t"
  using assms(1,3)
proof (induction k arbitrary: v s)
  case (Suc k)
  obtain r0 buffer off p where v: "v = (r0, buffer, off, p)" by (cases v)
  from Suc.prems(1) v obtain ret b z u q w where
    w: "wipe_sectors_lba P param off (of_nat WIPE_BUFFER_SIZE div ss) buffer (of_nat WIPE_BUFFER_SIZE) s = Some ((ret, b, z), u)"
    and g: "update_progress P p (of_nat WIPE_BUFFER_SIZE) u = Some (q, w)"
    and e: "(if ret < 0 then Some ((True, ret, b, off + ucast (of_nat WIPE_BUFFER_SIZE div ss), q), w)
        else wipe_blocks P param ss k (ret, b, off + ucast (of_nat WIPE_BUFFER_SIZE div ss), q) w) = Some (r, t)"
    by (auto simp: Let_def split: bind_splits if_splits cong: if_cong)
  have u: "wvia P ok s w"
    by (rule wvia_trans [OF wvia_wipe_sectors_lba [OF w assms(2)] wvia_update_progress [OF g]]) (simp_all add: Suc.prems(2))
  show ?case
  proof (cases "ret < 0")
    case False
    then have "wvia P ok w t" using e Suc.IH [of "(ret, b, off + ucast (of_nat WIPE_BUFFER_SIZE div ss), q)" w] Suc.prems(2) wvia_frame(1) [OF u] by simp
    then show ?thesis by (rule wvia_trans [OF u])
  qed (use e u in simp)
qed simp

lemma wvia_wipe_tail_frame:
  assumes "wipe_tail P param ss tot v s = Some (r, t)"
    and rd: "\<And>a. read_only a \<Longrightarrow> ok a" and wr: "\<And>a. opt_test (opt s) = 0 \<Longrightarrow> ok a"
  shows "wvia P ok s t"
proof -
  obtain ret buffer off p where v: "v = (ret, buffer, off, p)" by (cases v)
  obtain failed r1 b1 u where
    w: "wipe_left P param (tot - off) ret buffer off s = Some ((failed, r1, b1), u)"
    using assms(1) by (auto simp: wipe_tail_def v Let_def split: bind_splits)
  have u: "wvia P ok s u"
  proof -
    have "wvia P ok s u'" if "wipe_sectors_lba P param o' n b z s = Some (x, u')" for o' n b z x u'
      by (rule wvia_wipe_sectors_lba [OF that rd]) (simp_all add: wr)
    then show ?thesis using w by (auto simp: wipe_left_def split: if_splits bind_splits)
  qed
  show ?thesis
  proof (cases failed)
    case True
    then show ?thesis using assms(1) u by (simp add: wipe_tail_def v w Let_def)
  next
    case False
    then obtain q y where g: "update_progress P p ((tot - off) * ucast ss) u = Some (q, y)"
      and t: "t = snd (write_mbr P param r1 b1 y)"
      using assms(1) by (auto simp: wipe_tail_def v w Let_def split: bind_splits)
    have y: "wvia P ok s y" by (rule wvia_trans [OF u wvia_update_progress [OF g]])
    show ?thesis
      unfolding t by (rule wvia_trans [OF y wvia_write_mbr]) (use wr wvia_frame(1) [OF y] rd in auto)
  qed
qed

lemma wvia_wipe_disk:
  assumes "wipe_disk P param s = Some (ret, t)"
    and rd: "\<And>a. read_only a \<Longrightarrow> ok a" and wr: "\<And>a. opt_test (opt s) = 0 \<Longrightarrow> ok a"
  shows "wvia P ok s t"
proof -
  obtain sk s1 where sk: "is_skiped_disk P param s = (sk, s1)" by (cases "is_skiped_disk P param s")
  have v1: "wvia P ok s s1"
    by (rule wvia_mono [OF wvia_is_skiped_disk [of P s param, unfolded sk snd_conv] rd])
  obtain b s2 where ml: "malloc P (of_nat WIPE_BUFFER_SIZE) s1 = (b, s2)" by (cases "malloc P (of_nat WIPE_BUFFER_SIZE) s1")
  have v2: "wvia P ok s s2"
    by (rule wvia_trans [OF v1 wvia_malloc [of P _ s1 "of_nat WIPE_BUFFER_SIZE", unfolded ml snd_conv]])
  show ?thesis
  proof (cases "sk = 0 \<and> b \<noteq> None")
    case True
    then obtain buf where b: "b = Some buf" by auto
    obtain s6 where w: "wipe_all P param buf s2 = Some (ret, s6)" and t: "t = free P s6"
      using assms(1) True b by (auto simp: wipe_disk_def sk ml split: bind_splits)
    obtain ss tot where d: "disk_sectors (opt s2) param = (ss, tot)" by (cases "disk_sectors (opt s2) param")
    obtain p0 s3 p1 s4 failed v s5 where st: "reset_progress P (tot * ucast ss) s2 = Some (p0, s3)" "update_progress P p0 0 s3 = Some (p1, s4)"
      "wipe_blocks P param ss (unat (tot * ucast ss div of_nat WIPE_BUFFER_SIZE)) (-1, buf, 0, p1) s4 = Some ((failed, v), s5)"
      "(if failed then Some (fst v, s5) else wipe_tail P param ss tot v s5) = Some (ret, s6)"
      using w by (auto simp: wipe_all_def d Let_def split: bind_splits)
    have v4: "wvia P ok s s4"
      by (rule wvia_trans [OF v2 wvia_trans [OF wvia_reset_progress [OF st(1)] wvia_update_progress [OF st(2)]]])
    have v5: "wvia P ok s s5"
      by (rule wvia_trans [OF v4 wvia_wipe_blocks_frame [OF st(3) rd]]) (simp_all add: wvia_frame(1) [OF v4] wr)
    have "wvia P ok s s6"
      using st(4) v5 wvia_trans [OF v5 wvia_wipe_tail_frame [of P param ss tot v s5 ret s6 ok]] wr rd wvia_frame(1) [OF v5]
      by (auto split: if_splits)
    then show ?thesis unfolding t by (rule wvia_trans [OF _ wvia_free])
  next
    case False
    then show ?thesis using assms(1) v1 v2 by (auto simp: wipe_disk_def sk ml split: if_splits)
  qed
qed

end
