(* ===== verification/Block_Wipe.thy ===== *)
theory Block_Wipe
  imports Wipe
begin

text \<open>
  From one block to a disk. The locale \<open>block_wiper\<close> is what \<^verbatim>\<open>wipe_disk\<close> relies on: the size of the
  disk and the effect of \<^verbatim>\<open>wipe_sectors_lba\<close> on one block. Its lemmas carry this through the loop over the blocks,
  the sectors left, the progress display and the buffer, for every way of addressing and
  every mode that keeps the contract.
\<close>

section \<open>Blocks of a disk\<close>

text \<open>From \<open>old\<close> to \<open>new\<close>, the blocks \<open>b\<close> to \<open>b + n - 1\<close> of a drive became zero and no other block changed.\<close>

definition zeroed :: "disks \<Rightarrow> disks \<Rightarrow> u8 \<Rightarrow> nat \<Rightarrow> nat \<Rightarrow> bool" where
  "zeroed old new drv b n \<longleftrightarrow>
     (\<forall>d k. new d k = (if d = drv \<and> b \<le> k \<and> k < b + n then replicate 512 0 else old d k))"

text \<open>They hold a buffer of 16 sectors, repeated from block 0 on.\<close>

definition filled :: "disks \<Rightarrow> disks \<Rightarrow> u8 \<Rightarrow> nat \<Rightarrow> nat \<Rightarrow> bytes \<Rightarrow> bool" where
  "filled old new drv b n buf \<longleftrightarrow>
     (\<forall>d k. new d k = (if d = drv \<and> b \<le> k \<and> k < b + n then chunk 512 (k mod 16) buf else old d k))"

text \<open>They hold the buffer from its start.\<close>

definition stored :: "disks \<Rightarrow> disks \<Rightarrow> u8 \<Rightarrow> nat \<Rightarrow> nat \<Rightarrow> bytes \<Rightarrow> bool" where
  "stored old new drv b n buf \<longleftrightarrow>
     (\<forall>d k. new d k = (if d = drv \<and> b \<le> k \<and> k < b + n then chunk 512 (k - b) buf else old d k))"

lemma filled_append: "filled x y drv b n buf \<Longrightarrow> filled y z drv (b + n) m buf \<Longrightarrow> filled x z drv b (n + m) buf"
  by (auto simp: filled_def)

lemma filled_none: "filled x x drv b 0 buf"
  by (auto simp: filled_def)

lemma filled_stored:
  assumes "stored x y drv b n buf" "n \<le> 16" "16 dvd b"
  shows "filled x y drv b n buf"
proof -
  have "k mod 16 = k - b" if k: "b \<le> k" "k < b + n" for k
  proof -
    obtain j where j: "b = 16 * j" using assms(3) by auto
    have "k = (k - b) + 16 * j" using k j by simp
    moreover have "k - b < 16" using k assms(2) by simp
    ultimately show ?thesis by (metis mod_less mod_mult_self2)
  qed
  then show ?thesis using assms(1) by (auto simp: filled_def stored_def)
qed

lemma filled_zeroed: "filled x y drv b n (replicate 8192 0) \<Longrightarrow> zeroed x y drv b n"
proof -
  have "chunk 512 (k mod 16) (replicate 8192 (0 :: u8)) = replicate 512 0" for k
    using mod_less_divisor [of 16 k] by (intro chunk_replicate) simp
  then show "filled x y drv b n (replicate 8192 0) \<Longrightarrow> zeroed x y drv b n"
    by (simp add: filled_def zeroed_def)
qed

lemma stored_stored: "stored x y drv b n buf \<Longrightarrow> stored y z drv b n buf' \<Longrightarrow> stored x z drv b n buf'"
  by (auto simp: stored_def)

text \<open>The heap has room for the wipe buffer.\<close>

definition heap_ok :: "'e platform \<Rightarrow> bool" where
  "heap_ok P \<longleftrightarrow> (\<forall>e. \<exists>b e'. p_malloc P (of_nat WIPE_BUFFER_SIZE) e = (Some b, e') \<and> length b = 8192)"

section \<open>The three passes of DOD\<close>

text \<open>Any writer that stores its buffer leaves zeros after the passes 00, FF and 00.\<close>

lemma dod_passes:
  fixes s :: "('e, 'z) world_scheme"
  assumes wr: "\<And>b s. length b = 8192 \<Longrightarrow> ready B s \<Longrightarrow> \<exists>sz t. wr b 8192 check s = ((0, b, sz), t) \<and> wvia P (\<lambda>_. True) s t \<and>
      ready B t \<and> stored (D (dev s)) (D (dev t)) drv off n b"
    and rd: "ready B s" and len: "length buffer = 8192"
  shows "\<exists>sz t. wipe_passes wr WIPE_MODE_DOD check 8192 [0..<pass_count WIPE_MODE_DOD] r buffer z s = ((0, replicate 8192 0, sz), t) \<and>
    wvia P (\<lambda>_. True) s t \<and> ready B t \<and> stored (D (dev s)) (D (dev t)) drv off n (replicate 8192 0)"
proof -
  let ?z = "replicate 8192 0 :: bytes" and ?f = "replicate 8192 0xFF :: bytes"
  obtain sz1 t1 where w1: "wr ?z 8192 check s = ((0, ?z, sz1), t1)" "wvia P (\<lambda>_. True) s t1" "ready B t1" "stored (D (dev s)) (D (dev t1)) drv off n ?z"
    using wr [OF length_replicate rd] by blast
  obtain sz2 t2 where w2: "wr ?f 8192 check t1 = ((0, ?f, sz2), t2)" "wvia P (\<lambda>_. True) t1 t2" "ready B t2" "stored (D (dev t1)) (D (dev t2)) drv off n ?f"
    using wr [OF length_replicate w1(3)] by blast
  obtain sz3 t3 where w3: "wr ?z 8192 check t2 = ((0, ?z, sz3), t3)" "wvia P (\<lambda>_. True) t2 t3" "ready B t3" "stored (D (dev t2)) (D (dev t3)) drv off n ?z"
    using wr [OF length_replicate w2(3)] by blast
  have "[0..<pass_count WIPE_MODE_DOD] = [0, 1, 2]" by (simp add: pass_count_def numeral_3_eq_3 numeral_2_eq_2)
  then have "wipe_passes wr WIPE_MODE_DOD check 8192 [0..<pass_count WIPE_MODE_DOD] r buffer z s = ((0, ?z, sz3), t3)"
    using len w1(1) w2(1) w3(1) by (simp add: fill_pass_def)
  then show ?thesis
    using w3(3) wvia_trans [OF wvia_trans [OF w1(2) w2(2)] w3(2)] stored_stored [OF stored_stored [OF w1(4) w2(4)] w3(4)] by blast
qed

section \<open>The contract of one block\<close>

text \<open>
  \<open>cond P D G B param p tot\<close> are the conditions on machine, disk and options for a disk of \<open>tot\<close> sectors, and
  \<open>fill\<close> is what becomes of the buffer; \<open>block\<close> says that the buffer so filled is stored, for
  the blocks of at most 16 sectors that \<^verbatim>\<open>wipe_disk\<close> asks for, which start at multiples of 16.
\<close>

locale block_wiper =
  fixes cond :: "'e platform \<Rightarrow> ('e \<Rightarrow> disks) \<Rightarrow> (u8 \<Rightarrow> nat \<times> nat) \<Rightarrow> nat \<Rightarrow> disk_param \<Rightarrow> options_t \<Rightarrow> nat \<Rightarrow> bool"
    and fill :: "bytes \<Rightarrow> bytes"
  assumes image: "cond P D G B param p tot \<Longrightarrow> disk_image P D G B"
    and sectors: "cond P D G B param p tot \<Longrightarrow> \<exists>w. disk_sectors p param = (512, w) \<and> unat w = tot"
    and extent: "cond P D G B param p tot \<Longrightarrow> 0 < tot \<and> tot < 2 ^ 55"
    and plain: "cond P D G B param p tot \<Longrightarrow> is_cdrom param = 0 \<and> opt_mbr p = 0"
    and fill_length: "length buffer = 8192 \<Longrightarrow> length (fill buffer) = 8192"
    and fill_fill: "fill (fill buffer) = fill buffer"
    and block: "cond P D G B param (opt s) tot \<Longrightarrow> ready B s \<Longrightarrow> length buffer = 8192 \<Longrightarrow>
      0 < unat n \<Longrightarrow> unat n \<le> 16 \<Longrightarrow> unat off + unat n \<le> tot \<Longrightarrow> 16 dvd unat off \<Longrightarrow>
      \<exists>sz t. wipe_sectors_lba P param off n buffer 8192 s = Some ((0, fill buffer, sz), t) \<and>
        wvia P (\<lambda>_. True) s t \<and> ready B t \<and>
        stored (D (dev s)) (D (dev (t :: ('e, 'z) world_scheme))) (disk_id param) (unat off) (unat n) (fill buffer)"
begin

lemma blocks:
  assumes c: "cond P D G B param p tot"
  shows "opt s = p \<Longrightarrow> ready B s \<Longrightarrow> length buffer = 8192 \<Longrightarrow> progress_ok q \<Longrightarrow> extclock (tv s) \<noteq> 0 \<Longrightarrow>
    16 dvd unat off \<Longrightarrow> unat off + 16 * k \<le> tot \<Longrightarrow>
    \<exists>q' t off'. wipe_blocks P param 512 k (ret, buffer, off, q) s =
        Some ((False, if k = 0 then ret else 0, if k = 0 then buffer else fill buffer, off', q'), t) \<and> progress_ok q' \<and>
      unat off' = unat off + 16 * k \<and> wvia P (\<lambda>_. True) s t \<and> ready B (t :: ('e, 'z) world_scheme) \<and>
      filled (D (dev s)) (D (dev t)) (disk_id param) (unat off) (16 * k) (fill buffer)"
proof (induction k arbitrary: ret buffer off q s)
  case 0
  then show ?case by (auto simp: filled_none)
next
  case (Suc k)
  have im: "disk_image P D G B" and rb: "rbuf_fixed P" using image [OF c] by (simp_all add: disk_image_def)
  have cs: "cond P D G B param (opt s) tot" using c Suc.prems(1) by simp
  have n: "0 < unat (16 :: u32)" "unat (16 :: u32) \<le> 16" "unat off + unat (16 :: u32) \<le> tot" using Suc.prems(7) by simp_all
  obtain sz u where w: "wipe_sectors_lba P param off 16 buffer 8192 s = Some ((0, fill buffer, sz), u)"
    "wvia P (\<lambda>_. True) s u" "ready B u" "stored (D (dev s)) (D (dev u)) (disk_id param) (unat off) (unat (16 :: u32)) (fill buffer)"
    using block [OF cs Suc.prems(2,3) n Suc.prems(6)] by blast
  have clk: "extclock (tv u) \<noteq> 0" using Suc.prems(5) wvia_frame(2) [OF w(2)] by simp
  obtain r v where g: "update_progress P q 8192 u = Some (r, v)" "wvia P read_only u v" "progress_ok r"
    by (rule update_progress_ok [OF clk Suc.prems(4), of P 8192 read_only])
  have o: "unat (off + 16) = unat off + 16"
    using Suc.prems(7) extent [OF c] by (simp add: unat_word_ariths)
  have v: "wvia P (\<lambda>_. True) s v" using wvia_trans [OF w(2) wvia_mono [OF g(2)]] by simp
  have Dv: "D (dev v) = D (dev u)" by (rule disk_image_read_only [OF im wvia_frame(9) [OF g(2)]])
  have rv: "ready B v" by (rule ready_wvia [OF w(3) g(2) rb])
  have "\<exists>q' t off'. wipe_blocks P param 512 k (0, fill buffer, off + 16, r) v =
        Some ((False, if k = 0 then 0 else 0, if k = 0 then fill buffer else fill (fill buffer), off', q'), t) \<and> progress_ok q' \<and>
      unat off' = unat (off + 16) + 16 * k \<and> wvia P (\<lambda>_. True) v t \<and> ready B t \<and>
      filled (D (dev v)) (D (dev t)) (disk_id param) (unat (off + 16)) (16 * k) (fill (fill buffer))"
    by (rule Suc.IH) (use rv g(3) Suc.prems fill_length wvia_frame(1,2) [OF v] o in simp_all)
  then obtain q' t off' where r: "wipe_blocks P param 512 k (0, fill buffer, off + 16, r) v = Some ((False, 0, fill buffer, off', q'), t)"
    "progress_ok q'" "unat off' = unat off + 16 + 16 * k" "wvia P (\<lambda>_. True) v t" "ready B t"
    "filled (D (dev u)) (D (dev t)) (disk_id param) (unat off + 16) (16 * k) (fill buffer)"
    unfolding o Dv by (auto simp: fill_fill)
  have "filled (D (dev s)) (D (dev t)) (disk_id param) (unat off) (16 + 16 * k) (fill buffer)"
    by (rule filled_append [OF filled_stored r(6)]) (use w(4) Suc.prems(6) in simp_all)
  moreover have "wipe_blocks P param 512 (Suc k) (ret, buffer, off, q) s = Some ((False, 0, fill buffer, off', q'), t)"
    using w(1) g(1) r(1) by (simp add: blocks_512 WIPE_BUFFER_SIZE_def Let_def)
  ultimately show ?case
    using r wvia_trans [OF v r(4)] by auto
qed

lemma left:
  assumes c: "cond P D G B param (opt s) (unat tot)" and rd: "ready B s" and len: "length buffer = 8192" and fb: "fill buffer = b0"
    and off: "unat off \<le> unat tot" "unat tot - unat off < 16" "16 dvd unat off"
    and ret: "off = tot \<Longrightarrow> ret = 0"
  shows "\<exists>b t. wipe_left P param (tot - off) ret buffer off s = Some ((False, 0, b), t) \<and>
    wvia P (\<lambda>_. True) s t \<and> ready B (t :: ('e, 'z) world_scheme) \<and>
    filled (D (dev s)) (D (dev t)) (disk_id param) (unat off) (unat tot - unat off) b0"
proof (cases "tot - off = 0")
  case True
  then show ?thesis using ret rd by (auto simp: wipe_left_def filled_none)
next
  case False
  have l: "unat (tot - off) = unat tot - unat off" using off(1) by (simp add: unat_sub word_le_nat_alt)
  have l': "unat (ucast (tot - off) :: u32) = unat tot - unat off"
    using off(2) unfolding unat_u64_u32 l by simp
  have pos: "0 < unat tot - unat off" using False l by (metis gr_zeroI unat_eq_zero)
  have n: "0 < unat (ucast (tot - off) :: u32)" "unat (ucast (tot - off) :: u32) \<le> 16" "unat off + unat (ucast (tot - off) :: u32) \<le> unat tot"
    using pos off by (simp_all add: l')
  obtain sz u where "wipe_sectors_lba P param off (ucast (tot - off)) buffer 8192 s = Some ((0, b0, sz), u)"
    "wvia P (\<lambda>_. True) s u" "ready B u"
    "stored (D (dev s)) (D (dev u)) (disk_id param) (unat off) (unat (ucast (tot - off) :: u32)) b0"
    using block [OF c rd len n off(3)] fb by blast
  then show ?thesis using False off filled_stored [of "D (dev s)" "D (dev u)"] by (auto simp: wipe_left_def WIPE_BUFFER_SIZE_def l')
qed

lemma everything:
  assumes c: "cond P D G B param (opt s) tot" and rd: "ready B s" and len: "length buffer = 8192" and clk: "extclock (tv s) \<noteq> 0"
  shows "\<exists>t. wipe_all P param buffer s = Some (0, t :: ('e, 'z) world_scheme) \<and>
    filled (D (dev s)) (D (dev t)) (disk_id param) 0 tot (fill buffer)"
proof -
  have im: "disk_image P D G B" and rb: "rbuf_fixed P" using image [OF c] by (simp_all add: disk_image_def)
  obtain w where d: "disk_sectors (opt s) param = (512, w)" and w: "tot = unat w" using sectors [OF c] by blast
  note size = extent [OF c, THEN conjunct1] extent [OF c, THEN conjunct2]
  obtain p0 s2 p1 s3 where a: "reset_progress P (w * 512) s = Some (p0, s2)" "update_progress P p0 0 s2 = Some (p1, s3)"
    "progress_ok p1" and v3: "wvia P read_only s s3"
    by (rule start_progress_ok [OF clk, where ok = read_only])
  have D3: "D (dev s3) = D (dev s)" by (rule disk_image_read_only [OF im wvia_frame(9) [OF v3]])
  let ?k = "unat w div 16"
  have "\<exists>q' t off'. wipe_blocks P param 512 ?k (-1, buffer, 0, p1) s3 =
        Some ((False, if ?k = 0 then -1 else 0, if ?k = 0 then buffer else fill buffer, off', q'), t) \<and> progress_ok q' \<and>
      unat off' = unat (0 :: u64) + 16 * ?k \<and> wvia P (\<lambda>_. True) s3 t \<and> ready B t \<and>
      filled (D (dev s3)) (D (dev t)) (disk_id param) (unat (0 :: u64)) (16 * ?k) (fill buffer)"
    by (rule blocks [OF c])
       (use ready_wvia [OF rd v3 rb] len wvia_frame(1,2) [OF v3] a(3) clk in \<open>simp_all add: w\<close>)
  then obtain b4 p4 s4 off where bl: "wipe_blocks P param 512 ?k (-1, buffer, 0, p1) s3 =
        Some ((False, if ?k = 0 then -1 else 0, b4, off, p4), s4)" "progress_ok p4"
      "unat off = 16 * ?k" "wvia P (\<lambda>_. True) s3 s4" "ready B s4"
      "filled (D (dev s)) (D (dev s4)) (disk_id param) 0 (16 * ?k) (fill buffer)"
      and b4: "b4 = (if ?k = 0 then buffer else fill buffer)"
    unfolding D3 by auto
  have b4': "length b4 = 8192" "fill b4 = fill buffer" using b4 len by (simp_all add: fill_length fill_fill)
  note fr = wvia_frame(1,2) [OF bl(4)] wvia_frame(1,2) [OF v3]
  have ot: "unat off \<le> unat w" "unat w - unat off < 16" "16 dvd unat off" by (simp_all add: bl(3))
  have z: "off = w \<Longrightarrow> (if ?k = 0 then -1 else 0) = (0 :: int)" using bl(3) size(1) w by (auto split: if_splits)
  have c4: "cond P D G B param (opt s4) (unat w)" using c fr w by simp
  obtain b5 s5 where e: "wipe_left P param (w - off) (if ?k = 0 then -1 else 0) b4 off s4 = Some ((False, 0, b5), s5)"
    "wvia P (\<lambda>_. True) s4 s5" "ready B s5"
    "filled (D (dev s4)) (D (dev s5)) (disk_id param) (unat off) (unat w - unat off) (fill buffer)"
    using left [OF c4 bl(5) b4' ot z] by blast
  note fr5 = wvia_frame(1,2) [OF e(2)]
  have clk5: "extclock (tv s5) \<noteq> 0" using clk fr fr5 by simp
  obtain p6 s6 where f: "update_progress P p4 ((w - off) * 512) s5 = Some (p6, s6)" "wvia P read_only s5 s6"
    by (rule update_progress_ok [OF clk5 bl(2), of P "(w - off) * 512" read_only])
  have D6: "D (dev s6) = D (dev s5)" by (rule disk_image_read_only [OF im wvia_frame(9) [OF f(2)]])
  have mb: "opt_mbr (opt s6) = 0" using plain [OF c] fr fr5 wvia_frame(1) [OF f(2)] by simp
  have k: "unat (w * 512 div of_nat WIPE_BUFFER_SIZE) = ?k"
    using full_blocks [of w] size(2) w by (simp add: WIPE_BUFFER_SIZE_def)
  have "wipe_all P param buffer s = Some (0, s6)"
    using f(1) by (simp add: wipe_all_def d Let_def a(1,2) bl(1) k wipe_tail_def e(1) write_mbr_def mb)
  moreover have "filled (D (dev s)) (D (dev s6)) (disk_id param) 0 (16 * ?k + (unat w - 16 * ?k)) (fill buffer)"
    by (rule filled_append [OF bl(6)]) (use e(4) in \<open>simp add: D6 bl(3)\<close>)
  ultimately show ?thesis by (simp add: div_times_less_eq_dividend w)
qed

text \<open>The wipe of a disk without the label: \<open>buf\<close> is the buffer as the heap gives it after the search for the label.\<close>

lemma disk:
  fixes s :: "('e, 'z) world_scheme"
  assumes c: "cond P D G B param (opt s) tot" and heap: "heap_ok P" and rd: "ready B s" and clk: "extclock (tv s) \<noteq> 0"
    and unlabelled: "fst (contain_fat_label P (opt s) param (opt_skip (opt s)) s) = 0"
  shows "\<exists>t s1 buf e. wipe_disk P param s = Some (0, t) \<and> is_skiped_disk P param s = (0, s1) \<and>
    p_malloc P (of_nat WIPE_BUFFER_SIZE) (dev s1) = (Some buf, e) \<and> filled (D (dev s)) (D (dev t)) (disk_id param) 0 tot (fill buf)"
proof -
  have im: "disk_image P D G B" and rb: "rbuf_fixed P" using image [OF c] by (simp_all add: disk_image_def)
  obtain s1 where sk: "is_skiped_disk P param s = (0, s1)"
    using unlabelled plain [OF c] by (cases "contain_fat_label P (opt s) param (opt_skip (opt s)) s") (simp add: is_skiped_disk_def)
  obtain buf e where b: "p_malloc P (of_nat WIPE_BUFFER_SIZE) (dev s1) = (Some buf, e)" "length buf = 8192"
    using heap unfolding heap_ok_def by blast
  then have ml: "malloc P (of_nat WIPE_BUFFER_SIZE) s1 = (Some buf, s1\<lparr>dev := e\<rparr>)" by (simp add: malloc_def)
  let ?s2 = "s1\<lparr>dev := e\<rparr>"
  have v: "wvia P read_only s ?s2"
    using wvia_trans [OF wvia_is_skiped_disk [of P s param, unfolded sk snd_conv] wvia_malloc [of P read_only s1 "of_nat WIPE_BUFFER_SIZE"]]
    by (simp add: sk ml)
  have D2: "D (dev ?s2) = D (dev s)" by (rule disk_image_read_only [OF im wvia_frame(9) [OF v]])
  have c2: "cond P D G B param (opt ?s2) tot" and clk2: "extclock (tv ?s2) \<noteq> 0" using c clk wvia_frame(1,2) [OF v] by simp_all
  obtain t where t: "wipe_all P param buf ?s2 = Some (0, t)"
    "filled (D (dev ?s2)) (D (dev t)) (disk_id param) 0 tot (fill buf)"
    using everything [OF c2 ready_wvia [OF rd v rb] b(2) clk2] by blast
  have "D (dev (free P t)) = D (dev t)"
    by (rule disk_image_read_only [OF im wvia_frame(9) [OF wvia_free]])
  then show ?thesis using t D2 b(1) by (auto simp: wipe_disk_def sk ml)
qed

end

end
