(* ===== verification/Erase.thy ===== *)
theory Erase
  imports Block_Wipe
begin

text \<open>
  What a wipe achieves: under the contract of the BIOS every sector of a disk with
  extended support is zero at the end, test mode writes nothing, the wipe always returns;
  and what it does not: an error of the BIOS is never noticed. The sample disk and
  machine of the witnesses are defined here.
\<close>

section \<open>A wipe leaves zeros\<close>

text \<open>The hypotheses on the machine and the disk, and the mode, for a wipe in LBA blocks.\<close>

definition lba_machine :: "'e platform \<Rightarrow> ('e \<Rightarrow> disks) \<Rightarrow> (u8 \<Rightarrow> nat \<times> nat) \<Rightarrow> nat \<Rightarrow> (u8 \<Rightarrow> nat) \<Rightarrow> bool" where
  "lba_machine P D G B cap \<longleftrightarrow> disk_image P D G B \<and> accepts P cap"

definition erase_mode :: "options_t \<Rightarrow> bool" where
  "erase_mode p \<longleftrightarrow> opt_test p = 0 \<and> opt_mode p \<in> {WIPE_MODE_FAST, WIPE_MODE_DOD}"

lemma write_block:
  fixes s :: "('e, 'z) world_scheme"
  assumes m: "lba_machine P D G B cap" and rd: "ready B s" and disk: "lba_disk param"
    and n: "0 < unat n" "unat n \<le> 16" "unat off + unat n \<le> unat (ext_nsectors (ext param))"
    and cap: "cap (disk_id param) = unat (ext_nsectors (ext param))" and len: "length buffer = 8192"
  obtains sz t where "write_sectors_lba P param off n buffer 8192 check s = ((0, buffer, sz), t)"
    "wvia P (\<lambda>_. True) s t" "ready B t"
    "stored (D (dev s)) (D (dev t)) (disk_id param) (unat off) (unat n) buffer"
proof -
  obtain ret b sz t where w: "write_sectors_lba P param off n buffer 8192 check s = ((ret, b, sz), t)"
    by (metis prod.collapse)
  have im: "disk_image P D G B" "accepts P cap" using m by (simp_all add: lba_machine_def)
  have lt: "off < ext_nsectors (ext param)" using n by (simp add: word_less_nat_alt)
  have sz: "unat n * 512 \<le> unat (8192 :: u32)" "unat (8192 :: u32) \<le> MAX_SECTOR_BUFFER_SIZE" "unat (8192 :: u32) \<le> length buffer"
    using n len by (simp_all add: MAX_SECTOR_BUFFER_SIZE_def BIOS_MAX_SECTOR_CNT_def)
  note img = write_sectors_lba_image [OF im(1) rd disk lt sz w]
  have r: "ret = 0" "\<And>j. j < unat n \<Longrightarrow> D (dev t) (disk_id param) (unat off + j) = chunk 512 j buffer"
    using img(3) [OF im(2) n(1)] n(3) cap by auto
  have v: "wvia P (\<lambda>_. True) s t"
    using wvia_via [OF via_write_sectors_lba [of param off n "\<lambda>_. True" P s buffer 8192 check]] w by simp
  have rb: "rbuf_fixed P" using im(1) by (simp add: disk_image_def)
  show thesis
  proof (rule that [of sz t])
    show "write_sectors_lba P param off n buffer 8192 check s = ((0, buffer, sz), t)" using w img(1) r(1) by simp
    show "stored (D (dev s)) (D (dev t)) (disk_id param) (unat off) (unat n) buffer"
      unfolding stored_def
    proof (intro allI)
      fix d k
      show "D (dev t) d k = (if d = disk_id param \<and> unat off \<le> k \<and> k < unat off + unat n
          then chunk 512 (k - unat off) buffer else D (dev s) d k)"
        using r(2) [of "k - unat off"] img(2) [of d k] by auto
    qed
  qed (use v ready_wvia [OF rd v rb] in auto)
qed

lemma wipe_sectors_zero:
  assumes m: "lba_machine P D G B cap" and rd: "ready B s" and disk: "lba_disk param"
    and n: "0 < unat n" "unat n \<le> 16" "unat off + unat n \<le> unat (ext_nsectors (ext param))"
    and cap: "cap (disk_id param) = unat (ext_nsectors (ext param))" and len: "length buffer = 8192"
    and mode: "erase_mode (opt s)"
  obtains sz t where "wipe_sectors_lba P param off n buffer 8192 s = Some ((0, replicate 8192 0, sz), t)"
    "wvia P (\<lambda>_. True) s t" "ready B t" "stored (D (dev s)) (D (dev t)) (disk_id param) (unat off) (unat n) (replicate 8192 0)"
proof -
  let ?z = "replicate 8192 0 :: bytes"
  note wb = write_block [OF m _ disk n cap]
  have ext: "has_ext param \<noteq> 0" using disk by (simp add: lba_disk_def)
  show thesis
  proof (cases "opt_mode (opt s) = WIPE_MODE_FAST")
    case True
    obtain sz t where w: "write_sectors_lba P param off n ?z 8192 (opt_check (opt s)) s = ((0, ?z, sz), t)"
      "wvia P (\<lambda>_. True) s t" "ready B t"
      "stored (D (dev s)) (D (dev t)) (disk_id param) (unat off) (unat n) ?z"
      by (rule wb [where buffer = ?z and check = "opt_check (opt s)", OF rd length_replicate])
    show ?thesis
      by (rule that [of sz t])
         (use True mode ext len w n in \<open>simp_all add: wipe_sectors_lba_def Let_def erase_mode_def\<close>)
  next
    case False
    then have dod: "opt_mode (opt s) = WIPE_MODE_DOD" using mode by (auto simp: erase_mode_def)
    define c where "c = c_bool (opt_check (opt s) = 0 \<longrightarrow> WIPE_MODE_DOD = WIPE_MODE_OCD)"
    have "\<exists>sz t. write_sectors_lba P param off n b 8192 c s' = ((0, b, sz), t) \<and> wvia P (\<lambda>_. True) s' t \<and> ready B t \<and>
        stored (D (dev s')) (D (dev t)) (disk_id param) (unat off) (unat n) b"
      if "length b = 8192" "ready B s'" for b and s' :: "('a, 'b) world_scheme"
      by (rule wb [where buffer = b and check = c, OF that(2,1)]) blast
    from dod_passes [of B "\<lambda>b z c. write_sectors_lba P param off n b z c", OF this rd len]
    obtain sz t where "wipe_passes (\<lambda>b z c. write_sectors_lba P param off n b z c) WIPE_MODE_DOD c 8192 [0..<pass_count WIPE_MODE_DOD] (-1) buffer 8192 s =
        ((0, ?z, sz), t)" "wvia P (\<lambda>_. True) s t" "ready B t"
        "stored (D (dev s)) (D (dev t)) (disk_id param) (unat off) (unat n) ?z" by blast
    then show ?thesis
      using that dod mode ext False by (simp add: wipe_sectors_lba_def Let_def erase_mode_def flip: c_def)
  qed
qed

text \<open>The LBA path of \<^verbatim>\<open>wipe_sectors_lba\<close> keeps the contract of a block and fills the disk with zeros.\<close>

definition lba_cond :: "'e platform \<Rightarrow> ('e \<Rightarrow> disks) \<Rightarrow> (u8 \<Rightarrow> nat \<times> nat) \<Rightarrow> nat \<Rightarrow> disk_param \<Rightarrow> options_t \<Rightarrow> nat \<Rightarrow> bool" where
  "lba_cond P D G B param p tot \<longleftrightarrow>
     (\<exists>cap. lba_machine P D G B cap \<and> cap (disk_id param) = tot) \<and> lba_disk param \<and> unat (ext_nsectors (ext param)) = tot \<and>
     0 < tot \<and> tot < 2 ^ 55 \<and> erase_mode p \<and> opt_force_chs p = 0 \<and> opt_mbr p = 0"

interpretation lba: block_wiper lba_cond "\<lambda>_. replicate 8192 0"
proof unfold_locales
  fix P :: "'e platform" and D G B param tot n off and s :: "('e, 'z) world_scheme" and buffer :: bytes
  assume c: "lba_cond P D G B param (opt s) tot" and rd: "ready B s" and len: "length buffer = 8192"
    and n: "0 < unat (n :: u32)" "unat n \<le> 16" "unat (off :: u64) + unat n \<le> tot" "16 dvd unat off"
  obtain cap where m: "lba_machine P D G B cap" "cap (disk_id param) = tot" using c by (auto simp: lba_cond_def)
  have d: "lba_disk param" "erase_mode (opt s)" "unat (ext_nsectors (ext param)) = tot" using c by (simp_all add: lba_cond_def)
  obtain sz t where "wipe_sectors_lba P param off n buffer 8192 s = Some ((0, replicate 8192 0, sz), t)"
    "wvia P (\<lambda>_. True) s t" "ready B t" "stored (D (dev s)) (D (dev t)) (disk_id param) (unat off) (unat n) (replicate 8192 0)"
    by (rule wipe_sectors_zero [OF m(1) rd d(1) n(1,2) _ _ len d(2), of off]) (use n(3) m(2) d(3) in simp_all)
  then show "\<exists>sz t. wipe_sectors_lba P param off n buffer 8192 s = Some ((0, replicate 8192 0, sz), t) \<and>
      wvia P (\<lambda>_. True) s t \<and> ready B t \<and>
      stored (D (dev s)) (D (dev t)) (disk_id param) (unat off) (unat n) (replicate 8192 0)" by blast
qed (auto simp: lba_cond_def lba_machine_def disk_sectors_def lba_disk_def is_cdrom_def)

lemma wipe_disk_zero:
  fixes s :: "('e, 'z) world_scheme"
  assumes m: "lba_machine P D G B cap" and heap: "heap_ok P" and rd: "ready B s" and disk: "lba_disk param"
    and cap: "cap (disk_id param) = unat (ext_nsectors (ext param))"
    and size: "0 < unat (ext_nsectors (ext param))" "unat (ext_nsectors (ext param)) < 2 ^ 55"
    and mode: "erase_mode (opt s)" and lba: "opt_force_chs (opt s) = 0" and mbr: "opt_mbr (opt s) = 0"
    and clk: "extclock (tv s) \<noteq> 0"
    and unlabelled: "fst (contain_fat_label P (opt s) param (opt_skip (opt s)) s) = 0"
  shows "\<exists>t. wipe_disk P param s = Some (0, t) \<and>
    zeroed (D (dev s)) (D (dev t)) (disk_id param) 0 (unat (ext_nsectors (ext param)))"
proof -
  have "lba_cond P D G B param (opt s) (unat (ext_nsectors (ext param)))"
    using m disk cap size mode lba mbr by (auto simp: lba_cond_def)
  from lba.disk [OF this heap rd clk unlabelled] show ?thesis using filled_zeroed by blast
qed

text \<open>
  C5. Wiping a disk with extended BIOS support in mode FAST or DOD, with none of the options
  \<^verbatim>\<open>test\<close>, \<^verbatim>\<open>mbr\<close> and \<^verbatim>\<open>force_chs\<close>, returns 0 and leaves every sector of the disk zero and
  every other sector of every drive unchanged, when the search for the label to skip finds none. The
  disk has sectors of 512 bytes, at least one and fewer than \<open>2 ^ 55\<close> of them, as many as the drive
  really has; the BIOS carries out the writes within the capacity of the drive, the heap has room for the wipe
  buffer and the clock is calibrated.
\<close>

theorem wipe_disk_erases:
  fixes s :: "('e, 'z) world_scheme"
  assumes m: "lba_machine P D G B cap" and heap: "heap_ok P" and rd: "ready B s" and disk: "lba_disk param"
    and cap: "cap (disk_id param) = unat (ext_nsectors (ext param))"
    and size: "0 < unat (ext_nsectors (ext param))" "unat (ext_nsectors (ext param)) < 2 ^ 55"
    and mode: "erase_mode (opt s)" and lba: "opt_force_chs (opt s) = 0" and mbr: "opt_mbr (opt s) = 0"
    and clk: "extclock (tv s) \<noteq> 0"
    and unlabelled: "fst (contain_fat_label P (opt s) param (opt_skip (opt s)) s) = 0"
  shows "\<exists>t. wipe_disk P param s = Some (0, t) \<and>
    zeroed (D (dev s)) (D (dev t)) (disk_id param) 0 (unat (ext_nsectors (ext param)))"
  by (rule wipe_disk_zero [OF assms])

section \<open>A sample disk\<close>

text \<open>A drive of 20 sectors that is addressed by LBA only.\<close>

definition sample_disk :: disk_param where
  "sample_disk = zero_param\<lparr>disk_id := 0x80, has_ext := 1, ext := zero_ext\<lparr>ext_nsectors := 20, ext_bytes_per_sector := 512\<rparr>\<rparr>"

definition sample_cap :: "u8 \<Rightarrow> nat" where
  "sample_cap d = 20"

abbreviation sample_pc :: "ideal_dev platform" where
  "sample_pc \<equiv> ideal (\<lambda>_. (16, 63))"

lemma sample_machine: "lba_machine sample_pc i_disks (\<lambda>_. (16, 63)) B sample_cap"
  by (simp add: lba_machine_def ideal_disk_image ideal_accepts)

lemma sample_heap: "heap_ok sample_pc"
  by (simp add: heap_ok_def ideal_def WIPE_BUFFER_SIZE_def)

lemma sample_ready: "ready 0x10200 (sample_world e p)"
  by (simp add: ready_def sample_world_def sample_ptrs_def blank_area_def)

lemma sample_unlabelled: "fst (contain_fat_label P p sample_disk str s) = 0"
  by (simp add: contain_fat_label_def read_sectors_chs_def sector_chs_rw_def varify_chs_def chs_max_defs chs_outside_def
      sample_disk_def zero_param_def chs_sector_size_def BIOS_MAX_SECTOR_CNT_def MAX_SECTOR_BUFFER_SIZE_def)

lemma sample_disk_sel [simp]:
  "disk_id sample_disk = 0x80" "has_ext sample_disk = 1" "lba_disk sample_disk" "last_sectors_per_track sample_disk = 0"
  "ext_nsectors (ext sample_disk) = 20" "ext_bytes_per_sector (ext sample_disk) = 512"
  by (simp_all add: sample_disk_def zero_param_def zero_ext_def lba_disk_def)

lemma sample_world_sel [simp]:
  "dev (sample_world e p) = e" "opt (sample_world e p) = p" "tv (sample_world e p) = sample_timer"
  "extclock sample_timer = 100000"
  by (simp_all add: sample_world_def sample_timer_def)

theorem wipe_disk_erases_witness:
  "\<exists>t. wipe_disk sample_pc sample_disk (sample_world sample_dev (set_default_opt\<lparr>opt_mode := WIPE_MODE_DOD\<rparr>)) = Some (0, t) \<and>
     zeroed (i_disks sample_dev) (i_disks (dev t)) 0x80 0 20"
proof -
  let ?s = "sample_world sample_dev (set_default_opt\<lparr>opt_mode := WIPE_MODE_DOD\<rparr>)"
  have "\<exists>t. wipe_disk sample_pc sample_disk ?s = Some (0, t) \<and>
     zeroed (i_disks (dev ?s)) (i_disks (dev t)) (disk_id sample_disk) 0 (unat (ext_nsectors (ext sample_disk)))"
    by (rule wipe_disk_erases [OF sample_machine sample_heap sample_ready])
       (simp_all add: sample_unlabelled sample_cap_def erase_mode_def set_default_opt_def)
  then show ?thesis by simp
qed

theorem wipe_disk_requests_witness:
  "\<exists>ret t. wipe_disk sample_pc sample_disk (sample_world sample_dev set_default_opt) = Some (ret, t) \<and>
     reaches sample_pc (wipe_request set_default_opt sample_disk) sample_dev (dev t)"
proof -
  let ?s = "sample_world sample_dev set_default_opt"
  obtain t where t: "wipe_disk sample_pc sample_disk ?s = Some (0, t)"
    using wipe_disk_zero [OF sample_machine sample_heap sample_ready, of sample_disk sample_dev set_default_opt]
    by (auto simp: sample_unlabelled sample_cap_def erase_mode_def set_default_opt_def)
  have "reaches sample_pc (wipe_request (opt ?s) sample_disk) (dev ?s) (dev t)"
    by (rule wipe_disk_requests [OF t]) (simp add: disk_sectors_def set_default_opt_def)
  then show ?thesis using t by auto
qed

text \<open>
  In test mode nothing is written: every sector of every drive is what it was before,
  for every disk and whatever errors occur.
\<close>

theorem wipe_disk_test_mode:
  assumes "wipe_disk P param s = Some (ret, t)" "opt_test (opt s) \<noteq> 0" "disk_image P D G B"
  shows "D (dev t) = D (dev s)"
proof -
  have "wvia P read_only s t" by (rule wvia_wipe_disk [OF assms(1)]) (simp_all add: assms(2))
  then show ?thesis by (intro disk_image_read_only [OF assms(3)]) (rule wvia_frame(9))
qed

text \<open>
  C12. Once the clock is calibrated, wiping any disk without the option \<^verbatim>\<open>debug\<close> returns, whatever the BIOS answers: no
  division by zero is reached in the address conversion, the block count or the progress
  display, and the loops end. With \<^verbatim>\<open>debug\<close> the log calls, which are left out here, wait for
  the serial port at every character; without it they do nothing.
\<close>

theorem wipe_disk_returns:
  fixes s :: "('e, 'z) world_scheme"
  assumes "extclock (tv s) \<noteq> 0" "opt_debug (opt s) = 0"
  shows "\<exists>ret t. wipe_disk P param s = Some (ret, t)"
  by (rule wipe_disk_total [OF assms(1)])

theorem wipe_disk_returns_witness:
  "\<exists>ret t. wipe_disk sample_pc zero_param (sample_world sample_dev set_default_opt) = Some (ret, t)"
  by (rule wipe_disk_returns) (simp_all add: set_default_opt_def)

theorem wipe_disk_test_mode_witness:
  "\<exists>ret t. wipe_disk sample_pc sample_disk (sample_world sample_dev (set_default_opt\<lparr>opt_test := 1\<rparr>)) = Some (ret, t) \<and>
     i_disks (dev t) = i_disks sample_dev"
proof -
  let ?s = "sample_world sample_dev (set_default_opt\<lparr>opt_test := 1\<rparr>)"
  obtain ret t where t: "wipe_disk sample_pc sample_disk ?s = Some (ret, t)"
    using wipe_disk_total [of ?s sample_pc sample_disk] by auto
  have "i_disks (dev t) = i_disks (dev ?s)"
    by (rule wipe_disk_test_mode [OF t _ ideal_disk_image]) simp
  then show ?thesis using t by auto
qed

section \<open>BIOS errors do not stop a wipe\<close>









subsection \<open>A disk reported as wiped that still holds data\<close>

text \<open>The ideal machine, except that every extended write at block 0 fails with status 4.\<close>

definition broken_pc :: "ideal_dev platform" where
  "broken_pc = sample_pc\<lparr>p_bios := (\<lambda>a e. if r_ah (reg a) = 0x43 \<and> dap_begin (dap a) = 0
      then (True, a\<lparr>reg := (reg a)\<lparr>r_ah := 4\<rparr>\<rparr>, e) else ideal_bios (\<lambda>_. (16, 63)) a e)\<rparr>"

lemma broken_image: "disk_image broken_pc i_disks (\<lambda>_. (16, 63)) B"
  using ideal_disk_image [of "\<lambda>_. (16, 63)" B]
  by (auto simp: disk_image_def broken_pc_def ideal_def rbuf_fixed_def keeps_def written_def lba_write_def chs_write_def read_only_def)

lemma broken_write:
  assumes "ready B s" "off < 20" "unat n \<le> 16" "length buffer = 8192"
  obtains sz t where "write_sectors_lba broken_pc sample_disk off n buffer 8192 c s = ((if off = 0 then 4 else 0, buffer, sz), t)"
    "wvia broken_pc (\<lambda>_. True) s t" "ready B t" "i_disks (dev t) 0x80 0 = i_disks (dev s) 0x80 0"
proof -
  have l: "off < ext_nsectors (ext sample_disk)" using assms(2) by simp
  have z: "unat n * 512 \<le> unat (8192 :: u32)" "unat (8192 :: u32) \<le> MAX_SECTOR_BUFFER_SIZE" "unat (8192 :: u32) \<le> length buffer"
    using assms(3,4) by (simp_all add: MAX_SECTOR_BUFFER_SIZE_def BIOS_MAX_SECTOR_CNT_def)
  obtain a cf a' e' ret sz t where w: "write_sectors_lba broken_pc sample_disk off n buffer 8192 c s = ((ret, buffer, sz), t)"
    and a: "lba_write (disk_id sample_disk) off (unat n) a" and b: "p_bios broken_pc a (dev s) = (cf, a', e')"
    and e: "dev t = e'" and r: "ret = (if cf then uint (r_ah (reg a')) else 0)"
    by (rule write_sectors_lba_call [OF assms(1) sample_disk_sel(3) l z])
  have v: "wvia broken_pc (\<lambda>_. True) s t"
    using wvia_via [OF via_write_sectors_lba [of sample_disk off n "\<lambda>_. True" broken_pc s buffer 8192 c]] w by simp
  have rt: "ret = (if off = 0 then 4 else 0)" "off = 0 \<Longrightarrow> e' = dev s"
    using a b r by (auto simp: broken_pc_def lba_write_def ideal_def ideal_bios_def Let_def split: if_splits)
  have im: "i_disks (dev t) d k = i_disks (dev s) d k" if "\<not> (d = disk_id sample_disk \<and> unat off \<le> k \<and> k < unat off + unat n)" for d k
    by (rule write_sectors_lba_image(2) [OF broken_image assms(1) sample_disk_sel(3) l z w that])
  have rb: "rbuf_fixed broken_pc" using broken_image by (simp add: disk_image_def)
  have "i_disks (dev t) 0x80 0 = i_disks (dev s) 0x80 0"
    using rt(2) e im [of "0x80" 0] by (cases "off = 0") (simp_all add: unat_eq_zero)
  then show thesis
    by (intro that [of sz t]) (use w rt v ready_wvia [OF assms(1) v rb] in simp_all)
qed


lemma broken_fast:
  assumes "ready B s" "off < 20" "unat n \<le> 16" "length buffer = 8192" "opt s = set_default_opt"
  obtains b sz t where "wipe_sectors_lba broken_pc sample_disk off n buffer 8192 s = Some ((if off = 0 then 4 else 0, b, sz), t)"
    "length b = 8192" "wvia broken_pc (\<lambda>_. True) s t" "ready B t" "i_disks (dev t) 0x80 0 = i_disks (dev s) 0x80 0"
proof -
  obtain sz t where w: "write_sectors_lba broken_pc sample_disk off n (replicate 8192 0) 8192 0 s =
      ((if off = 0 then 4 else 0, replicate 8192 0, sz), t)"
    "wvia broken_pc (\<lambda>_. True) s t" "ready B t" "i_disks (dev t) 0x80 0 = i_disks (dev s) 0x80 0"
    by (rule broken_write [where buffer = "replicate 8192 0" and c = 0, OF assms(1-3) length_replicate])
  show thesis
    by (rule that [of "replicate 8192 0" sz t])
       (use w assms(4,5) in \<open>auto simp: wipe_sectors_lba_def Let_def set_default_opt_def\<close>)
qed

lemma broken_progress:
  assumes "extclock (tv s) \<noteq> 0" "progress_ok p" "ready B s"
  obtains p' t where "update_progress broken_pc p n s = Some (p', t)" "progress_ok p'" "opt t = opt s"
    "extclock (tv t) \<noteq> 0" "ready B t" "i_disks (dev t) = i_disks (dev s)"
proof -
  obtain p' t where g: "update_progress broken_pc p n s = Some (p', t)" "wvia broken_pc read_only s t" "progress_ok p'"
    by (rule update_progress_ok [OF assms(1,2), of broken_pc n read_only])
  have rb: "rbuf_fixed broken_pc" using broken_image by (simp add: disk_image_def)
  show thesis
    by (rule that [OF g(1,3)])
       (use assms(1) wvia_frame(1,2) [OF g(2)] ready_wvia [OF assms(3) g(2) rb]
          disk_image_read_only [OF broken_image wvia_frame(9) [OF g(2)]] in simp_all)
qed

lemma broken_wipe_all:
  assumes "opt s = set_default_opt" "extclock (tv s) \<noteq> 0" "ready B s" "length buffer = 8192"
  shows "\<exists>t. wipe_all broken_pc sample_disk buffer s = Some (0, t) \<and> i_disks (dev t) 0x80 0 = i_disks (dev s) 0x80 0"
proof -
  have rb: "rbuf_fixed broken_pc" using broken_image by (simp add: disk_image_def)
  obtain p0 s2 p1 s3 where a: "reset_progress broken_pc (20 * 512) s = Some (p0, s2)" "update_progress broken_pc p0 0 s2 = Some (p1, s3)"
    and p1: "progress_ok p1" and v3: "wvia broken_pc read_only s s3"
    by (rule start_progress_ok [OF assms(2), where ok = read_only])
  have b': "opt s3 = set_default_opt" and b: "extclock (tv s3) \<noteq> 0" "ready B s3" "i_disks (dev s3) = i_disks (dev s)"
    using assms wvia_frame(1,2) [OF v3] ready_wvia [OF assms(3) v3 rb]
      disk_image_read_only [OF broken_image wvia_frame(9) [OF v3]] by simp_all
  obtain b1 z1 s4 where c: "wipe_sectors_lba broken_pc sample_disk 0 16 buffer 8192 s3 = Some ((if (0 :: u64) = 0 then 4 else 0, b1, z1), s4)"
    "length b1 = 8192" "wvia broken_pc (\<lambda>_. True) s3 s4" "ready B s4" "i_disks (dev s4) 0x80 0 = i_disks (dev s3) 0x80 0"
    by (rule broken_fast [OF b(2) _ _ assms(4) b', of 0 16]) simp_all
  have f4: "opt s4 = set_default_opt" "extclock (tv s4) \<noteq> 0" using b(1) b' wvia_frame(1,2) [OF c(3)] by simp_all
  obtain p2 s5 where d: "update_progress broken_pc p1 8192 s4 = Some (p2, s5)" "progress_ok p2" "opt s5 = opt s4"
    "extclock (tv s5) \<noteq> 0" "ready B s5" "i_disks (dev s5) = i_disks (dev s4)"
    by (rule broken_progress [OF f4(2) p1 c(4)])
  have d': "opt s5 = set_default_opt" using d(3) f4(1) by simp
  obtain b2 z2 s6 where e: "wipe_sectors_lba broken_pc sample_disk 16 4 b1 8192 s5 = Some ((if (16 :: u64) = 0 then 4 else 0, b2, z2), s6)"
    "length b2 = 8192" "wvia broken_pc (\<lambda>_. True) s5 s6" "ready B s6" "i_disks (dev s6) 0x80 0 = i_disks (dev s5) 0x80 0"
    by (rule broken_fast [OF d(5) _ _ c(2) d', of 16 4]) simp_all
  have f6: "opt s6 = set_default_opt" "extclock (tv s6) \<noteq> 0" using d(4) d' wvia_frame(1,2) [OF e(3)] by simp_all
  obtain p3 s7 where g: "update_progress broken_pc p2 2048 s6 = Some (p3, s7)" "progress_ok p3" "opt s7 = opt s6"
    "extclock (tv s7) \<noteq> 0" "ready B s7" "i_disks (dev s7) = i_disks (dev s6)"
    by (rule broken_progress [OF f6(2) d(2) e(4)])
  have ds: "disk_sectors (opt s) sample_disk = (512, 20)" using assms(1) by (simp add: disk_sectors_def set_default_opt_def)
  have "wipe_all broken_pc sample_disk buffer s = Some (0, s7)"
    using a c(1) d(1) e(1) g(1,3) f6(1)
    by (simp add: wipe_all_def ds Let_def WIPE_BUFFER_SIZE_def wipe_tail_def wipe_left_def write_mbr_def set_default_opt_def)
  then show ?thesis using g(6) e(5) d(6) c(5) b(3) by simp
qed

text \<open>
  C14. Such an error can go unnoticed altogether: when the BIOS fails to write the first
  block of a disk of 20 sectors but writes the rest, the wipe returns 0, which counts the
  disk as wiped, and sector 0 still holds its old content.
\<close>

theorem wipe_disk_false_success:
  "\<exists>t. wipe_disk broken_pc sample_disk (sample_world sample_dev set_default_opt) = Some (0, t) \<and>
     i_disks (dev t) 0x80 0 = replicate 512 0x55"
proof -
  let ?s = "sample_world sample_dev set_default_opt" and ?b = "replicate 8192 0xA5 :: bytes"
  obtain s1 where sk: "is_skiped_disk broken_pc sample_disk ?s = (0, s1)"
    using sample_unlabelled [of broken_pc set_default_opt "opt_skip set_default_opt" ?s]
    by (cases "contain_fat_label broken_pc set_default_opt sample_disk (opt_skip set_default_opt) ?s")
       (simp add: is_skiped_disk_def is_cdrom_def)
  have v1: "wvia broken_pc read_only ?s s1" using wvia_is_skiped_disk [of broken_pc ?s sample_disk] by (simp add: sk)
  have rb: "rbuf_fixed broken_pc" using broken_image by (simp add: disk_image_def)
  have ml: "malloc broken_pc (of_nat WIPE_BUFFER_SIZE) s1 = (Some ?b, s1)"
    by (simp add: malloc_def broken_pc_def ideal_def WIPE_BUFFER_SIZE_def)
  have f1: "opt s1 = set_default_opt" "extclock (tv s1) \<noteq> 0" "ready 0x10200 s1" "i_disks (dev s1) = i_disks sample_dev"
    using wvia_frame(1,2) [OF v1] ready_wvia [OF sample_ready v1 rb]
      disk_image_read_only [OF broken_image wvia_frame(9) [OF v1]] by simp_all
  obtain t where t: "wipe_all broken_pc sample_disk ?b s1 = Some (0, t)" "i_disks (dev t) 0x80 0 = i_disks (dev s1) 0x80 0"
    using broken_wipe_all [OF f1(1-3) length_replicate] by blast
  have "wipe_disk broken_pc sample_disk ?s = Some (0, free broken_pc t)" using t(1) by (simp add: wipe_disk_def sk ml)
  moreover have "dev (free broken_pc t) = dev t" by (simp add: free_def broken_pc_def ideal_def)
  ultimately show ?thesis using t(2) f1(4) by (simp add: sample_dev_def)
qed


end
