(* ===== verification/Localtime.thy ===== *)
theory Localtime
  imports Timer "HOL-Library.Signed_Division"
begin

text \<open>
  The calendar of newlib that \<^verbatim>\<open>timer_init\<close> reports the time with (libc/time: mktm_r.c, lcltime_r.c, gmtime_r.c,
  local.h, gettzinfo.c): seconds since 1970 to a broken-down time, the daylight-saving rules and
  the time zone. \<^verbatim>\<open>time_t\<close> and \<^verbatim>\<open>long\<close> have 32 bits; from such a time every value below fits an \<^verbatim>\<open>int\<close>, except
  the change-over time of a rule, where the wrap-around is written out.
\<close>

section \<open>Types and tables\<close>

record tm =
  t_sec :: int
  t_min :: int
  t_hour :: int
  t_mday :: int
  t_mon :: int
  t_year :: int
  t_wday :: int
  t_yday :: int
  t_isdst :: int

record tzrule =
  z_ch :: char
  z_m :: int
  z_n :: int
  z_d :: int
  z_s :: int
  z_change :: int
  z_offset :: int

record tzinfo =
  z_north :: int
  z_year :: int
  z_rule0 :: tzrule
  z_rule1 :: tzrule

definition tzrule_initial :: tzrule where
  "tzrule_initial = \<lparr>z_ch = CHR ''J'', z_m = 0, z_n = 0, z_d = 0, z_s = 0, z_change = 0, z_offset = 0\<rparr>"

definition tzinfo_initial :: tzinfo where
  "tzinfo_initial = \<lparr>z_north = 1, z_year = 0, z_rule0 = tzrule_initial, z_rule1 = tzrule_initial\<rparr>"

definition isleap :: "int \<Rightarrow> bool" where
  "isleap y \<longleftrightarrow> (y smod 4 = 0 \<and> y smod 100 \<noteq> 0) \<or> y smod 400 = 0"

definition mon_lengths :: "bool \<Rightarrow> int list" where
  "mon_lengths l = [31, if l then 29 else 28, 31, 30, 31, 30, 31, 31, 30, 31, 30, 31]"

definition year_lengths :: "bool \<Rightarrow> int" where
  "year_lengths l = (if l then 366 else 365)"

definition long_of :: "int \<Rightarrow> int" where
  "long_of x = sint (word_of_int x :: u32)"

section \<open>Daylight saving\<close>

text \<open>\<open>None\<close> is a month behind the table. The loop looks for the last week that lies in the month.\<close>

function week_in_month :: "int \<Rightarrow> int \<Rightarrow> int" where
  "week_in_month len m_day = (if m_day \<ge> len then week_in_month len (m_day - 7) else m_day)"
  by auto
termination
  by (relation "measure (\<lambda>(len, m_day). nat (m_day - len + 1))") auto

definition rule_days :: "int \<Rightarrow> int \<Rightarrow> tzrule \<Rightarrow> int option" where
  "rule_days year year_days z =
     (if z_ch z = CHR ''J'' then Some (year_days + z_d z + of_bool (isleap year \<and> z_d z \<ge> 60) - 1)
      else if z_ch z = CHR ''D'' then Some (year_days + z_d z)
      else let ip = mon_lengths (isleap year); j = nat (max 1 (z_m z))
           in if j > 12 then None
              else let days = year_days + sum_list (take (j - 1) ip);
                       m_wday = (4 + days) smod 7;
                       wday_diff = z_d z - m_wday;
                       wday_diff = (if wday_diff < 0 then wday_diff + 7 else wday_diff);
                       m_day = (z_n z - 1) * 7 + wday_diff
                   in Some (days + week_in_month (ip ! (j - 1)) m_day))"

definition year_days :: "int \<Rightarrow> int" where
  "year_days year =
     (let years = year - 1970
      in years * 365 + (years - 1 + 2) sdiv 4 - (years - 1 + 70) sdiv 100 + (years - 1 + 370) sdiv 400)"

definition set_change :: "int \<Rightarrow> tzrule \<Rightarrow> tzrule option" where
  "set_change year z =
     map_option (\<lambda>days. z\<lparr>z_change := long_of (days * 86400 + z_s z + z_offset z)\<rparr>) (rule_days year (year_days year) z)"

definition tzcalc_limits :: "int \<Rightarrow> tzinfo \<Rightarrow> (int \<times> tzinfo) option" where
  "tzcalc_limits year tz =
     (if year < 1970 then Some (0, tz)
      else do {
        z0 \<leftarrow> set_change year (z_rule0 tz);
        z1 \<leftarrow> set_change year (z_rule1 tz);
        Some (1, tz\<lparr>z_year := year, z_rule0 := z0, z_rule1 := z1, z_north := of_bool (z_change z0 < z_change z1)\<rparr>)
      })"

definition dst_state :: "int \<Rightarrow> int \<Rightarrow> int \<Rightarrow> tzinfo \<Rightarrow> (int \<times> tzinfo) option" where
  "dst_state daylight y tim tz =
     (if daylight = 0 then Some (0, tz)
      else do {
        (ok, tz) \<leftarrow> (if y = z_year tz then Some (1, tz) else tzcalc_limits y tz);
        Some (if ok = 0 then -1
              else of_bool (if z_north tz \<noteq> 0
                            then tim \<ge> z_change (z_rule0 tz) \<and> tim < z_change (z_rule1 tz)
                            else tim \<ge> z_change (z_rule0 tz) \<or> tim < z_change (z_rule1 tz)), tz)
      })"

section \<open>Broken-down time\<close>

function borrow_days :: "int \<Rightarrow> int \<Rightarrow> int \<times> int" where
  "borrow_days days r = (if r < 0 then borrow_days (days - 1) (r + 86400) else (days, r))"
  by auto
termination
  by (relation "measure (\<lambda>(days, r). nat (- r))") auto

function carry_days :: "int \<Rightarrow> int \<Rightarrow> int \<times> int" where
  "carry_days days r = (if r \<ge> 86400 then carry_days (days + 1) (r - 86400) else (days, r))"
  by auto
termination
  by (relation "measure (\<lambda>(days, r). nat r)") auto

function years_up :: "int \<Rightarrow> int \<Rightarrow> int \<times> int" where
  "years_up days y =
     (if days < year_lengths (isleap y) then (y, days) else years_up (days - year_lengths (isleap y)) (y + 1))"
  by auto
termination
  by (relation "measure (\<lambda>(days, y). nat days)") (auto simp: year_lengths_def split: if_splits)

function years_down :: "int \<Rightarrow> int \<Rightarrow> int \<times> int" where
  "years_down days y =
     (let y = y - 1; days = days + year_lengths (isleap y) in if days < 0 then years_down days y else (y, days))"
  by auto
termination
  by (relation "measure (\<lambda>(days, y). nat (- days))") (auto simp: year_lengths_def split: if_splits)

declare week_in_month.simps [simp del] borrow_days.simps [simp del] carry_days.simps [simp del]
  years_up.simps [simp del] years_down.simps [simp del]

text \<open>The loop over the months reads its table; \<open>None\<close> is a read behind it.\<close>

fun month_loop :: "int list \<Rightarrow> int \<Rightarrow> int \<Rightarrow> (int \<times> int) option" where
  "month_loop [] mon days = None"
| "month_loop (l # ls) mon days = (if days \<ge> l then month_loop ls (mon + 1) (days - l) else Some (mon, days))"

definition norm_sec :: "tm \<Rightarrow> tm" where
  "norm_sec r =
     (if t_sec r \<ge> 60 then r\<lparr>t_min := t_min r + 1, t_sec := t_sec r - 60\<rparr>
      else if t_sec r < 0 then r\<lparr>t_min := t_min r - 1, t_sec := t_sec r + 60\<rparr> else r)"

definition norm_min :: "tm \<Rightarrow> tm" where
  "norm_min r =
     (if t_min r \<ge> 60 then r\<lparr>t_hour := t_hour r + 1, t_min := t_min r - 60\<rparr>
      else if t_min r < 0 then r\<lparr>t_hour := t_hour r - 1, t_min := t_min r + 60\<rparr> else r)"

definition next_day :: "int list \<Rightarrow> tm \<Rightarrow> tm" where
  "next_day ip r =
     (let r = r\<lparr>t_yday := t_yday r + 1, t_wday := (if t_wday r + 1 > 6 then 0 else t_wday r + 1),
                t_mday := t_mday r + 1, t_hour := t_hour r - 24\<rparr>
      in if t_mday r > ip ! nat (t_mon r)
         then let r = r\<lparr>t_mday := t_mday r - ip ! nat (t_mon r), t_mon := t_mon r + 1\<rparr>
              in if t_mon r = 12 then r\<lparr>t_mon := 0, t_year := t_year r + 1, t_yday := 0\<rparr> else r
         else r)"

definition previous_day :: "int list \<Rightarrow> tm \<Rightarrow> tm" where
  "previous_day ip r =
     (let r = r\<lparr>t_yday := t_yday r - 1, t_wday := (if t_wday r - 1 < 0 then 6 else t_wday r - 1),
                t_mday := t_mday r - 1, t_hour := t_hour r + 24\<rparr>
      in if t_mday r = 0
         then let r = r\<lparr>t_mon := t_mon r - 1\<rparr>;
                  r = (if t_mon r < 0
                       then r\<lparr>t_mon := 11, t_year := t_year r - 1, t_yday := 364 + of_bool (isleap (t_year r - 1 + 1900))\<rparr>
                       else r)
              in r\<lparr>t_mday := ip ! nat (t_mon r)\<rparr>
         else r)"

definition shift_zone :: "int list \<Rightarrow> int \<Rightarrow> tm \<Rightarrow> tm" where
  "shift_zone ip offset r =
     (let hours = offset sdiv 3600; offset = offset smod 3600; mins = offset sdiv 60; secs = offset smod 60;
          r = norm_min (norm_sec (r\<lparr>t_sec := t_sec r - secs, t_min := t_min r - mins, t_hour := t_hour r - hours\<rparr>))
      in if t_hour r \<ge> 24 then next_day ip r else if t_hour r < 0 then previous_day ip r else r)"

definition split_days :: "int \<Rightarrow> int \<times> int" where
  "split_days tim = (case borrow_days (tim sdiv 86400) (tim smod 86400) of (days, r) \<Rightarrow> carry_days days r)"

text \<open>The first half of \<^verbatim>\<open>_mktm_r\<close>: the year \<^verbatim>\<open>y\<close> and the fields of the result before the time zone is looked at.\<close>

definition mktm_fields :: "int \<Rightarrow> (int \<times> tm) option" where
  "mktm_fields tim =
     (case split_days tim of (days, r) \<Rightarrow>
      let hour = r sdiv 3600; r = r smod 3600; wday = (4 + days) smod 7; wday = (if wday < 0 then wday + 7 else wday)
      in case (if days \<ge> 0 then years_up days 1970 else years_down days 1970) of (y, yday) \<Rightarrow>
         map_option (\<lambda>(mon, d). (y, \<lparr>t_sec = r smod 60, t_min = r sdiv 60, t_hour = hour, t_mday = d + 1, t_mon = mon,
                                   t_year = y - 1900, t_wday = wday, t_yday = yday, t_isdst = 0\<rparr>))
           (month_loop (mon_lengths (isleap y)) 0 yday))"

definition mktm_r :: "int \<Rightarrow> tzinfo \<Rightarrow> int \<Rightarrow> bool \<Rightarrow> (tm \<times> tzinfo) option" where
  "mktm_r daylight tz tim is_gmtime =
     do {
       (y, res) \<leftarrow> mktm_fields tim;
       if is_gmtime then Some (res\<lparr>t_isdst := 0\<rparr>, tz)
       else do {
         (isdst, tz) \<leftarrow> dst_state daylight y tim tz;
         Some (shift_zone (mon_lengths (isleap y)) (z_offset (if isdst = 1 then z_rule1 tz else z_rule0 tz)) (res\<lparr>t_isdst := isdst\<rparr>), tz)
       }
     }"

definition gmtime_r :: "int \<Rightarrow> tzinfo \<Rightarrow> int \<Rightarrow> (tm \<times> tzinfo) option" where
  "gmtime_r daylight tz tim = mktm_r daylight tz tim True"

definition localtime_r :: "int \<Rightarrow> tzinfo \<Rightarrow> int \<Rightarrow> (tm \<times> tzinfo) option" where
  "localtime_r daylight tz tim = mktm_r daylight tz tim False"

section \<open>The reference calendar\<close>

text \<open>
  \<open>year_start y\<close> counts the days from 1 January 1970 to 1 January of the year \<open>y\<close>, by the Gregorian rule and also
  before 1970; \<open>month_start\<close> the days from there to the first of a month.
\<close>

definition leap_days :: "int \<Rightarrow> int" where
  "leap_days y = y div 4 - y div 100 + y div 400"

definition year_start :: "int \<Rightarrow> int" where
  "year_start y = 365 * (y - 1970) + leap_days (y - 1) - 477"

definition month_start :: "int \<Rightarrow> nat \<Rightarrow> int" where
  "month_start y m = sum_list (take m (mon_lengths (isleap y)))"

definition tm_days :: "tm \<Rightarrow> int" where
  "tm_days r = year_start (t_year r + 1900) + t_yday r"

definition tm_time :: "tm \<Rightarrow> int" where
  "tm_time r = ((tm_days r * 24 + t_hour r) * 60 + t_min r) * 60 + t_sec r"

definition ymd_valid :: "tm \<Rightarrow> bool" where
  "ymd_valid r \<longleftrightarrow> 0 \<le> t_mon r \<and> t_mon r < 12 \<and>
     1 \<le> t_mday r \<and> t_mday r \<le> mon_lengths (isleap (t_year r + 1900)) ! nat (t_mon r) \<and>
     t_yday r = month_start (t_year r + 1900) (nat (t_mon r)) + t_mday r - 1"

definition date_valid :: "tm \<Rightarrow> bool" where
  "date_valid r \<longleftrightarrow> ymd_valid r \<and> t_wday r = (4 + tm_days r) mod 7"

definition tm_valid :: "tm \<Rightarrow> bool" where
  "tm_valid r \<longleftrightarrow> date_valid r \<and> 0 \<le> t_hour r \<and> t_hour r < 24 \<and> 0 \<le> t_min r \<and> t_min r < 60 \<and> 0 \<le> t_sec r \<and> t_sec r < 60"

lemma sdiv_pos: "0 < k \<Longrightarrow> (x :: int) sdiv k = (if 0 \<le> x then x div k else - ((- x) div k))"
  by (simp add: signed_divide_int_def sgn_if)

lemma smod_pos: "0 < k \<Longrightarrow> (x :: int) smod k = (if 0 \<le> x then x mod k else - ((- x) mod k))"
  by (auto simp: signed_modulo_int_def sgn_if)

lemma smod_wrap: "0 < k \<Longrightarrow> (let w = (x :: int) smod k in if w < 0 then w + k else w) = x mod k"
proof (cases "0 \<le> x")
  case True
  moreover assume "0 < k"
  ultimately show ?thesis using pos_mod_sign [of k x] by (simp add: smod_pos Let_def del: pos_mod_sign)
next
  case False
  moreover assume k: "0 < k"
  moreover have "x mod k = (if (- x) mod k = 0 then 0 else k - (- x) mod k)"
    using zmod_zminus1_eq_if [of "- x" k] k by simp
  moreover have "0 < (- x) mod k \<longleftrightarrow> (- x) mod k \<noteq> 0" using pos_mod_sign [OF k, of "- x"] by (simp add: less_le)
  ultimately show ?thesis by (auto simp: smod_pos Let_def)
qed

lemma isleap_iff: "isleap y \<longleftrightarrow> (4 dvd y \<and> \<not> 100 dvd y) \<or> 400 dvd y"
  by (simp add: isleap_def smod_pos dvd_eq_mod_eq_0 [symmetric])

lemma div_pred: "0 < k \<Longrightarrow> (y :: int) div k = (y - 1) div k + of_bool (k dvd y)"
proof -
  assume k: "0 < k"
  have y: "y = k * (y div k) + y mod k" by simp
  show ?thesis
  proof (cases "k dvd y")
    case True
    then have "y mod k = 0" by simp
    then have "y - 1 = k * (y div k - 1) + (k - 1)" using y by (simp add: algebra_simps)
    then have "(y - 1) div k = y div k - 1" by (rule int_div_pos_eq) (use k in simp_all)
    then show ?thesis using True by simp
  next
    case False
    then have "0 < y mod k" using k by (simp add: dvd_eq_mod_eq_0 less_le)
    moreover have "y - 1 = k * (y div k) + (y mod k - 1)" by simp
    ultimately have "(y - 1) div k = y div k"
      using pos_mod_bound [OF k, of y] by (intro int_div_pos_eq [of _ _ _ "y mod k - 1"]) simp_all
    then show ?thesis using False by simp
  qed
qed

lemma year_start_next: "year_start (y + 1) = year_start y + year_lengths (isleap y)"
proof -
  have "(400 :: int) dvd y \<Longrightarrow> 100 dvd y" "(100 :: int) dvd y \<Longrightarrow> 4 dvd y"
    using dvd_trans [of 100 400 y] dvd_trans [of 4 100 y] by simp_all
  then have "leap_days y = leap_days (y - 1) + of_bool (isleap y)"
    using div_pred [of 4 y] div_pred [of 100 y] div_pred [of 400 y] by (auto simp: leap_days_def isleap_iff)
  then show ?thesis by (simp add: year_start_def year_lengths_def)
qed

section \<open>The loops\<close>

lemma split_days_val: "split_days tim = (tim div 86400, tim mod 86400)"
proof -
  have carry: "carry_days d r = (d, r)" if "r < 86400" for d r
    using that by (simp add: carry_days.simps)
  have stop: "borrow_days d r = (d, r)" if "0 \<le> r" for d r
    using that by (simp add: borrow_days.simps)
  show ?thesis
  proof (cases "0 \<le> tim")
    case True
    then show ?thesis by (simp add: split_days_def sdiv_pos smod_pos stop carry)
  next
    case neg: False
    have eq: "tim div 86400 = - ((- tim) div 86400) - of_bool ((- tim) mod 86400 \<noteq> 0)"
      "tim mod 86400 = - ((- tim) mod 86400) + 86400 * of_bool ((- tim) mod 86400 \<noteq> 0)"
      using zdiv_zminus1_eq_if [of 86400 "- tim"] zmod_zminus1_eq_if [of "- tim" 86400] by simp_all
    have "0 < (- tim) mod 86400 \<longleftrightarrow> (- tim) mod 86400 \<noteq> 0" by (simp add: less_le)
    then show ?thesis
      using neg by (simp add: split_days_def sdiv_pos smod_pos borrow_days.simps [of "- ((- tim) div 86400)"] stop carry eq)
  qed
qed

lemma years_up_val:
  "0 \<le> days \<Longrightarrow> years_up days y = (y', yday) \<Longrightarrow>
   0 \<le> yday \<and> yday < year_lengths (isleap y') \<and> year_start y' + yday = year_start y + days"
proof (induction days y rule: years_up.induct)
  case (1 days y)
  then show ?case
    by (subst (asm) years_up.simps) (auto simp: year_start_next split: if_splits)
qed

lemma years_down_val:
  "days < 0 \<Longrightarrow> years_down days y = (y', yday) \<Longrightarrow>
   0 \<le> yday \<and> yday < year_lengths (isleap y') \<and> year_start y' + yday = year_start y + days"
proof (induction days y rule: years_down.induct)
  case (1 days y)
  then show ?case using year_start_next [of "y - 1"]
    by (subst (asm) years_down.simps) (auto simp: Let_def split: if_splits)
qed

lemma month_loop_val:
  "0 \<le> days \<Longrightarrow> days < sum_list ls \<Longrightarrow>
   \<exists>k d. month_loop ls mon days = Some (mon + int k, d) \<and> k < length ls \<and> 0 \<le> d \<and> d < ls ! k \<and> days = sum_list (take k ls) + d"
proof (induction ls arbitrary: mon days)
  case (Cons l ls)
  show ?case
  proof (cases "days \<ge> l")
    case True
    then obtain k d where "month_loop ls (mon + 1) (days - l) = Some (mon + 1 + int k, d)" "k < length ls" "0 \<le> d" "d < ls ! k"
      "days - l = sum_list (take k ls) + d"
      using Cons.IH [of "days - l" "mon + 1"] Cons.prems by auto
    then show ?thesis using True by (intro exI [of _ "Suc k"] exI [of _ d]) simp
  next
    case False
    then show ?thesis using Cons.prems by (intro exI [of _ 0] exI [of _ days]) simp
  qed
qed simp

lemma mon_lengths_total: "sum_list (mon_lengths l) = year_lengths l" "length (mon_lengths l) = 12"
  by (simp_all add: mon_lengths_def year_lengths_def)

section \<open>Greenwich time\<close>

lemma mktm_fields_val:
  "\<exists>r. mktm_fields tim = Some (t_year r + 1900, r) \<and> tm_valid r \<and> tm_time r = tim \<and> t_isdst r = 0"
proof -
  let ?days = "tim div 86400" and ?r = "tim mod 86400"
  obtain y yday where y: "(if ?days \<ge> 0 then years_up ?days 1970 else years_down ?days 1970) = (y, yday)"
    by (cases "if ?days \<ge> 0 then years_up ?days 1970 else years_down ?days 1970")
  have e: "year_start 1970 = 0" by (simp add: year_start_def leap_days_def)
  have yv: "0 \<le> yday" "yday < year_lengths (isleap y)" "year_start y + yday = ?days"
    using years_up_val [of ?days 1970 y yday] years_down_val [of ?days 1970 y yday] y by (auto simp: e split: if_splits)
  obtain k d where m: "month_loop (mon_lengths (isleap y)) 0 yday = Some (int k, d)" "k < 12" "0 \<le> d"
    "d < mon_lengths (isleap y) ! k" "yday = month_start y k + d"
    using month_loop_val [OF yv(1), of "mon_lengths (isleap y)" 0] yv(2) by (auto simp: mon_lengths_total month_start_def)
  define w where "w = (let w = (4 + ?days) smod 7 in if w < 0 then w + 7 else w)"
  have w: "w = (4 + ?days) mod 7" unfolding w_def by (rule smod_wrap) simp
  define t where "t = \<lparr>t_sec = ?r mod 3600 mod 60, t_min = ?r mod 3600 div 60, t_hour = ?r div 3600, t_mday = d + 1, t_mon = int k,
    t_year = y - 1900, t_wday = w, t_yday = yday, t_isdst = 0\<rparr>"
  have "mktm_fields tim = Some (t_year t + 1900, t)"
    by (simp add: mktm_fields_def split_days_val Let_def y m(1) sdiv_pos smod_pos w_def t_def)
  moreover have "tm_valid t"
    using m yv by (auto simp: tm_valid_def date_valid_def ymd_valid_def tm_days_def w t_def)
  moreover have "tm_time t = ?days * 86400 + (?r div 3600 * 3600 + ?r mod 3600)"
    unfolding tm_time_def tm_days_def t_def using yv(3) div_mult_mod_eq [of "?r mod 3600" 60] by (simp only: tm.simps) (simp add: algebra_simps)
  then have "tm_time t = tim" by (simp only: div_mult_mod_eq)
  moreover have "t_isdst t = 0" by (simp add: t_def)
  ultimately show ?thesis by blast
qed

lemma mktm_r_fields:
  assumes "mktm_fields tim = Some (t_year r + 1900, r)" "t_isdst r = 0"
  shows "mktm_r daylight tz tim True = Some (r, tz)"
    "mktm_r daylight tz tim False = do {
      (isdst, tz) \<leftarrow> dst_state daylight (t_year r + 1900) tim tz;
      Some (shift_zone (mon_lengths (isleap (t_year r + 1900))) (z_offset (if isdst = 1 then z_rule1 tz else z_rule0 tz)) (r\<lparr>t_isdst := isdst\<rparr>), tz) }"
  using assms by (simp_all add: mktm_r_def)

lemma year_start_less: "y < y' \<Longrightarrow> year_start y + year_lengths (isleap y) \<le> year_start y'"
proof -
  have "year_start y + year_lengths (isleap y) \<le> year_start (y + 1 + int n)" for n
  proof (induction n)
    case (Suc n)
    have "year_start (y + 1 + int (Suc n)) = year_start (y + 1 + int n) + year_lengths (isleap (y + 1 + int n))"
      using year_start_next [of "y + 1 + int n"] by (simp add: algebra_simps)
    then show ?case using Suc by (simp add: year_lengths_def)
  qed (simp add: year_start_next)
  then show "y < y' \<Longrightarrow> ?thesis" using zle_iff_zadd [of "y + 1" y'] by force
qed

lemma month_start_Suc: "k < 12 \<Longrightarrow> month_start y (Suc k) = month_start y k + mon_lengths (isleap y) ! k"
  by (simp add: month_start_def take_Suc_conv_app_nth mon_lengths_total)

lemma mon_lengths_bounds: "k < 12 \<Longrightarrow> 28 \<le> mon_lengths l ! k \<and> mon_lengths l ! k \<le> 31"
  by (auto simp: mon_lengths_def nth_Cons numeral_eq_Suc split: nat.splits)

lemma month_start_less: "k < k' \<Longrightarrow> k' \<le> 12 \<Longrightarrow> month_start y k + mon_lengths (isleap y) ! k \<le> month_start y k'"
proof (induction k')
  case (Suc k')
  then show ?case using mon_lengths_bounds [of k' "isleap y"] by (auto simp: month_start_Suc less_Suc_eq)
qed simp

lemma month_start_12: "month_start y 12 = year_lengths (isleap y)"
  by (simp add: month_start_def mon_lengths_def year_lengths_def)

lemma month_start_nonneg: "k \<le> 12 \<Longrightarrow> 0 \<le> month_start y k"
  using month_start_less [of 0 k y] mon_lengths_bounds [of 0 "isleap y"] by (cases k) (auto simp: month_start_def)

lemma yday_bounds:
  assumes "date_valid r"
  shows "0 \<le> t_yday r" "t_yday r < year_lengths (isleap (t_year r + 1900))"
proof -
  obtain k where k: "t_mon r = int k" "k < 12" using assms by (metis date_valid_def ymd_valid_def nat_0_le nat_less_iff of_nat_numeral)
  have "0 \<le> month_start (t_year r + 1900) k" using month_start_nonneg k by simp
  then show "0 \<le> t_yday r" using assms k by (simp add: date_valid_def ymd_valid_def)
  show "t_yday r < year_lengths (isleap (t_year r + 1900))"
    using assms k month_start_less [of k 12 "t_year r + 1900"] by (simp add: date_valid_def ymd_valid_def month_start_12)
qed

lemma date_unique:
  assumes "date_valid r" "date_valid q" "tm_days r = tm_days q"
  shows "t_year r = t_year q" "t_yday r = t_yday q" "t_mon r = t_mon q" "t_mday r = t_mday q" "t_wday r = t_wday q"
proof -
  show y: "t_year r = t_year q"
    using assms(3) yday_bounds [OF assms(1)] yday_bounds [OF assms(2)]
      year_start_less [of "t_year r + 1900" "t_year q + 1900"] year_start_less [of "t_year q + 1900" "t_year r + 1900"]
    by (cases "t_year r" "t_year q" rule: linorder_cases) (auto simp: tm_days_def)
  then show d: "t_yday r = t_yday q" using assms(3) by (simp add: tm_days_def)
  have k: "nat (t_mon r) < 12" "nat (t_mon q) < 12" using assms by (auto simp: date_valid_def ymd_valid_def)
  have "nat (t_mon r) = nat (t_mon q)"
    using assms(1,2) y d k month_start_less [of "nat (t_mon r)" "nat (t_mon q)" "t_year q + 1900"]
      month_start_less [of "nat (t_mon q)" "nat (t_mon r)" "t_year q + 1900"]
    by (cases "nat (t_mon r)" "nat (t_mon q)" rule: linorder_cases) (auto simp: date_valid_def ymd_valid_def)
  moreover have "0 \<le> t_mon r" "0 \<le> t_mon q" using assms(1,2) by (simp_all add: date_valid_def ymd_valid_def)
  ultimately show m: "t_mon r = t_mon q" by (simp add: eq_nat_nat_iff)
  then show "t_mday r = t_mday q" using assms(1,2) y d by (simp add: date_valid_def ymd_valid_def)
  show "t_wday r = t_wday q" using assms by (simp add: date_valid_def ymd_valid_def)
qed

lemma digit_unique:
  assumes "(a :: int) * k + r = b * k + q" "0 \<le> r" "r < k" "0 \<le> q" "q < k"
  shows "a = b" "r = q"
  using arg_cong [OF assms(1), of "\<lambda>x. x div k"] arg_cong [OF assms(1), of "\<lambda>x. x mod k"] assms(2-) by simp_all

lemma tm_unique:
  assumes "tm_valid r" "tm_valid q" "tm_time r = tm_time q" "t_isdst r = t_isdst q"
  shows "r = q"
proof -
  have v: "0 \<le> t_hour x" "t_hour x < 24" "0 \<le> t_min x" "t_min x < 60" "0 \<le> t_sec x" "t_sec x < 60" if "tm_valid x" for x
    using that by (simp_all add: tm_valid_def)
  note b = v [OF assms(1)] v [OF assms(2)]
  note s = digit_unique [OF assms(3) [unfolded tm_time_def] b(5,6,11,12)]
  note m = digit_unique [OF s(1) b(3,4,9,10)]
  note s(2) m(2) digit_unique [OF m(1) b(1,2,7,8)]
  moreover have "date_valid r" "date_valid q" using assms(1,2) by (simp_all add: tm_valid_def)
  ultimately show ?thesis using date_unique [of r q] assms(4) by simp
qed

lemma mktm_gmtime_iff:
  "mktm_r daylight tz tim True = Some (r, tz') \<longleftrightarrow> tz' = tz \<and> tm_valid r \<and> tm_time r = tim \<and> t_isdst r = 0"
  using mktm_fields_val [of tim] mktm_r_fields(1) [of tim _ daylight tz] tm_unique [of r] by fastforce

section \<open>Local time\<close>

lemma wday_next: "w = x mod 7 \<Longrightarrow> (if w + 1 > 6 then 0 else w + 1) = (x + 1 :: int) mod 7"
  using mod_add_left_eq [of x 7 1] pos_mod_bound [of 7 x] pos_mod_sign [of 7 x]
  by (cases "w = 6") (simp_all add: mod_pos_pos_trivial)

lemma wday_previous: "w = x mod 7 \<Longrightarrow> (if w - 1 < 0 then 6 else w - 1) = (x - 1 :: int) mod 7"
  using mod_diff_left_eq [of x 7 1] pos_mod_bound [of 7 x] pos_mod_sign [of 7 x]
  by (cases "w = 0") (simp_all add: mod_pos_pos_trivial)

lemma next_day_ymd:
  assumes v: "ymd_valid r" and ip: "ip = mon_lengths (isleap (t_year r + 1900))"
  shows "ymd_valid (next_day ip r) \<and> tm_days (next_day ip r) = tm_days r + 1"
proof -
  let ?y = "t_year r + 1900"
  obtain k where k: "t_mon r = int k" "k < 12" using v by (metis ymd_valid_def nat_0_le nat_less_iff of_nat_numeral)
  have d: "1 \<le> t_mday r" "t_mday r \<le> ip ! k" "t_yday r = month_start ?y k + t_mday r - 1"
    using v k by (simp_all add: ymd_valid_def ip)
  show ?thesis
  proof (cases "t_mday r + 1 > ip ! k")
    case False
    then show ?thesis using k d by (simp add: next_day_def Let_def ymd_valid_def tm_days_def ip)
  next
    case True
    then have e: "t_mday r = ip ! k" using d(2) by simp
    show ?thesis
    proof (cases "k = 11")
      case True
      have "t_yday r = year_lengths (isleap ?y) - 1"
        using d(3) e True month_start_Suc [of 11 ?y] month_start_12 [of ?y] by (simp add: ip)
      then show ?thesis using k e True year_start_next [of ?y]
        by (simp add: next_day_def Let_def ymd_valid_def tm_days_def ip month_start_def mon_lengths_def algebra_simps)
    next
      case False
      then have n: "nat (1 + int k) = Suc k" "k < 11" "int k + 1 \<noteq> 12" using k(2) by simp_all
      show ?thesis using k d e n mon_lengths_bounds [of "Suc k" "isleap ?y"] month_start_Suc [OF k(2), of ?y]
        by (simp add: next_day_def Let_def ymd_valid_def tm_days_def ip add.commute)
    qed
  qed
qed

lemma previous_day_ymd:
  assumes v: "ymd_valid r" and ip: "ip = mon_lengths (isleap (t_year r + 1900))"
  shows "ymd_valid (previous_day ip r) \<and> tm_days (previous_day ip r) = tm_days r - 1"
proof -
  let ?y = "t_year r + 1900"
  obtain k where k: "t_mon r = int k" "k < 12" using v by (metis ymd_valid_def nat_0_le nat_less_iff of_nat_numeral)
  have d: "1 \<le> t_mday r" "t_mday r \<le> ip ! k" "t_yday r = month_start ?y k + t_mday r - 1"
    using v k by (simp_all add: ymd_valid_def ip)
  show ?thesis
  proof (cases "t_mday r = 1")
    case False
    then show ?thesis using k d by (simp add: previous_day_def Let_def ymd_valid_def tm_days_def ip)
  next
    case e: True
    show ?thesis
    proof (cases k)
      case 0
      then show ?thesis using k d e year_start_next [of "t_year r + 1899"]
        by (simp add: previous_day_def Let_def ymd_valid_def tm_days_def ip algebra_simps month_start_def mon_lengths_def year_lengths_def)
    next
      case (Suc j)
      then show ?thesis using k d e mon_lengths_bounds [of j "isleap ?y"] month_start_Suc [of j ?y]
        by (simp add: previous_day_def Let_def ymd_valid_def tm_days_def ip)
    qed
  qed
qed

lemma next_day_valid:
  assumes "date_valid r" "ip = mon_lengths (isleap (t_year r + 1900))"
  shows "date_valid (next_day ip r)" "tm_days (next_day ip r) = tm_days r + 1"
proof -
  have "t_wday (next_day ip r) = (if t_wday r + 1 > 6 then 0 else t_wday r + 1)" by (simp add: next_day_def Let_def)
  then show "date_valid (next_day ip r)" "tm_days (next_day ip r) = tm_days r + 1"
    using next_day_ymd [of r ip] assms wday_next [of "t_wday r" "4 + tm_days r"] by (simp_all add: date_valid_def add.assoc)
qed

lemma previous_day_valid:
  assumes "date_valid r" "ip = mon_lengths (isleap (t_year r + 1900))"
  shows "date_valid (previous_day ip r)" "tm_days (previous_day ip r) = tm_days r - 1"
proof -
  have "t_wday (previous_day ip r) = (if t_wday r - 1 < 0 then 6 else t_wday r - 1)" by (simp add: previous_day_def Let_def)
  then show "date_valid (previous_day ip r)" "tm_days (previous_day ip r) = tm_days r - 1"
    using previous_day_ymd [of r ip] assms wday_previous [of "t_wday r" "4 + tm_days r"] by (simp_all add: date_valid_def add_diff_eq)
qed

lemma day_clock [simp]:
  "t_hour (next_day ip r) = t_hour r - 24" "t_min (next_day ip r) = t_min r" "t_sec (next_day ip r) = t_sec r"
  "t_isdst (next_day ip r) = t_isdst r" "t_hour (previous_day ip r) = t_hour r + 24" "t_min (previous_day ip r) = t_min r"
  "t_sec (previous_day ip r) = t_sec r" "t_isdst (previous_day ip r) = t_isdst r"
  by (simp_all add: next_day_def previous_day_def Let_def)

lemma norm_sec_clock:
  assumes "-60 \<le> t_sec r" "t_sec r < 120"
  obtains m c where "norm_sec r = r\<lparr>t_min := m, t_sec := c\<rparr>" "0 \<le> c" "c < 60" "m * 60 + c = t_min r * 60 + t_sec r"
    "t_min r - 1 \<le> m" "m \<le> t_min r + 1"
proof -
  define i where "i = (if t_sec r \<ge> 60 then 1 else if t_sec r < 0 then -1 else 0 :: int)"
  have "norm_sec r = r\<lparr>t_min := t_min r + i, t_sec := t_sec r - 60 * i\<rparr>" by (simp add: norm_sec_def i_def)
  then show thesis by (rule that) (use assms in \<open>auto simp: i_def\<close>)
qed

lemma norm_min_clock:
  assumes "-60 \<le> t_min r" "t_min r < 120"
  obtains h m where "norm_min r = r\<lparr>t_hour := h, t_min := m\<rparr>" "0 \<le> m" "m < 60" "h * 60 + m = t_hour r * 60 + t_min r"
proof -
  define i where "i = (if t_min r \<ge> 60 then 1 else if t_min r < 0 then -1 else 0 :: int)"
  have "norm_min r = r\<lparr>t_hour := t_hour r + i, t_min := t_min r - 60 * i\<rparr>" by (simp add: norm_min_def i_def)
  then show thesis by (rule that) (use assms in \<open>auto simp: i_def\<close>)
qed

lemma sdiv_smod:
  assumes "0 < k"
  shows "(x :: int) sdiv k * k + x smod k = x" "\<bar>x smod k\<bar> < k"
proof -
  have "(- x) div k * k + (- x) mod k = - x" by (rule div_mult_mod_eq)
  then show "x sdiv k * k + x smod k = x"
    unfolding sdiv_pos [OF assms] smod_pos [OF assms] by (cases "0 \<le> x") (simp, simp only: if_False mult_minus_left)
  show "\<bar>x smod k\<bar> < k"
    using assms pos_mod_bound [of k x] pos_mod_bound [of k "- x"] pos_mod_sign [of k x] pos_mod_sign [of k "- x"]
    by (auto simp: smod_pos)
qed

lemma shift_zone_valid:
  assumes v: "tm_valid r" and off: "\<bar>offset\<bar> < 86400" and ip: "ip = mon_lengths (isleap (t_year r + 1900))"
  shows "tm_valid (shift_zone ip offset r)" "tm_time (shift_zone ip offset r) = tm_time r - offset"
    "t_isdst (shift_zone ip offset r) = t_isdst r"
proof -
  let ?H = "offset sdiv 3600" and ?R = "offset smod 3600"
  let ?M = "?R sdiv 60" and ?S = "?R smod 60"
  have o: "offset = ?H * 3600 + (?M * 60 + ?S)" "\<bar>?R\<bar> < 3600" "\<bar>?S\<bar> < 60" "?M * 60 + ?S = ?R"
    using sdiv_smod [of 3600 offset] sdiv_smod [of 60 ?R] by simp_all
  have M: "\<bar>?M\<bar> < 60" using o(2) by (auto simp: sdiv_pos)
  have b: "0 \<le> t_hour r" "t_hour r < 24" "0 \<le> t_min r" "t_min r < 60" "0 \<le> t_sec r" "t_sec r < 60" and dv: "date_valid r"
    using v by (simp_all add: tm_valid_def)
  define r1 where "r1 = r\<lparr>t_sec := t_sec r - ?S, t_min := t_min r - ?M, t_hour := t_hour r - ?H\<rparr>"
  obtain m1 c where n1: "norm_sec r1 = r1\<lparr>t_min := m1, t_sec := c\<rparr>" "0 \<le> c" "c < 60" "m1 * 60 + c = t_min r1 * 60 + t_sec r1"
    "t_min r1 - 1 \<le> m1" "m1 \<le> t_min r1 + 1"
    by (rule norm_sec_clock [of r1]) (use o(3) b in \<open>auto simp: r1_def\<close>)
  obtain h m where n2: "norm_min (norm_sec r1) = (norm_sec r1)\<lparr>t_hour := h, t_min := m\<rparr>" "0 \<le> m" "m < 60"
    "h * 60 + m = t_hour r1 * 60 + m1"
    by (rule norm_min_clock [of "norm_sec r1"]) (use n1(1,5,6) M b in \<open>auto simp: r1_def\<close>)
  define r2 where "r2 = norm_min (norm_sec r1)"
  have r2: "r2 = r\<lparr>t_hour := h, t_min := m, t_sec := c\<rparr>" unfolding r2_def by (subst n2(1), subst n1(1)) (simp add: r1_def)
  have cl: "(h * 60 + m) * 60 + c = (t_hour r * 60 + t_min r) * 60 + t_sec r - offset"
    using n2(4) n1(4) o(1) by (simp add: r1_def algebra_simps)
  have "- 86400 < offset" "offset < 86400" using off by auto
  then have "- 86400 < (h * 60 + m) * 60 + c" "(h * 60 + m) * 60 + c < 172800" unfolding cl using b by simp_all
  then have h: "-24 \<le> h" "h < 48" using n1(2,3) n2(2,3) by simp_all
  have d2: "date_valid r2" "tm_days r2 = tm_days r" "t_year r2 = t_year r"
    using dv by (simp_all add: r2 date_valid_def ymd_valid_def tm_days_def)
  have eq: "shift_zone ip offset r = (if h \<ge> 24 then next_day ip r2 else if h < 0 then previous_day ip r2 else r2)"
    using arg_cong [OF r2, of t_hour] by (simp only: shift_zone_def Let_def flip: r1_def r2_def) simp
  have nd: "date_valid (next_day ip r2)" "tm_days (next_day ip r2) = tm_days r + 1"
    and pd: "date_valid (previous_day ip r2)" "tm_days (previous_day ip r2) = tm_days r - 1"
    using next_day_valid [OF d2(1)] previous_day_valid [OF d2(1)] d2 ip by simp_all
  show "tm_valid (shift_zone ip offset r)"
    using h n1(2,3) n2(2,3) nd(1) pd(1) d2(1) by (auto simp: eq tm_valid_def) (simp_all add: r2)
  show "tm_time (shift_zone ip offset r) = tm_time r - offset"
    using cl nd(2) pd(2) d2(2) by (auto simp: eq tm_time_def) (simp_all add: r2)
  show "t_isdst (shift_zone ip offset r) = t_isdst r" by (simp add: eq r2)
qed

text \<open>
  C26. \<^verbatim>\<open>gmtime_r\<close> answers every time, before and after 1970, with the one broken-down time that is valid
  (month, day, hour, minute and second in their ranges, day of the year and of the week those of the Gregorian calendar) and
  whose seconds since 1970 are that time; it never reads behind its tables and leaves the time zone alone.
\<close>

theorem gmtime_r_unique:
  "gmtime_r daylight tz tim = Some (r, tz') \<longleftrightarrow> tz' = tz \<and> tm_valid r \<and> tm_time r = tim \<and> t_isdst r = 0"
  unfolding gmtime_r_def by (rule mktm_gmtime_iff)

lemma localtime_offset:
  assumes gm: "gmtime_r daylight tz tim = Some (g, tz)" and dst: "dst_state daylight (t_year g + 1900) tim tz = Some (isdst, tz')"
    and off: "offset = z_offset (if isdst = 1 then z_rule1 tz' else z_rule0 tz')" "\<bar>offset\<bar> < 86400"
  shows "\<exists>r. gmtime_r daylight tz (tim - offset) = Some (r, tz) \<and> localtime_r daylight tz tim = Some (r\<lparr>t_isdst := isdst\<rparr>, tz')"
proof -
  let ?g = "g\<lparr>t_isdst := isdst\<rparr>" and ?ip = "mon_lengths (isleap (t_year g + 1900))"
  have g: "tm_valid g" "tm_time g = tim" using gm by (simp_all add: gmtime_r_def mktm_gmtime_iff)
  obtain x where x: "mktm_fields tim = Some (t_year x + 1900, x)" "t_isdst x = 0" using mktm_fields_val by blast
  then have f: "mktm_fields tim = Some (t_year g + 1900, g)" "t_isdst g = 0"
    using mktm_r_fields(1) [OF x, of daylight tz] gm by (simp_all add: gmtime_r_def)
  have v: "tm_valid ?g" "tm_time ?g = tim"
    using g by (simp_all add: tm_valid_def date_valid_def ymd_valid_def tm_time_def tm_days_def)
  define r where "r = (shift_zone ?ip offset ?g)\<lparr>t_isdst := 0\<rparr>"
  have s: "tm_valid (shift_zone ?ip offset ?g)" "tm_time (shift_zone ?ip offset ?g) = tim - offset" "t_isdst (shift_zone ?ip offset ?g) = isdst"
    using shift_zone_valid [OF v(1) off(2), of ?ip] v(2) by simp_all
  then have "tm_valid r" "tm_time r = tim - offset" "t_isdst r = 0"
    by (simp_all add: r_def tm_valid_def date_valid_def ymd_valid_def tm_time_def tm_days_def)
  then have "gmtime_r daylight tz (tim - offset) = Some (r, tz)" by (simp add: gmtime_r_def mktm_gmtime_iff)
  moreover have "localtime_r daylight tz tim = Some (shift_zone ?ip offset ?g, tz')"
    using mktm_r_fields(2) [OF f] dst off(1) by (simp add: localtime_r_def)
  moreover have "shift_zone ?ip offset ?g = r\<lparr>t_isdst := isdst\<rparr>" using s(3) by (simp add: r_def)
  ultimately show ?thesis by auto
qed

text \<open>
  C27. \<^verbatim>\<open>localtime_r\<close> is \<^verbatim>\<open>gmtime_r\<close> of the time less the offset of the zone, for every offset of less than a day: its carries from
  seconds up to the year never go wrong. The offset is that of summer time when \<^verbatim>\<open>tm_isdst\<close> is 1.
\<close>

theorem localtime_r_shifts:
  assumes "gmtime_r daylight tz tim = Some (g, tz)" and "dst_state daylight (t_year g + 1900) tim tz = Some (isdst, tz')"
    and "offset = z_offset (if isdst = 1 then z_rule1 tz' else z_rule0 tz')" "\<bar>offset\<bar> < 86400"
  shows "\<exists>r. gmtime_r daylight tz (tim - offset) = Some (r, tz) \<and> localtime_r daylight tz tim = Some (r\<lparr>t_isdst := isdst\<rparr>, tz')"
  by (rule localtime_offset [OF assms])

text \<open>Central Europe, one hour east, at the end of 2023.\<close>

definition cet :: tzinfo where
  "cet = tzinfo_initial\<lparr>z_rule0 := tzrule_initial\<lparr>z_offset := -3600\<rparr>, z_rule1 := tzrule_initial\<lparr>z_offset := -7200\<rparr>\<rparr>"

definition new_year_utc :: tm where
  "new_year_utc = \<lparr>t_sec = 59, t_min = 30, t_hour = 23, t_mday = 31, t_mon = 11, t_year = 123, t_wday = 0, t_yday = 364, t_isdst = 0\<rparr>"

definition new_year_cet :: tm where
  "new_year_cet = \<lparr>t_sec = 59, t_min = 30, t_hour = 0, t_mday = 1, t_mon = 0, t_year = 124, t_wday = 1, t_yday = 0, t_isdst = 0\<rparr>"

lemmas calendar_defs = tm_valid_def date_valid_def ymd_valid_def tm_time_def tm_days_def year_start_def leap_days_def
  month_start_def mon_lengths_def isleap_iff

theorem localtime_r_shifts_witness: "localtime_r 0 cet 1704065459 = Some (new_year_cet, cet)"
proof -
  have u: "gmtime_r 0 cet 1704065459 = Some (new_year_utc, cet)"
    unfolding gmtime_r_def mktm_gmtime_iff by (simp add: new_year_utc_def calendar_defs)
  have l: "gmtime_r 0 cet 1704069059 = Some (new_year_cet, cet)"
    unfolding gmtime_r_def mktm_gmtime_iff by (simp add: new_year_cet_def calendar_defs)
  have "\<exists>r. gmtime_r 0 cet (1704065459 - - 3600) = Some (r, cet) \<and> localtime_r 0 cet 1704065459 = Some (r\<lparr>t_isdst := 0\<rparr>, cet)"
    by (rule localtime_r_shifts [OF u]) (simp_all add: dst_state_def cet_def)
  then show ?thesis by (auto simp: l) (simp add: new_year_cet_def)
qed

section \<open>The rules of daylight saving\<close>

lemma year_days_val: "1970 \<le> y \<Longrightarrow> year_days y = year_start y"
proof -
  assume y: "1970 \<le> y"
  have "(y - 1969) div 4 = (y - 1 + 4 * (- 492)) div 4" "(y - 1901) div 100 = (y - 1 + 100 * (- 19)) div 100"
    "(y - 1601) div 400 = (y - 1 + 400 * (- 4)) div 400" by simp_all
  then have "(y - 1969) div 4 = (y - 1) div 4 - 492" "(y - 1901) div 100 = (y - 1) div 100 - 19" "(y - 1601) div 400 = (y - 1) div 400 - 4"
    unfolding div_mult_self2 [OF zero_neq_numeral [symmetric]] by simp_all
  then show ?thesis using y by (simp add: year_days_def Let_def sdiv_pos year_start_def leap_days_def)
qed

lemma week_in_month_val:
  "\<exists>k. week_in_month len m = m - 7 * int k \<and> week_in_month len m < len \<and> (k = 0 \<or> len \<le> week_in_month len m + 7)"
proof (induction len m rule: week_in_month.induct)
  case (1 len m)
  show ?case
  proof (cases "m \<ge> len")
    case True
    then have e: "week_in_month len m = week_in_month len (m - 7)" by (simp add: week_in_month.simps [of len m])
    obtain k where k: "week_in_month len (m - 7) = m - 7 - 7 * int k" "week_in_month len (m - 7) < len"
      "k = 0 \<or> len \<le> week_in_month len (m - 7) + 7"
      using 1 [OF True] by blast
    show ?thesis unfolding e using k True by (intro exI [of _ "Suc k"]) auto
  next
    case False
    then show ?thesis by (intro exI [of _ 0]) (simp add: week_in_month.simps [of len m])
  qed
qed

text \<open>
  C0. A rule \<^verbatim>\<open>Mm.n.d\<close> changes the clocks on the day of month \<open>m\<close> that is the \<open>n\<close>-th of its weekday \<open>d\<close>, or, for
  \<open>n = 5\<close>, the last one; the closed formula for the days before the year agrees with counting them year by year.
\<close>

theorem rule_days_month:
  assumes rule: "z_ch z \<noteq> CHR ''J''" "z_ch z \<noteq> CHR ''D''" "z_m z = int m" "1 \<le> m" "m \<le> 12" "1 \<le> z_n z" "z_n z \<le> 5" "0 \<le> z_d z" "z_d z \<le> 6"
    and year: "1970 \<le> year"
  shows "\<exists>k. rule_days year (year_days year) z = Some (year_start year + month_start year (m - 1) + k) \<and>
    0 \<le> k \<and> k < mon_lengths (isleap year) ! (m - 1) \<and>
    (4 + (year_start year + month_start year (m - 1) + k)) mod 7 = z_d z \<and>
    (k div 7 = z_n z - 1 \<or> z_n z = 5 \<and> mon_lengths (isleap year) ! (m - 1) \<le> k + 7)"
proof -
  let ?len = "mon_lengths (isleap year) ! (m - 1)" and ?first = "year_start year + month_start year (m - 1)"
  have len: "28 \<le> ?len" "?len \<le> 31" using mon_lengths_bounds [of "m - 1"] rule by auto
  define w where "w = (let d = z_d z - (4 + ?first) mod 7 in if d < 0 then d + 7 else d)"
  have "0 \<le> w" "w < 7" and wd: "(4 + ?first + w) mod 7 = z_d z"
  proof -
    have b: "0 \<le> (4 + ?first) mod 7" "(4 + ?first) mod 7 < 7" by simp_all
    then show "0 \<le> w" "w < 7" using rule(8,9) by (auto simp: w_def Let_def)
    have "(4 + ?first + w) mod 7 = ((4 + ?first) mod 7 + w) mod 7" by (simp add: mod_simps)
    also have "\<dots> = z_d z" using b rule(8,9) by (auto simp: w_def Let_def)
    finally show "(4 + ?first + w) mod 7 = z_d z" .
  qed
  define q where "q = (z_n z - 1) * 7 + w"
  obtain j where j: "week_in_month ?len q = q - 7 * int j" "week_in_month ?len q < ?len" "j = 0 \<or> ?len \<le> week_in_month ?len q + 7"
    using week_in_month_val by blast
  have "0 \<le> year_start year" using year_start_less [of 1970 year] year by (cases "year = 1970") (auto simp: year_start_def leap_days_def year_lengths_def split: if_splits)
  then have nn: "0 \<le> ?first" using month_start_nonneg [of "m - 1" year] rule by simp
  have "rule_days year (year_days year) z = Some (?first + week_in_month ?len q)"
    using rule nn year_days_val [OF year]
    by (simp add: rule_days_def Let_def smod_pos month_start_def q_def w_def nat_add_distrib)
  moreover have "0 \<le> week_in_month ?len q" using j len \<open>0 \<le> w\<close> rule(6) by (auto simp: q_def)
  moreover have "(4 + (?first + week_in_month ?len q)) mod 7 = z_d z"
  proof -
    have "4 + (?first + week_in_month ?len q) = (4 + ?first + w) + 7 * (z_n z - 1 - int j)" 
      unfolding j(1) unfolding q_def by (simp add: algebra_simps)
    then show ?thesis using wd by (simp only: mod_mult_self2)
  qed
  moreover have "week_in_month ?len q div 7 = z_n z - 1 \<or> z_n z = 5 \<and> ?len \<le> week_in_month ?len q + 7"
  proof (cases "j = 0")
    case True
    then have "week_in_month ?len q = 7 * (z_n z - 1) + w" using j(1) unfolding q_def by simp
    then have "week_in_month ?len q div 7 = z_n z - 1" by (rule int_div_pos_eq) (use \<open>0 \<le> w\<close> \<open>w < 7\<close> in simp_all)
    then show ?thesis by simp
  next
    case False
    then show ?thesis using j len rule(7) \<open>w < 7\<close> by (cases "z_n z = 5") (auto simp: q_def)
  qed
  ultimately show ?thesis using j(2) by blast
qed

text \<open>Summer time of Central Europe starts on the last Sunday of March: in 2024, day 31.\<close>

theorem rule_days_month_witness:
  "rule_days 2024 (year_days 2024) \<lparr>z_ch = CHR ''M'', z_m = 3, z_n = 5, z_d = 0, z_s = 7200, z_change = 0, z_offset = -3600\<rparr> =
     Some (year_start 2024 + month_start 2024 2 + 30)"
proof -
  let ?z = "\<lparr>z_ch = CHR ''M'', z_m = 3, z_n = 5, z_d = 0, z_s = 7200, z_change = 0, z_offset = -3600\<rparr>"
  obtain k where k: "rule_days 2024 (year_days 2024) ?z = Some (year_start 2024 + month_start 2024 (3 - 1) + k)"
    "0 \<le> k" "k < mon_lengths (isleap 2024) ! (3 - 1)" "(4 + (year_start 2024 + month_start 2024 (3 - 1) + k)) mod 7 = z_d ?z"
    "k div 7 = z_n ?z - 1 \<or> z_n ?z = 5 \<and> mon_lengths (isleap 2024) ! (3 - 1) \<le> k + 7"
    using rule_days_month [of ?z 3 2024] by auto
  have "24 \<le> k" "k < 31" "(19787 + k) mod 7 = 0"
    using k(2-5) by (auto simp: calendar_defs)
  then have "k = 30" by presburger
  then show ?thesis using k(1) by simp
qed

end
