(* ===== verification/Strftime.thy ===== *)
theory Strftime
  imports Localtime Newlib
begin

text \<open>
  \<^verbatim>\<open>strftime\<close> of newlib (libc/time/strftime.c, built without \<^verbatim>\<open>_WANT_C99_TIME_FORMATS\<close>, in the C locale of
  libc/locale/timelocal.c) and the report of the time at the end of \<^verbatim>\<open>timer_init\<close>. The fields of the
  broken-down time that select a name are within their tables. Lengths are natural numbers: the \<^verbatim>\<open>int\<close> that holds the result of
  the recursive call and the wrap of \<^verbatim>\<open>count\<close> matter only for buffers of \<open>2 ^ 31\<close> bytes and more. A result \<open>None\<close> is the return value 0 for a buffer that is too small or a
  conversion that does not exist; otherwise the text is what the buffer holds.
\<close>

section \<open>The C locale\<close>

definition lc_mon :: "string list" where
  "lc_mon = [''Jan'', ''Feb'', ''Mar'', ''Apr'', ''May'', ''Jun'', ''Jul'', ''Aug'', ''Sep'', ''Oct'', ''Nov'', ''Dec'']"

definition lc_month :: "string list" where
  "lc_month = [''January'', ''February'', ''March'', ''April'', ''May'', ''June'', ''July'', ''August'', ''September'',
     ''October'', ''November'', ''December'']"

definition lc_wday :: "string list" where
  "lc_wday = [''Sun'', ''Mon'', ''Tue'', ''Wed'', ''Thu'', ''Fri'', ''Sat'']"

definition lc_weekday :: "string list" where
  "lc_weekday = [''Sunday'', ''Monday'', ''Tuesday'', ''Wednesday'', ''Thursday'', ''Friday'', ''Saturday'']"

definition lc_X_fmt :: string where "lc_X_fmt = ''%H:%M:%S''"
definition lc_x_fmt :: string where "lc_x_fmt = ''%m/%d/%y''"
definition lc_c_fmt :: string where "lc_c_fmt = ''%a %b %e %H:%M:%S %Y''"
definition lc_ampm_fmt :: string where "lc_ampm_fmt = ''%I:%M:%S %p''"

section \<open>Numbers\<close>

text \<open>\<^verbatim>\<open>%.*u\<close> and \<^verbatim>\<open>%.*d\<close>: a negative precision counts as none, and a zero with precision 0 prints nothing.\<close>

definition prec_u :: "int \<Rightarrow> nat \<Rightarrow> string" where
  "prec_u p n = (if p = 0 \<and> n = 0 then [] else pad_left CHR ''0'' (nat p) (dec n))"

definition prec_d :: "int \<Rightarrow> int \<Rightarrow> string" where
  "prec_d p i = (if i < 0 then ''-'' else []) @ prec_u p (nat \<bar>i\<bar>)"

definition field_2d :: "int \<Rightarrow> string" where
  "field_2d i = pad_left CHR '' '' 2 (fmt_d i)"

section \<open>Years and weeks\<close>

definition iso_leap :: "int \<Rightarrow> int \<Rightarrow> bool" where
  "iso_leap year base = isleap (year + (base - (if year < 0 then 0 else 2000)))"

definition iso_year_adjust :: "tm \<Rightarrow> int" where
  "iso_year_adjust r =
     (let leap = iso_leap (t_year r) 1900; p = (t_yday r, t_wday r)
      in if p \<in> {(0, 5), (0, 6), (0, 0), (1, 6), (1, 0), (2, 0)} then -1
         else if \<not> leap \<and> p \<in> {(362, 1), (363, 1), (363, 2), (364, 1), (364, 2), (364, 3)} then 1
         else if leap \<and> p \<in> {(363, 1), (364, 1), (364, 2), (365, 1), (365, 2), (365, 3)} then 1
         else 0)"

definition century :: "tm \<Rightarrow> int" where
  "century r = (if t_year r \<ge> 0 then t_year r sdiv 100 + 19 else \<bar>t_year r + 1900\<bar> sdiv 100)"

definition year_in_century :: "tm \<Rightarrow> int" where
  "year_in_century r = (if t_year r \<ge> 0 then t_year r smod 100 else \<bar>t_year r + 1900\<bar> smod 100)"

definition monday_first :: "tm \<Rightarrow> int" where
  "monday_first r = (if t_wday r \<noteq> 0 then t_wday r - 1 else 6)"

definition iso_week :: "tm \<Rightarrow> int" where
  "iso_week r =
     (let adjust = iso_year_adjust r; wday = monday_first r
      in if adjust > 0 then 1
         else if adjust < 0 then 52 + of_bool (4 \<ge> wday - t_yday r - of_bool (iso_leap (t_year r) 1899))
         else (t_yday r + 10 - wday) sdiv 7)"

definition iso_year_2 :: "tm \<Rightarrow> int" where
  "iso_year_2 r =
     (let adjust = iso_year_adjust r;
          adjust = (if adjust < 0 \<and> t_year r \<le> -1900 then 1 else if adjust > 0 \<and> t_year r < -1900 then -1 else adjust)
      in ((year_in_century r + adjust) smod 100 + 100) smod 100)"

text \<open>A year as text, with the sign and the flags of \<^verbatim>\<open>%Y\<close> and \<^verbatim>\<open>%G\<close>.\<close>

definition year_text :: "char option \<Rightarrow> u32 \<Rightarrow> bool \<Rightarrow> u32 \<Rightarrow> string" where
  "year_text pad width sign year =
     (let plus = \<not> sign \<and> pad = Some CHR ''+'' \<and> year \<ge> 10000;
          width = (if width \<noteq> 0 \<and> (sign \<or> plus) then width - 1 else width)
      in (if sign then ''-'' else if plus then ''+'' else []) @ prec_u (sint width) (unat year))"

definition conv_Y :: "char option \<Rightarrow> u32 \<Rightarrow> tm \<Rightarrow> string" where
  "conv_Y pad width r =
     (let sign = t_year r < -1900; year = word_of_int (t_year r) + 1900 :: u32
      in year_text pad width sign (if sign then 0xFFFFFFFF - year + 1 else year))"

definition conv_G :: "char option \<Rightarrow> u32 \<Rightarrow> tm \<Rightarrow> string" where
  "conv_G pad width r =
     (let neg = t_year r < -1900; adjust = iso_year_adjust r; last = adjust < 0 \<and> t_year r \<le> -1900;
          sign = neg \<or> last; adjust = (if last then 1 else if adjust > 0 \<and> neg then -1 else adjust);
          year = year_in_century r + adjust;
          (year, c) = (if year = -1 then (99, century r - 1) else if year = 100 then (0, century r + 1) else (year, century r))
      in year_text pad width sign (word_of_int (c * 100 + year)))"

definition conv_C :: "char option \<Rightarrow> u32 \<Rightarrow> tm \<Rightarrow> string" where
  "conv_C pad width r =
     (let neg = t_year r < -1900; width = (if width < 2 then 2 else width)
      in (if neg then ''-'' else if pad = Some CHR ''+'' \<and> century r \<ge> 100 then ''+'' else []) @
         prec_d (sint (width - of_bool neg)) (century r))"

definition conv_F :: "char option \<Rightarrow> u32 \<Rightarrow> string" where
  "conv_F pad width =
     (let width = (if pad = None then 10 else width); width = (if width < 6 then 6 else width) - 6
      in ''%'' @ [case pad of None \<Rightarrow> CHR ''+'' | Some c \<Rightarrow> c] @
         (if width \<noteq> 0 then dec (unat width) else []) @ ''Y-%m-%d'')"

definition zone_text :: "int \<Rightarrow> string" where
  "zone_text offset =
     (let h = offset sdiv 3600
      in (if h < 0 then ''-'' else ''+'') @ pad_left CHR ''0'' 2 (dec (nat \<bar>h\<bar>)) @ prec_d 2 (\<bar>offset sdiv 60\<bar> smod 60))"

section \<open>The conversions\<close>

text \<open>
  What one conversion does: append characters one by one, append formatted text, run \<^verbatim>\<open>strftime\<close> on another format, or give up.
\<close>

datatype piece = Chars string | Printed string | Again string | Fail

definition digit_of :: "int \<Rightarrow> char" where
  "digit_of i = char_of (48 + nat i)"

definition hour12 :: "tm \<Rightarrow> int" where
  "hour12 r = (if t_hour r = 0 \<or> t_hour r = 12 then 12 else t_hour r smod 12)"

definition convert :: "tzinfo \<Rightarrow> string \<times> string \<Rightarrow> char option \<Rightarrow> u32 \<Rightarrow> tm \<Rightarrow> char \<Rightarrow> piece" where
  "convert tz tzname pad width r f =
     (if f = CHR ''a'' then Chars (lc_wday ! nat (t_wday r))
      else if f = CHR ''A'' then Chars (lc_weekday ! nat (t_wday r))
      else if f = CHR ''b'' \<or> f = CHR ''h'' then Chars (lc_mon ! nat (t_mon r))
      else if f = CHR ''B'' then Chars (lc_month ! nat (t_mon r))
      else if f = CHR ''c'' then Again lc_c_fmt
      else if f = CHR ''r'' then Again lc_ampm_fmt
      else if f = CHR ''x'' then Again lc_x_fmt
      else if f = CHR ''X'' then Again lc_X_fmt
      else if f = CHR ''C'' then Printed (conv_C pad width r)
      else if f = CHR ''d'' then Printed (prec_d 2 (t_mday r))
      else if f = CHR ''e'' then Printed (field_2d (t_mday r))
      else if f = CHR ''D'' then Printed (prec_d 2 (t_mon r + 1) @ ''/'' @ prec_d 2 (t_mday r) @ ''/'' @ prec_d 2 (year_in_century r))
      else if f = CHR ''F'' then Again (conv_F pad width)
      else if f = CHR ''g'' then Printed (prec_d 2 (iso_year_2 r))
      else if f = CHR ''G'' then Printed (conv_G pad width r)
      else if f = CHR ''H'' then Printed (prec_d 2 (t_hour r))
      else if f = CHR ''k'' then Printed (field_2d (t_hour r))
      else if f = CHR ''I'' then Printed (prec_d 2 (hour12 r))
      else if f = CHR ''l'' then Printed (field_2d (hour12 r))
      else if f = CHR ''j'' then Printed (prec_d 3 (t_yday r + 1))
      else if f = CHR ''m'' then Printed (prec_d 2 (t_mon r + 1))
      else if f = CHR ''M'' then Printed (prec_d 2 (t_min r))
      else if f = CHR ''n'' then Chars [char_of (10 :: nat)]
      else if f = CHR ''p'' then Chars (if t_hour r < 12 then ''AM'' else ''PM'')
      else if f = CHR ''P'' then Chars (if t_hour r < 12 then ''am'' else ''pm'')
      else if f = CHR ''R'' then Printed (prec_d 2 (t_hour r) @ '':'' @ prec_d 2 (t_min r))
      else if f = CHR ''S'' then Printed (prec_d 2 (t_sec r))
      else if f = CHR ''t'' then Chars [char_of (9 :: nat)]
      else if f = CHR ''T'' then Printed (prec_d 2 (t_hour r) @ '':'' @ prec_d 2 (t_min r) @ '':'' @ prec_d 2 (t_sec r))
      else if f = CHR ''u'' then Chars [if t_wday r = 0 then CHR ''7'' else digit_of (t_wday r)]
      else if f = CHR ''U'' then Printed (prec_d 2 ((t_yday r + 7 - t_wday r) sdiv 7))
      else if f = CHR ''V'' then Printed (prec_d 2 (iso_week r))
      else if f = CHR ''w'' then Chars [digit_of (t_wday r)]
      else if f = CHR ''W'' then Printed (prec_d 2 ((t_yday r + 7 - monday_first r) sdiv 7))
      else if f = CHR ''y'' then Printed (prec_d 2 (year_in_century r))
      else if f = CHR ''Y'' then Printed (conv_Y pad width r)
      else if f = CHR ''z'' then
        (if t_isdst r \<ge> 0 then Printed (zone_text (- z_offset (if t_isdst r > 0 then z_rule1 tz else z_rule0 tz))) else Chars [])
      else if f = CHR ''Z'' then Chars (if t_isdst r \<ge> 0 then (if t_isdst r > 0 then snd tzname else fst tzname) else [])
      else if f = CHR ''%'' then Chars ''%''
      else Fail)"

section \<open>The loop over the format\<close>

text \<open>The flag, the field width (\<^verbatim>\<open>strtoul\<close>, which stops at \<^verbatim>\<open>ULONG_MAX\<close>) and the modifiers \<^verbatim>\<open>E\<close> and \<^verbatim>\<open>O\<close>, which change nothing here.\<close>

definition is_digit :: "char \<Rightarrow> bool" where
  "is_digit c \<longleftrightarrow> 48 \<le> (of_char c :: nat) \<and> (of_char c :: nat) \<le> 57"

definition digits_value :: "string \<Rightarrow> nat" where
  "digits_value t = fold (\<lambda>c n. 10 * n + (of_char c - 48)) t 0"

definition take_flag :: "string \<Rightarrow> char option \<times> string" where
  "take_flag f = (if f \<noteq> [] \<and> (hd f = CHR ''0'' \<or> hd f = CHR ''+'') then (Some (hd f), tl f) else (None, f))"

definition take_width :: "string \<Rightarrow> u32 \<times> string" where
  "take_width f =
     (if f \<noteq> [] \<and> is_digit (hd f) \<and> hd f \<noteq> CHR ''0''
      then (of_nat (min 0xFFFFFFFF (digits_value (takeWhile is_digit f))), dropWhile is_digit f) else (0, f))"

definition take_alt :: "string \<Rightarrow> string" where
  "take_alt f = (if f \<noteq> [] \<and> (hd f = CHR ''E'' \<or> hd f = CHR ''O'') then tl f else f)"

definition directive :: "string \<Rightarrow> char option \<times> u32 \<times> string" where
  "directive f = (case take_flag f of (pad, f) \<Rightarrow> case take_width f of (width, f) \<Rightarrow> (pad, width, take_alt f))"

lemma directive_parts_shorter:
  "length (snd (take_flag f)) \<le> length f" "length (snd (take_width f)) \<le> length f" "length (take_alt f) \<le> length f"
  by (simp_all add: take_flag_def take_width_def take_alt_def length_dropWhile_le)

lemma directive_shorter: "directive f = (pad, width, f') \<Longrightarrow> length f' \<le> length f"
  using directive_parts_shorter(1) [of f] directive_parts_shorter(2) [of "snd (take_flag f)"]
    directive_parts_shorter(3) [of "snd (take_width (snd (take_flag f)))"]
  by (simp add: directive_def case_prod_beta)

text \<open>
  \<^verbatim>\<open>count < maxsize - 1\<close> in unsigned arithmetic. \<open>again\<close> is the recursive call, on the space that is left; the formats it is
  called with hold no conversion that calls again, so one level is enough.
\<close>

definition room :: "nat \<Rightarrow> string \<Rightarrow> bool" where
  "room maxsize s \<longleftrightarrow> length s < (maxsize + 0xFFFFFFFF) mod 0x100000000"

fun append_chars :: "nat \<Rightarrow> string \<Rightarrow> string \<Rightarrow> string option" where
  "append_chars maxsize s [] = Some s"
| "append_chars maxsize s (c # cs) = (if room maxsize s then append_chars maxsize (s @ [c]) cs else None)"

definition append_piece :: "(nat \<Rightarrow> string \<Rightarrow> string option) \<Rightarrow> nat \<Rightarrow> string \<Rightarrow> piece \<Rightarrow> string option" where
  "append_piece again maxsize s p =
     (case p of
        Chars t \<Rightarrow> append_chars maxsize s t
      | Printed t \<Rightarrow> (if length s + length t \<ge> maxsize then None else Some (s @ t))
      | Again f \<Rightarrow>
          (if f = [] then Some s
           else do { t \<leftarrow> again ((maxsize + 0x100000000 - length s) mod 0x100000000) f; if length t > 0 then Some (s @ t) else None })
      | Fail \<Rightarrow> None)"

function format_loop ::
  "(nat \<Rightarrow> string \<Rightarrow> string option) \<Rightarrow> tzinfo \<Rightarrow> string \<times> string \<Rightarrow> tm \<Rightarrow> nat \<Rightarrow> string \<Rightarrow> string \<Rightarrow> string option" where
  "format_loop again tz tzname r maxsize s f =
     (case f of
        [] \<Rightarrow> Some s
      | c # f' \<Rightarrow>
          if c \<noteq> CHR ''%'' then (if room maxsize s then format_loop again tz tzname r maxsize (s @ [c]) f' else None)
          else (case directive f' of (pad, width, g) \<Rightarrow>
                (case g of
                   [] \<Rightarrow> None
                 | k # g' \<Rightarrow>
                     (case append_piece again maxsize s (convert tz tzname pad width r k) of
                        None \<Rightarrow> None
                      | Some s' \<Rightarrow> format_loop again tz tzname r maxsize s' g'))))"
  by pat_completeness auto
termination
  by (relation "measure (\<lambda>(again, tz, tzname, r, maxsize, s, f). length f)") (auto dest!: directive_shorter [OF sym])

declare format_loop.simps [simp del]

definition strftime :: "tzinfo \<Rightarrow> string \<times> string \<Rightarrow> tm \<Rightarrow> nat \<Rightarrow> string \<Rightarrow> string option" where
  "strftime tz tzname r maxsize f =
     format_loop (\<lambda>n f. format_loop (\<lambda>_ _. None) tz tzname r n [] f) tz tzname r maxsize [] f"

text \<open>The end of \<^verbatim>\<open>timer_init\<close>: the text of the message \<^verbatim>\<open>current time is\<close>, with the time zone as newlib starts it. \<^verbatim>\<open>tv_sec\<close> is a signed long.\<close>

definition current_time_text :: "u32 \<Rightarrow> string option" where
  "current_time_text tv_sec =
     do {
       (r, tz) \<leftarrow> localtime_r 0 tzinfo_initial (sint tv_sec);
       Some (case strftime tz (''GMT'', ''GMT'') r 1024 ''%Y-%m-%d %H:%M:%S'' of None \<Rightarrow> [] | Some t \<Rightarrow> t)
     }"

section \<open>The buffer\<close>

lemma room_iff: "0 < maxsize \<Longrightarrow> maxsize < 2 ^ 32 \<Longrightarrow> room maxsize s \<longleftrightarrow> length s < maxsize - 1"
proof -
  assume "0 < maxsize" "maxsize < 2 ^ 32"
  then have "(maxsize + 0xFFFFFFFF) mod 0x100000000 = maxsize - 1"
    using mod_add_self2 [of "maxsize - 1" "0x100000000 :: nat"] by (simp add: add.commute)
  then show ?thesis by (simp add: room_def)
qed

lemma append_chars_fits:
  "append_chars maxsize s t = Some u \<Longrightarrow> 0 < maxsize \<Longrightarrow> maxsize < 2 ^ 32 \<Longrightarrow> length s < maxsize \<Longrightarrow> length u < maxsize"
  by (induction maxsize s t rule: append_chars.induct) (auto simp: room_iff split: if_splits)

definition fits :: "(nat \<Rightarrow> string \<Rightarrow> string option) \<Rightarrow> bool" where
  "fits again \<longleftrightarrow> (\<forall>n f t. 0 < n \<and> n < 2 ^ 32 \<and> again n f = Some t \<longrightarrow> length t < n)"

lemma append_piece_fits:
  assumes "append_piece again maxsize s p = Some u" "fits again" "0 < maxsize" "maxsize < 2 ^ 32" "length s < maxsize"
  shows "length u < maxsize"
proof (cases p)
  case (Again f)
  have "(maxsize + 0x100000000 - length s) mod 0x100000000 = maxsize - length s"
    using assms(4,5) by (simp add: mod_if)
  moreover have "length t < maxsize - length s" if "again (maxsize - length s) f = Some t" for t
    using assms(2) [unfolded fits_def, rule_format, of "maxsize - length s" f t] assms(4,5) that by simp
  ultimately show ?thesis
    using assms(1,5) Again by (fastforce simp: append_piece_def split: if_splits bind_splits)
qed (use assms append_chars_fits in \<open>auto simp: append_piece_def split: if_splits\<close>)

lemma format_loop_fits:
  "format_loop again tz tzname r maxsize s f = Some t \<Longrightarrow> fits again \<Longrightarrow> 0 < maxsize \<Longrightarrow> maxsize < 2 ^ 32 \<Longrightarrow>
   length s < maxsize \<Longrightarrow> length t < maxsize"
proof (induction again tz tzname r maxsize s f rule: format_loop.induct)
  case (1 again tz tzname r maxsize s f)
  show ?case
  proof (cases f)
    case (Cons c f')
    show ?thesis
    proof (cases "c = CHR ''%''")
      case False
      then show ?thesis
        using "1.IH"(1) [OF Cons] 1(3-7) Cons by (subst (asm) format_loop.simps) (auto simp: room_iff split: if_splits)
    next
      case True
      then show ?thesis
        using "1.prems" Cons append_piece_fits [of again maxsize s]
        by (subst (asm) format_loop.simps) (auto split: prod.splits list.splits option.splits intro: "1.IH"(2))
    qed
  qed (use "1.prems" in \<open>simp add: format_loop.simps\<close>)
qed

text \<open>
  C28. \<^verbatim>\<open>strftime\<close> never writes behind a buffer of at least one byte: whatever the format and the time, a text that it returns leaves room
  for the final NUL, the texts of the conversions that call it again included. A buffer of size 0 is excluded: there
  \<^verbatim>\<open>maxsize - 1\<close> wraps to the largest number and the text is written in full.
\<close>

theorem strftime_fits:
  assumes "strftime tz tzname r maxsize f = Some t" "0 < maxsize" "maxsize < 2 ^ 32"
  shows "length t < maxsize"
proof -
  have "fits (\<lambda>_ _. None)" by (simp add: fits_def)
  then have "fits (\<lambda>n f. format_loop (\<lambda>_ _. None) tz tzname r n [] f)"
    using format_loop_fits by (fastforce simp: fits_def)
  then show ?thesis using format_loop_fits [OF assms(1) [unfolded strftime_def]] assms(2,3) by simp
qed

lemma strftime_no_buffer: "strftime tz tzname r 0 ''a'' = Some ''a''"
  by (simp add: strftime_def format_loop.simps room_def)

section \<open>The time of the start-up message\<close>

definition plain :: "char \<Rightarrow> bool" where
  "plain k \<longleftrightarrow> k \<noteq> CHR ''+'' \<and> k \<noteq> CHR ''E'' \<and> k \<noteq> CHR ''O'' \<and> \<not> is_digit k"

lemma format_text:
  "format_loop again tz tzname r maxsize s [] = Some s"
  "c \<noteq> CHR ''%'' \<Longrightarrow> room maxsize s \<Longrightarrow> format_loop again tz tzname r maxsize s (c # f) = format_loop again tz tzname r maxsize (s @ [c]) f"
  by (simp_all add: format_loop.simps [of again tz tzname r maxsize s "_ # _"] format_loop.simps [of again tz tzname r maxsize s "[]"])

lemma format_printed:
  assumes "plain k" "convert tz tzname None 0 r k = Printed t" "length s + length t < maxsize"
  shows "format_loop again tz tzname r maxsize s (CHR ''%'' # k # f) = format_loop again tz tzname r maxsize (s @ t) f"
proof -
  have "k \<noteq> CHR ''0''" using assms(1) by (auto simp: plain_def is_digit_def)
  then have "directive (k # f) = (None, 0, k # f)"
    using assms(1) by (simp add: directive_def take_flag_def take_width_def take_alt_def plain_def)
  then show ?thesis
    using assms(2,3) by (subst format_loop.simps) (simp add: append_piece_def)
qed

definition two_digits :: "nat \<Rightarrow> string" where
  "two_digits n = pad_left CHR ''0'' 2 (dec n)"

lemma two_digits: "n < 100 \<Longrightarrow> length (two_digits n) = 2" "prec_d 2 (int n) = two_digits n"
  using length_dec [of n 2] by (simp_all add: two_digits_def pad_left_def prec_d_def prec_u_def)

lemma conv_Y_dec:
  assumes "0 \<le> t_year r + 1900" "t_year r + 1900 < 10000" "t_year r + 1900 \<noteq> 0"
  shows "conv_Y None 0 r = dec (nat (t_year r + 1900))" "length (dec (nat (t_year r + 1900))) \<le> 4"
proof -
  have "(word_of_int (t_year r) + 1900 :: u32) = of_int (t_year r + 1900)" by simp
  then have "unat (word_of_int (t_year r) + 1900 :: u32) = nat (t_year r + 1900)"
    using assms by (simp only: unsigned_of_int) (simp add: take_bit_int_eq_self)
  then show "conv_Y None 0 r = dec (nat (t_year r + 1900))"
    using assms by (simp add: conv_Y_def year_text_def prec_u_def pad_left_def Let_def)
  show "length (dec (nat (t_year r + 1900))) \<le> 4" by (rule length_dec) (use assms in simp_all)
qed

lemma strftime_date_time:
  assumes r: "0 \<le> t_year r + 1900" "t_year r + 1900 < 10000" "t_year r + 1900 \<noteq> 0" "t_mon r + 1 = int m" "m < 100"
    "t_mday r = int d" "d < 100" "t_hour r = int h" "h < 100" "t_min r = int mi" "mi < 100" "t_sec r = int sc" "sc < 100"
  shows "strftime tz tzname r 1024 ''%Y-%m-%d %H:%M:%S'' = Some (dec (nat (t_year r + 1900)) @ ''-'' @ two_digits m @ ''-'' @
    two_digits d @ '' '' @ two_digits h @ '':'' @ two_digits mi @ '':'' @ two_digits sc)"
proof -
  note conv_Y_dec [OF r(1-3)] two_digits
  then show ?thesis
    using r by (simp add: strftime_def format_printed [where t = "dec (nat (t_year r + 1900))"] format_printed [where t = "two_digits _"]
        format_text room_iff plain_def is_digit_def convert_def)
qed

text \<open>The reference calendar of the theory Timer and the one of \<^verbatim>\<open>gmtime_r\<close> agree.\<close>

lemma leap_isleap: "leap y \<longleftrightarrow> isleap (int y)"
  by (simp add: leap_def isleap_iff flip: int_dvd_int_iff)

lemma days_to_year_start: "int (days_to_year n) = year_start (1970 + int n)"
proof (induction n)
  case (Suc n)
  then show ?case
    using year_start_next [of "1970 + int n"] leap_isleap [of "1970 + n"] by (simp add: year_lengths_def algebra_simps)
qed (simp add: year_start_def leap_days_def)

lemma days_in_month_lengths: "1 \<le> m \<Longrightarrow> m \<le> 12 \<Longrightarrow> int (days_in_month y m) = mon_lengths (isleap (int y)) ! (m - 1)"
  by (auto simp: days_in_month_def leap_isleap mon_lengths_def nth_Cons numeral_eq_Suc split: nat.splits)

lemma days_to_month_start: "1 \<le> m \<Longrightarrow> m \<le> 12 \<Longrightarrow> int (days_to_month y m) = month_start (int y) (m - 1)"
proof (induction m)
  case (Suc m)
  show ?case
  proof (cases "m = 0")
    case False
    then show ?thesis
      using Suc days_in_month_lengths [of m y] month_start_Suc [of "m - 1" "int y"] by simp
  qed (simp add: month_start_def)
qed simp

definition date_tm :: "nat \<Rightarrow> nat \<Rightarrow> nat \<Rightarrow> nat \<Rightarrow> nat \<Rightarrow> nat \<Rightarrow> tm" where
  "date_tm y m d h mi s =
     (let yday = month_start (int y) (m - 1) + int d - 1
      in \<lparr>t_sec = int s, t_min = int mi, t_hour = int h, t_mday = int d, t_mon = int m - 1, t_year = int y - 1900,
          t_wday = (4 + (year_start (int y) + yday)) mod 7, t_yday = yday, t_isdst = 0\<rparr>)"

lemma date_tm_time:
  assumes "1970 \<le> y" "1 \<le> m" "m \<le> 12" "1 \<le> d" "d \<le> days_in_month y m" "h < 24" "mi < 60" "s < 60"
  shows "tm_valid (date_tm y m d h mi s)" "tm_time (date_tm y m d h mi s) = int (unix_time y m d h mi s)"
proof -
  have n: "nat (int m - 1) = m - 1" using assms(2) by simp
  show "tm_valid (date_tm y m d h mi s)"
    using assms days_in_month_lengths [OF assms(2,3), of y]
    by (simp add: date_tm_def Let_def tm_valid_def date_valid_def ymd_valid_def tm_days_def n)
  show "tm_time (date_tm y m d h mi s) = int (unix_time y m d h mi s)"
    using assms days_to_year_start [of "y - 1970"] days_to_month_start [OF assms(2,3), of y]
    by (simp add: date_tm_def Let_def tm_time_def tm_days_def unix_time_def of_nat_diff)
qed

lemma unix_time_long:
  assumes "1970 \<le> y" "y \<le> 2037" "1 \<le> m" "m \<le> 12" "1 \<le> d" "d \<le> days_in_month y m" "h < 24" "mi < 60" "s < 60"
  shows "unix_time y m d h mi s < 2 ^ 31"
proof -
  let ?r = "date_tm y m d h mi s"
  note v = date_tm_time [OF assms(1,3-)]
  have "date_valid ?r" "t_hour ?r \<le> 23" "t_min ?r \<le> 59" "t_sec ?r \<le> 59" using v(1) by (simp_all add: tm_valid_def)
  moreover have "tm_days ?r < year_start 2038"
    using yday_bounds [OF \<open>date_valid ?r\<close>] year_start_less [of "int y" 2038] assms(2)
    by (simp add: tm_days_def date_tm_def Let_def)
  moreover have "year_start 2038 = 24837" by (simp add: year_start_def leap_days_def)
  ultimately have "tm_time ?r < 2147483648" unfolding tm_time_def by simp
  then show ?thesis using v(2) by simp
qed

lemma current_time_text_date:
  assumes v: "1970 \<le> y" "y \<le> 2037" "1 \<le> m" "m \<le> 12" "1 \<le> d" "d \<le> days_in_month y m" "h < 24" "mi < 60" "s < 60"
    and t: "unat tv_sec = unix_time y m d h mi s"
  shows "current_time_text tv_sec = Some (dec y @ ''-'' @ two_digits m @ ''-'' @ two_digits d @ '' '' @
    two_digits h @ '':'' @ two_digits mi @ '':'' @ two_digits s)"
proof -
  let ?r = "date_tm y m d h mi s"
  have u: "uint tv_sec = int (unix_time y m d h mi s)" using t by (simp flip: t)
  have "sint tv_sec = int (unix_time y m d h mi s)"
    unfolding sint_uint u by (rule signed_take_bit_int_eq_self) (use unix_time_long [OF v] in simp_all)
  then have g: "gmtime_r 0 tzinfo_initial (sint tv_sec) = Some (?r, tzinfo_initial)"
    using date_tm_time [OF v(1,3-)] unfolding gmtime_r_def mktm_gmtime_iff by (simp add: date_tm_def Let_def)
  have "\<exists>r. gmtime_r 0 tzinfo_initial (sint tv_sec - 0) = Some (r, tzinfo_initial) \<and>
      localtime_r 0 tzinfo_initial (sint tv_sec) = Some (r\<lparr>t_isdst := 0\<rparr>, tzinfo_initial)"
    by (rule localtime_offset [OF g]) (simp_all add: dst_state_def tzinfo_initial_def tzrule_initial_def)
  then have l: "localtime_r 0 tzinfo_initial (sint tv_sec) = Some (?r, tzinfo_initial)"
    using g by (auto simp: date_tm_def Let_def)
  have dl: "d \<le> 31" using v(6) by (auto simp: days_in_month_def split: if_splits)
  have "nat (t_year ?r + 1900) = y" by (simp add: date_tm_def Let_def)
  moreover have "strftime tzinfo_initial (''GMT'', ''GMT'') ?r 1024 ''%Y-%m-%d %H:%M:%S'' = Some (dec (nat (t_year ?r + 1900)) @ ''-'' @
      two_digits m @ ''-'' @ two_digits d @ '' '' @ two_digits h @ '':'' @ two_digits mi @ '':'' @ two_digits s)"
    by (rule strftime_date_time) (use v dl in \<open>simp_all add: date_tm_def Let_def\<close>)
  ultimately show ?thesis by (simp add: current_time_text_def l)
qed

text \<open>There is a text for every time.\<close>

lemma current_time_text_total: "\<exists>t. current_time_text tv_sec = Some t"
proof -
  obtain r where g: "gmtime_r 0 tzinfo_initial (sint tv_sec) = Some (r, tzinfo_initial)" "tm_time r = sint tv_sec"
    using mktm_fields_val mktm_r_fields(1) unfolding gmtime_r_def by metis
  have "\<exists>q. gmtime_r 0 tzinfo_initial (sint tv_sec - 0) = Some (q, tzinfo_initial) \<and>
      localtime_r 0 tzinfo_initial (sint tv_sec) = Some (q\<lparr>t_isdst := 0\<rparr>, tzinfo_initial)"
    by (rule localtime_offset [OF g(1)]) (simp_all add: dst_state_def tzinfo_initial_def tzrule_initial_def)
  then show ?thesis by (auto simp: current_time_text_def)
qed

lemma dec_year: "dec 2019 = ''2019''" "dec 2023 = ''2023''"
  by (simp_all add: dec.simps char_of_def bit_0)

lemma two_digits_eval: "two_digits 12 = ''12''" "two_digits 31 = ''31''" "two_digits 23 = ''23''" "two_digits 59 = ''59''"
  "two_digits 58 = ''58''" "two_digits 30 = ''30''"
  by (simp_all add: two_digits_def pad_left_def dec.simps char_of_def bit_0)

theorem strftime_fits_witness:
  "strftime tzinfo_initial (''GMT'', ''GMT'') new_year_utc 1024 ''%Y-%m-%d %H:%M:%S'' = Some ''2023-12-31 23:30:59'' \<and>
   length ''2023-12-31 23:30:59'' < (1024 :: nat)"
proof -
  have e: "strftime tzinfo_initial (''GMT'', ''GMT'') new_year_utc 1024 ''%Y-%m-%d %H:%M:%S'' = Some ''2023-12-31 23:30:59''"
    using strftime_date_time [of new_year_utc 12 31 23 30 59] by (simp add: new_year_utc_def dec_year two_digits_eval)
  show ?thesis by (rule conjI [OF e strftime_fits [OF e]]) simp_all
qed

text \<open>From 2038 on the seconds do not fit \<^verbatim>\<open>time_t\<close>, and the date reported lies 2 ^ 32 seconds too early, before 1970.\<close>

lemma time_report_wraps:
  assumes "2 ^ 31 \<le> unat (tv_sec :: u32)"
  shows "\<exists>r. localtime_r 0 tzinfo_initial (sint tv_sec) = Some (r, tzinfo_initial) \<and>
    tm_valid r \<and> tm_time r = int (unat tv_sec) - 2 ^ 32 \<and> t_year r + 1900 < 1970"
proof -
  have t: "sint tv_sec = int (unat tv_sec) - 2 ^ 32"
  proof -
    have "int (2 ^ 31) \<le> int (unat tv_sec)" using assms by (rule of_nat_le_iff [THEN iffD2])
    then have u: "2 ^ 31 \<le> uint tv_sec" "uint tv_sec < 2 ^ 32"
      using unsigned_less [of tv_sec, where ?'a = int] by simp_all
    then have "(uint tv_sec + 2 ^ 31) mod 2 ^ 32 = uint tv_sec - 2 ^ 31" by (intro int_mod_pos_eq [of _ _ 1]) simp_all
    then show ?thesis by (simp add: sint_uint signed_take_bit_eq_take_bit_shift take_bit_eq_mod)
  qed
  obtain r where g: "gmtime_r 0 tzinfo_initial (sint tv_sec) = Some (r, tzinfo_initial)" "tm_valid r" "tm_time r = sint tv_sec"
    using mktm_fields_val mktm_r_fields(1) unfolding gmtime_r_def by metis
  have "\<exists>q. gmtime_r 0 tzinfo_initial (sint tv_sec - 0) = Some (q, tzinfo_initial) \<and>
      localtime_r 0 tzinfo_initial (sint tv_sec) = Some (q\<lparr>t_isdst := 0\<rparr>, tzinfo_initial)"
    by (rule localtime_offset [OF g(1)]) (simp_all add: dst_state_def tzinfo_initial_def tzrule_initial_def)
  moreover have "t_isdst r = 0" using g(1) by (simp add: gmtime_r_def mktm_gmtime_iff)
  ultimately have "localtime_r 0 tzinfo_initial (sint tv_sec) = Some (r, tzinfo_initial)" using g(1) by simp
  moreover have "t_year r + 1900 < 1970"
  proof (rule ccontr)
    assume "\<not> ?thesis"
    then have "0 \<le> year_start (t_year r + 1900)"
      using year_start_less [of 1970 "t_year r + 1900"] by (cases "t_year r + 1900 = 1970") (auto simp: year_start_def leap_days_def year_lengths_def split: if_splits)
    then have "0 \<le> tm_time r" using g(2) yday_bounds [of r] by (simp add: tm_time_def tm_days_def tm_valid_def)
    then show False using g(3) t unsigned_less [of tv_sec, where ?'a = int] by simp
  qed
  ultimately show ?thesis using g t by simp
qed

end
