(* ===== verification/Cpu.thy ===== *)
theory Cpu
  imports Strftime
begin

text \<open>
  The identification of the processor in \<^verbatim>\<open>cpu_type\<close> of timer.c, its calibration,
  \<^verbatim>\<open>timer_init\<close>, and the cache switch of lib.c. The big \<^verbatim>\<open>switch\<close> is split by vendor and
  family; each part takes the globals and returns them with a Boolean that is \<open>False\<close> where
  the code returns before the calibration. The local \<^verbatim>\<open>off\<close>, which is only assigned, is left
  out.
\<close>

section \<open>Helpers\<close>

definition named :: "string \<Rightarrow> timer_vars \<Rightarrow> timer_vars" where
  "named str t = t\<lparr>cpu_type_str := str\<rparr>"

definition ci_byte :: "timer_vars \<Rightarrow> nat \<Rightarrow> int" where
  "ci_byte t i = uint (ci_cache_info (cpu_id t) ! i)"

definition with_l1 :: "timer_vars \<Rightarrow> timer_vars" where
  "with_l1 t = t\<lparr>l1_cache := ci_byte t 3 + ci_byte t 7\<rparr>"

definition with_l2 :: "timer_vars \<Rightarrow> timer_vars" where
  "with_l2 t = t\<lparr>l2_cache := ci_byte t 11 * 256 + ci_byte t 10\<rparr>"

definition ext_model :: "timer_vars \<Rightarrow> u32 \<Rightarrow> int" where
  "ext_model t m = uint (drop_bit 16 (ci_ext (cpu_id t)) AND m)"

section \<open>Processors without the cpuid instruction\<close>

definition getCx86 :: "'e platform \<Rightarrow> u8 \<Rightarrow> ('e, 'z) mach_scheme \<Rightarrow> u8 \<times> ('e, 'z) mach_scheme" where
  "getCx86 P r s = inb P 0x23 (outb P r 0x22 s)"

definition cyrix_name :: "int \<Rightarrow> string" where
  "cyrix_name i =
     (if i \<in> {0, 1} then ''Cyrix Cx486'' else if i = 2 then ''Cyrix 5x86'' else if i = 3 then ''Cyrix 6x86''
      else if i = 4 then ''Cyrix MediaGX'' else if i = 5 then ''Cyrix 6x86MX'' else if i = 6 then ''Cyrix MII''
      else ''Cyrix ???'')"

definition cpu_no_cpuid :: "'e platform \<Rightarrow> ('e, 'z) tmach_scheme \<Rightarrow> ('e, 'z) tmach_scheme" where
  "cpu_no_cpuid P s =
     (let ty = ci_type (cpu_id (tv s))
      in if ty = 2
         then (case getCx86 P 0xfe s of (v, s) \<Rightarrow> s\<lparr>tv := named (cyrix_name (uint (drop_bit 4 (v AND 0xf0)))) (tv s)\<rparr>)
         else if ty = 3 then s\<lparr>tv := named ''386'' (tv s)\<rparr>
         else if ty = 4 then s\<lparr>tv := (named ''486'' (tv s))\<lparr>l1_cache := 8\<rparr>\<rparr>
         else s)"

section \<open>AMD\<close>

definition amd_486 :: "timer_vars \<Rightarrow> timer_vars" where
  "amd_486 t =
     (let m = ci_model (cpu_id t)
      in if m = 3 then named ''AMD 486DX2'' t else if m = 7 then named ''AMD 486DX2-WB'' t
         else if m = 8 then named ''AMD 486DX4'' t else if m = 9 then named ''AMD 486DX4-WB'' t
         else if m = 14 then named ''AMD 5x86-WT'' t else t)"

definition amd_k6 :: "timer_vars \<Rightarrow> timer_vars" where
  "amd_k6 t =
     (let m = ci_model (cpu_id t)
      in if m \<in> {0, 1, 2, 3} then (named ''AMD K5'' t)\<lparr>l1_cache := 8\<rparr>
         else if m \<in> {6, 7} then with_l1 (named ''AMD K6'' t)
         else if m = 8 then with_l1 (named ''AMD K6-2'' t)
         else if m = 9 then with_l2 (with_l1 (named ''AMD K6-III'' t))
         else if m = 10 then with_l2 (with_l1 (named ''AMD Geode LX'' t))
         else if m = 13 then with_l2 (with_l1 (named ''AMD K6-III+'' t))
         else t)"

definition amd_k7 :: "timer_vars \<Rightarrow> timer_vars" where
  "amd_k7 t =
     (let m = ci_model (cpu_id t)
      in with_l1
        (if m = 1 then with_l2 (named ''AMD Athlon (0.25)'' t)
         else if m \<in> {2, 4} then with_l2 (named ''AMD Athlon (0.18)'' t)
         else if m = 6
         then (let t = with_l2 t in named (if l2_cache t = 64 then ''AMD Duron (0.18)'' else ''Athlon XP (0.18)'') t)
         else if m \<in> {8, 10}
         then (let t = with_l2 t in named (if l2_cache t = 64 then ''AMD Duron (0.13)'' else ''Athlon XP (0.13)'') t)
         else if m \<in> {3, 7}
         then (let t = named ''AMD Duron'' t in if ci_step (cpu_id t) = 0 then t\<lparr>l2_cache := 64\<rparr> else with_l2 t)
         else t))"

definition amd_k8 :: "timer_vars \<Rightarrow> timer_vars" where
  "amd_k8 t =
     (let m = ci_model (cpu_id t); old = (ext_model t 0xF \<noteq> 0)
      in if m \<in> {1, 5} then named (if old then ''AMD Opteron (0.09)'' else ''AMD Opteron (0.13)'') t
         else if m \<in> {3, 11} then named ''Athlon 64 X2'' t
         else if m = 8 then named ''Turion 64 X2'' t
         else if m \<in> {4, 7, 12, 14, 15}
         then named (if old then (if l2_cache t > 256 then ''Athlon 64 (0.09)'' else ''Sempron (0.09)'')
                     else (if l2_cache t > 256 then ''Athlon 64 (0.13)'' else ''Sempron (0.13)'')) t
         else named ''AMD K8'' t)"

definition amd_k10 :: "timer_vars \<Rightarrow> timer_vars" where
  "amd_k10 t =
     (let m = ci_model (cpu_id t);
          t = t\<lparr>l3_cache := (ci_byte t 15 * 256 + ci_byte t 14 div 4) * 512\<rparr>
      in if m = 1 then (named ''AMD Fusion @'' t)\<lparr>imc_type := 0x0102\<rparr>
         else if m = 4 then (named ''AMD K10 (45nm) @'' t)\<lparr>imc_type := 0x0101\<rparr>
         else if m = 9 then (named ''AMD Magny-Cours'' t)\<lparr>imc_type := 0x0101\<rparr>
         else (named ''AMD K10 (65nm) @'' t)\<lparr>imc_type := 0x0101\<rparr>)"

definition cpu_amd :: "timer_vars \<Rightarrow> bool \<times> timer_vars" where
  "cpu_amd t =
     (let ty = ci_type (cpu_id t)
      in if ty = 4 then (False, amd_486 t)
         else if ty = 5 then (True, amd_k6 t)
         else if ty = 6 then (True, amd_k7 t)
         else if ty = 15
         then (let t = (with_l2 (t\<lparr>l1_cache := ci_byte t 3\<rparr>))\<lparr>imc_type := 0x0100\<rparr>
               in (True, if ext_model t 0xFF < 0x10 then amd_k8 t else amd_k10 t))
         else (True, t))"

section \<open>Intel and Transmeta\<close>

definition transmeta :: "timer_vars \<Rightarrow> timer_vars" where
  "transmeta t =
     with_l2 (with_l1 (if ci_type (cpu_id t) = 5 then named ''TM 5x00'' t
                       else if ci_type (cpu_id t) = 15 then named ''TM 8x00'' t else t))"

definition intel_486 :: "timer_vars \<Rightarrow> timer_vars" where
  "intel_486 t =
     (let m = ci_model (cpu_id t)
      in if m \<in> {0, 1} then named ''Intel 486DX'' t else if m = 2 then named ''Intel 486SX'' t
         else if m = 3 then named ''Intel 486DX2'' t else if m = 4 then named ''Intel 486SL'' t
         else if m = 5 then named ''Intel 486SX2'' t else if m = 7 then named ''Intel 486DX2-WB'' t
         else if m = 8 then named ''Intel 486DX4'' t else if m = 9 then named ''Intel 486DX4-WB'' t else t)"

text \<open>One descriptor byte. The case of 0x22 and 0xd0 has no \<^verbatim>\<open>break\<close> and ends in the next one.\<close>

definition intel_cache_byte :: "u8 \<Rightarrow> timer_vars \<Rightarrow> timer_vars" where
  "intel_cache_byte b t =
     (if b \<in> {0x06, 0x0a, 0x66} then t\<lparr>l1_cache := 8\<rparr>
      else if b \<in> {0x08, 0x0c, 0x67, 0x60} then t\<lparr>l1_cache := 16\<rparr>
      else if b \<in> {0x09, 0x0d, 0x68, 0x2c, 0x30} then t\<lparr>l1_cache := 32\<rparr>
      else if b = 0x40 then t\<lparr>l2_cache := 0\<rparr>
      else if b \<in> {0x41, 0x79, 0x39, 0x3b} then t\<lparr>l2_cache := 128\<rparr>
      else if b = 0x3a then t\<lparr>l2_cache := 192\<rparr>
      else if b \<in> {0x21, 0x42, 0x7a, 0x82, 0x3c, 0x3f} then t\<lparr>l2_cache := 256\<rparr>
      else if b = 0x3d then t\<lparr>l2_cache := 384\<rparr>
      else if b \<in> {0x43, 0x7b, 0x83, 0x86, 0x3e, 0x7f, 0x80} then t\<lparr>l2_cache := 512\<rparr>
      else if b \<in> {0x44, 0x7c, 0x84, 0x87, 0x78} then t\<lparr>l2_cache := 1024\<rparr>
      else if b \<in> {0x45, 0x7d, 0x85} then t\<lparr>l2_cache := 2048\<rparr>
      else if b = 0x48 then t\<lparr>l2_cache := 3072\<rparr>
      else if b = 0x49 then t\<lparr>l2_cache := 4096\<rparr>
      else if b = 0x4e then t\<lparr>l2_cache := 6144\<rparr>
      else if b \<in> {0x22, 0xd0, 0x23, 0xd1, 0xd6} then t\<lparr>l3_cache := 1024\<rparr>
      else if b = 0xdc then t\<lparr>l3_cache := 1536\<rparr>
      else if b \<in> {0x25, 0xd2, 0xd7, 0xe2} then t\<lparr>l3_cache := 2048\<rparr>
      else if b = 0xdd then t\<lparr>l3_cache := 3072\<rparr>
      else if b \<in> {0x29, 0x46, 0xd8, 0xe3} then t\<lparr>l3_cache := 4096\<rparr>
      else if b \<in> {0x4a, 0xde} then t\<lparr>l3_cache := 6144\<rparr>
      else if b \<in> {0x47, 0x4b, 0xe4} then t\<lparr>l3_cache := 8192\<rparr>
      else if b \<in> {0x4c, 0xea} then t\<lparr>l3_cache := 12288\<rparr>
      else if b = 0x4d then t\<lparr>l3_cache := 16374\<rparr>
      else if b = 0xeb then t\<lparr>l3_cache := 18432\<rparr>
      else if b = 0xec then t\<lparr>l3_cache := 24576\<rparr>
      else t)"

text \<open>
  The deterministic cache parameters: ways, partitions, line size and sets in 32-bit
  arithmetic. A record is the four registers of one \<^verbatim>\<open>cpuid\<close> leaf.
\<close>

definition dcache_size :: "u32 \<Rightarrow> u32 \<Rightarrow> int" where
  "dcache_size ebx ecx =
     sint (((drop_bit 22 ebx AND 0x3FF) + 1) * ((drop_bit 12 ebx AND 0x3FF) + 1) *
           word_of_int (sint (((ebx AND 0xFFF) + 1) * (ecx + 1)) sdiv 1024))"

definition dcache_leaf :: "u32 \<times> u32 \<times> u32 \<Rightarrow> timer_vars \<Rightarrow> timer_vars" where
  "dcache_leaf l t =
     (case l of (eax, ebx, ecx) \<Rightarrow>
        let level = drop_bit 5 eax AND 7
        in if level = 1 then (if eax AND 3 \<noteq> 2 then t\<lparr>l1_cache := dcache_size ebx ecx\<rparr> else t)
           else if level = 2 then t\<lparr>l2_cache := dcache_size ebx ecx\<rparr>
           else if level = 3 then t\<lparr>l3_cache := dcache_size ebx ecx\<rparr>
           else t)"

definition intel_dcache :: "timer_vars \<Rightarrow> timer_vars" where
  "intel_dcache t =
     (let c = cpu_id t
      in if l1_cache t = 0 \<and> drop_bit 5 (ci_dcache0_eax c) AND 7 = 1
         then fold dcache_leaf
                [(ci_dcache0_eax c, ci_dcache0_ebx c, ci_dcache0_ecx c), (ci_dcache1_eax c, ci_dcache1_ebx c, ci_dcache1_ecx c),
                 (ci_dcache2_eax c, ci_dcache2_ebx c, ci_dcache2_ecx c), (ci_dcache3_eax c, ci_dcache3_ebx c, ci_dcache3_ecx c)] t
         else t)"

definition intel_p5 :: "timer_vars \<Rightarrow> timer_vars" where
  "intel_p5 t =
     (let m = ci_model (cpu_id t)
      in if m \<in> {0, 1, 2, 3, 7} then (let t = named ''Pentium'' t in if l1_cache t = 0 then t\<lparr>l1_cache := 8\<rparr> else t)
         else if m \<in> {4, 8} then (let t = named ''Pentium-MMX'' t in if l1_cache t = 0 then t\<lparr>l1_cache := 16\<rparr> else t)
         else t)"

text \<open>Model 14 with an extended model only logs its name.\<close>

definition intel_p6 :: "timer_vars \<Rightarrow> timer_vars" where
  "intel_p6 t =
     (let m = ci_model (cpu_id t); x = ext_model t 0xF; l2 = l2_cache t
      in if m \<in> {0, 1} then named ''Pentium Pro'' t
         else if m = 3 then named ''Pentium II'' t
         else if m = 5
         then (if x \<noteq> 0
               then (if x > 1 then (named ''Intel Core i3/i5'' t)\<lparr>tsc_invariable := 1, imc_type := 3\<rparr>
                     else (let t = named ''Intel EP80579'' t in if l2 = 0 then t\<lparr>l2_cache := 256\<rparr> else t))
               else named (if l2 = 0 then ''Celeron'' else ''Pentium II'') t)
         else if m = 6 then named (if l2 = 128 then ''Celeron'' else ''Pentium II'') t
         else if m \<in> {7, 8, 11}
         then (if x \<noteq> 0 then (named (if l2 < 1024 then ''Celeron'' else ''Intel Core 2'') t)\<lparr>tsc_invariable := 1\<rparr>
               else named (if l2 = 128 then ''Celeron'' else ''Pentium III'') t)
         else if m = 9 then named (if l2 = 512 then ''Celeron M (0.13)'' else ''Pentium M (0.13)'') t
         else if m = 10
         then (if x \<noteq> 0
               then (if x > 1 then (named ''Intel Core Gen2'' t)\<lparr>tsc_invariable := 1, imc_type := 4\<rparr>
                     else (named ''Intel Core i7'' t)\<lparr>tsc_invariable := 1, imc_type := 1\<rparr>)
               else named ''Pentium III Xeon'' t)
         else if m = 12
         then (if x > 1 then (named ''Core i7 (32nm)'' t)\<lparr>tsc_invariable := 1, imc_type := 2\<rparr>
               else (named ''Atom (0.045)'' t)\<lparr>l1_cache := 24\<rparr>)
         else if m = 13 then named (if l2 = 1024 then ''Celeron M (0.09)'' else ''Pentium M (0.09)'') t
         else if m = 14
         then (if x \<noteq> 0 then t\<lparr>tsc_invariable := 1, imc_type := 1\<rparr> else named ''Intel Core'' t)
         else if m = 15 then (named (if l2 = 1024 then ''Pentium E'' else ''Intel Core 2'') t)\<lparr>tsc_invariable := 1\<rparr>
         else t)"

definition intel_p4 :: "timer_vars \<Rightarrow> timer_vars" where
  "intel_p4 t =
     (let m = ci_model (cpu_id t); l2 = l2_cache t; pw = ci_pwrcap (cpu_id t); st = ci_step (cpu_id t)
      in if m \<in> {0, 1}
         then named (if l2 = 128 then ''Celeron (0.18)'' else if pw = 0x0B then ''Xeon DP (0.18)''
                     else if pw = 0x0C then ''Xeon MP (0.18)'' else ''Pentium 4 (0.18)'') t
         else if m = 2
         then named (if l2 = 128 then ''Celeron (0.13)'' else if pw = 0x0B then ''Xeon DP (0.13)''
                     else if pw = 0x0C then ''Xeon MP (0.13)'' else ''Pentium 4 (0.13)'') t
         else if m \<in> {3, 4}
         then named (if l2 = 256 then ''Celeron (0.09)'' else if pw = 0x0B then ''Xeon DP (0.09)''
                     else if pw = 0x0C then ''Xeon MP (0.09)''
                     else if (st = 4 \<or> st = 7) \<and> m = 4 then ''Pentium D (0.09)'' else ''Pentium 4 (0.09)'') t
         else if m = 6 then named ''Pentium D (65nm)'' t
         else named ''Unknown Intel'' t)"

definition cpu_intel :: "timer_vars \<Rightarrow> bool \<times> timer_vars" where
  "cpu_intel t =
     (let ty = ci_type (cpu_id t)
      in if ci_vend_id (cpu_id t) ! 7 = CHR ''T'' then (True, transmeta t)
         else if ty = 4 then (False, intel_486 t)
         else let t = intel_dcache (fold intel_cache_byte (take 16 (ci_cache_info (cpu_id t))) t)
              in (True, if ty = 5 then intel_p5 t else if ty = 6 then intel_p6 t else if ty = 15 then intel_p4 t else t))"

section \<open>Centaur, Cyrix and others\<close>

definition centaur :: "timer_vars \<Rightarrow> timer_vars" where
  "centaur t =
     (let t = (with_l1 t)\<lparr>l2_cache := ci_byte t 11\<rparr>; ty = ci_type (cpu_id t); m = ci_model (cpu_id t)
      in if ty = 5 then named ''Centaur 5x86'' t
         else if ty = 6
         then (if m = 10 then (named ''VIA C7 (C5J)'' t)\<lparr>l1_cache := 64, l2_cache := 128\<rparr>
               else if m = 13 then (named ''VIA C7 (C5R)'' t)\<lparr>l1_cache := 64, l2_cache := 128\<rparr>
               else if m = 15 then (named ''VIA Isaiah (CN)'' t)\<lparr>l1_cache := 64, l2_cache := 1024\<rparr>
               else named (if ci_step (cpu_id t) < 8 then ''VIA C3 Samuel2'' else ''VIA C3 Eden'') t)
         else t)"

definition cyrix :: "timer_vars \<Rightarrow> bool \<times> timer_vars" where
  "cyrix t =
     (let ty = ci_type (cpu_id t); m = ci_model (cpu_id t)
      in if ty = 5
         then (False, if m = 0 then named ''Cyrix 6x86MX/MII'' t else if m = 4 then named ''Cyrix GXm'' t else t)
         else if ty = 6
         then (True,
           (if m = 6 then named ''Cyrix III'' t
            else if m = 7 then named (if ci_step (cpu_id t) < 8 then ''VIA C3 Samuel2'' else ''VIA C3 Ezra-T'') t
            else if m = 8 then named ''VIA C3 Ezra-T'' t
            else if m = 9 then named ''VIA C3 Nehemiah'' t
            else t)\<lparr>l1_cache := 64, l2_cache := 64\<rparr>)
         else (True, t))"

definition cpu_other :: "timer_vars \<Rightarrow> bool \<times> timer_vars" where
  "cpu_other t =
     (let ty = ci_type (cpu_id t)
      in if ty = 5 then (False, named ''586'' t) else if ty = 6 then (False, named ''686'' t) else (True, t))"

definition cpu_identify :: "timer_vars \<Rightarrow> bool \<times> timer_vars" where
  "cpu_identify t =
     (let v = ci_vend_id (cpu_id t)
      in if v ! 0 = CHR ''A'' then cpu_amd t
         else if v ! 0 = CHR ''G'' then cpu_intel t
         else if v ! 0 = CHR ''C'' then (if v ! 1 = CHR ''e'' then (True, centaur t) else cyrix t)
         else cpu_other t)"

section \<open>Calibration and initialisation\<close>

text \<open>
  \<^verbatim>\<open>speed\<close> is unsigned, so the test \<^verbatim>\<open>(speed = cpuspeed()) > 0\<close> holds for the failure value -1
  as well. The last line of \<^verbatim>\<open>cpu_type\<close> sets the L1 size where the L2 size is missing.
\<close>

definition calibrate :: "int \<Rightarrow> timer_vars \<Rightarrow> timer_vars" where
  "calibrate khz t =
     (let sp = word_of_int khz :: u32;
          t = (if sp > 0
               then (let sp = (if sp < 1000000 - 50 then sp + 50 else sp + 500) in t\<lparr>speed := sp, extclock := sp\<rparr>)
               else t\<lparr>speed := sp\<rparr>);
          t = t\<lparr>rdtsc_ok := 1\<rparr>;
          t = (if l1_cache t = 0 then t\<lparr>l1_cache := 66\<rparr> else t)
      in if l2_cache t = 0 then t\<lparr>l1_cache := 666\<rparr> else t)"

definition cpu_type :: "'e platform \<Rightarrow> ('e, 'z) tmach_scheme \<Rightarrow> ('e, 'z) tmach_scheme option" where
  "cpu_type P s =
     (if ci_cpuid (cpu_id (tv s)) < 1 then Some (cpu_no_cpuid P s)
      else let t = (if bit (ci_capability (cpu_id (tv s))) 6 then (tv s)\<lparr>pae := 1\<rparr> else tv s)
           in case cpu_identify t of
                (False, t) \<Rightarrow> Some (s\<lparr>tv := t\<rparr>)
              | (True, t) \<Rightarrow> do {
                  (khz, s) \<leftarrow> cpuspeed P (s\<lparr>tv := t\<rparr>);
                  Some (s\<lparr>tv := calibrate khz (tv s)\<rparr>)
                })"

text \<open>
  \<open>timer_init_log\<close> also gives the text of the message \<^verbatim>\<open>current time is\<close> that ends the function; the
  other log calls are left out.
\<close>

definition timer_init_log :: "'e platform \<Rightarrow> ('e, 'z) tmach_scheme \<Rightarrow> (string \<times> ('e, 'z) tmach_scheme) option" where
  "timer_init_log P s =
     do {
       s \<leftarrow> cpu_type P s;
       (tm, s) \<leftarrow> rtc_get_rtc_time P s;
       let s = s\<lparr>tv := (tv s)\<lparr>global_rtc_tm := tm\<rparr>\<rparr>;
       (case rdtsc P s of (start, s) \<Rightarrow>
        do {
          (now, s) \<leftarrow> do_gettimeofday P (s\<lparr>tv := (tv s)\<lparr>tm_base_clk := start\<rparr>\<rparr>);
          msg \<leftarrow> current_time_text (fst now);
          Some (msg, s)
        })
     }"

definition timer_init :: "'e platform \<Rightarrow> ('e, 'z) tmach_scheme \<Rightarrow> ('e, 'z) tmach_scheme option" where
  "timer_init P s = map_option snd (timer_init_log P s)"

section \<open>Cache control (lib.c)\<close>

text \<open>Control register 0: \<^verbatim>\<open>cache_off\<close> sets bit 30 (CD), \<^verbatim>\<open>cache_on\<close> clears bits 30 and 29 (NW).\<close>

definition cache_off :: "u32 \<Rightarrow> u32" where "cache_off cr0 = cr0 OR 0x40000000"

definition cache_on :: "u32 \<Rightarrow> u32" where "cache_on cr0 = cr0 AND 0x9fffffff"

definition set_cache :: "cpu_ident \<Rightarrow> int \<Rightarrow> u32 \<Rightarrow> u32" where
  "set_cache c val cr0 =
     (if ci_cpuid c < 1 \<and> ci_type c = 3 then cr0
      else if val = 0 then cache_off cr0 else if val = 1 then cache_on cr0 else cr0)"

section \<open>The frame of the identification\<close>

text \<open>\<open>tvia\<close> is a run that touches the devices and the globals of timer.c.\<close>

definition tvia :: "'e platform \<Rightarrow> ('e, 'z) tmach_scheme \<Rightarrow> ('e, 'z) tmach_scheme \<Rightarrow> bool" where
  "tvia P s t \<longleftrightarrow> (\<exists>v e. t = s\<lparr>dev := e, tv := v\<rparr> \<and> reaches P (\<lambda>_. False) (dev s) e)"

lemma tvia_dvia: "dvia P s t \<Longrightarrow> tvia P s t"
  unfolding dvia_def tvia_def by (elim exE conjE, rule exI [of _ "tv s"]) auto

lemma tvia_tv [simp]: "tvia P s (s\<lparr>tv := v\<rparr>)"
  unfolding tvia_def by (rule exI [of _ v], rule exI [of _ "dev s"]) (simp add: here)

lemma tvia_trans: "tvia P s t \<Longrightarrow> tvia P t u \<Longrightarrow> tvia P s u"
  by (fastforce simp: tvia_def intro: reaches_trans)

lemma tvia_cpu_type: "cpu_type P s = Some t \<Longrightarrow> tvia P s t"
proof -
  assume c: "cpu_type P s = Some t"
  have n: "tvia P s (cpu_no_cpuid P s)"
  proof -
    have g: "dvia P s (snd (getCx86 P 0xfe s))" unfolding getCx86_def by (rule dvia_trans [OF dvia_outb dvia_inb])
    then show ?thesis by (auto simp: cpu_no_cpuid_def Let_def case_prod_beta intro: tvia_trans [OF tvia_dvia [OF g]] tvia_dvia)
  qed
  have k: "tvia P s (u\<lparr>tv := w\<rparr>)" if "cpuspeed P (s\<lparr>tv := v\<rparr>) = Some (k, u)" for k u v w
    by (rule tvia_trans [OF tvia_trans [OF tvia_tv tvia_dvia [OF dvia_cpuspeed [OF that]]] tvia_tv])
  show ?thesis
    using c n k by (auto simp: cpu_type_def Let_def split: if_splits prod.splits bool.splits bind_splits)
qed

lemma tvia_timer_init: "timer_init P s = Some t \<Longrightarrow> tvia P s t"
proof -
  assume "timer_init P s = Some t"
  then obtain u tm w now where u: "cpu_type P s = Some u" "rtc_get_rtc_time P u = Some (tm, w)"
    "do_gettimeofday P ((snd (rdtsc P (w\<lparr>tv := (tv w)\<lparr>global_rtc_tm := tm\<rparr>\<rparr>)))
       \<lparr>tv := (tv (snd (rdtsc P (w\<lparr>tv := (tv w)\<lparr>global_rtc_tm := tm\<rparr>\<rparr>))))\<lparr>tm_base_clk := fst (rdtsc P (w\<lparr>tv := (tv w)\<lparr>global_rtc_tm := tm\<rparr>\<rparr>))\<rparr>\<rparr>) = Some (now, t)"
    by (auto simp: timer_init_def timer_init_log_def Let_def case_prod_beta split: bind_splits)
  show ?thesis
    by (rule tvia_trans [OF tvia_cpu_type [OF u(1)]], rule tvia_trans [OF tvia_dvia [OF dvia_rtc_get_rtc_time [OF u(2)]]],
        rule tvia_trans [OF tvia_tv], rule tvia_trans [OF tvia_dvia [OF dvia_rdtsc]], rule tvia_trans [OF tvia_tv tvia_dvia [OF dvia_do_gettimeofday [OF u(3)]]])
qed

section \<open>Processors without a calibrated clock\<close>

text \<open>
  The processors that \<^verbatim>\<open>cpu_type\<close> does not calibrate: those without the \<^verbatim>\<open>cpuid\<close> instruction, family 4 of AMD and Intel
  (but not of Transmeta, whose vendor string GenuineTMx86 also starts with G), family 5 of Cyrix (but not of Centaur),
  and the families 5 and 6 of any vendor whose string starts with neither A, G nor C.
\<close>

definition uncalibrated :: "timer_vars \<Rightarrow> bool" where
  "uncalibrated t \<longleftrightarrow>
     (let c = cpu_id t; v = ci_vend_id c; family = ci_type c
      in ci_cpuid c < 1 \<or>
         v ! 0 = CHR ''A'' \<and> family = 4 \<or>
         v ! 0 = CHR ''G'' \<and> v ! 7 \<noteq> CHR ''T'' \<and> family = 4 \<or>
         v ! 0 = CHR ''C'' \<and> v ! 1 \<noteq> CHR ''e'' \<and> family = 5 \<or>
         v ! 0 \<notin> {CHR ''A'', CHR ''G'', CHR ''C''} \<and> family \<in> {5, 6})"

text \<open>These are exactly the early returns of the code.\<close>

lemma uncalibrated_identify:
  "uncalibrated t \<longleftrightarrow> ci_cpuid (cpu_id t) < 1 \<or>
     \<not> fst (cpu_identify (if bit (ci_capability (cpu_id t)) 6 then t\<lparr>pae := 1\<rparr> else t))"
  by (simp add: uncalibrated_def cpu_identify_def cpu_amd_def cpu_intel_def cyrix_def cpu_other_def Let_def)

lemma early_return_clock: "cpu_identify t = (False, u) \<Longrightarrow> extclock u = extclock t"
  by (auto simp: cpu_identify_def cpu_amd_def cpu_intel_def cyrix_def cpu_other_def amd_486_def intel_486_def named_def Let_def
      split: if_splits)

lemma cpu_no_cpuid_clock: "extclock (tv (cpu_no_cpuid P s)) = extclock (tv s)"
  by (auto simp: cpu_no_cpuid_def Let_def named_def getCx86_def inb_def outb_def split: prod.splits)

lemma cpu_type_uncalibrated:
  assumes "uncalibrated (tv s)"
  shows "\<exists>t. cpu_type P s = Some t \<and> extclock (tv t) = extclock (tv s)"
proof (cases "ci_cpuid (cpu_id (tv s)) < 1")
  case True
  then show ?thesis by (simp add: cpu_type_def cpu_no_cpuid_clock)
next
  case False
  define v where "v = (if bit (ci_capability (cpu_id (tv s))) 6 then (tv s)\<lparr>pae := 1\<rparr> else tv s)"
  obtain u where u: "cpu_identify v = (False, u)"
    using assms False by (cases "cpu_identify v") (auto simp: uncalibrated_identify v_def)
  have "extclock v = extclock (tv s)" by (simp add: v_def)
  then show ?thesis using False u early_return_clock [OF u] by (simp add: cpu_type_def Let_def flip: v_def)
qed

section \<open>The clock chip\<close>

definition cmos_status :: "'e platform \<Rightarrow> 'e \<Rightarrow> u8 \<times> 'e" where
  "cmos_status P e = p_inb P 0x71 (p_outb P 10 0x70 e)"

definition rtc_settles :: "'e platform \<Rightarrow> bool" where
  "rtc_settles P \<longleftrightarrow> (\<forall>e. \<exists>n. fst (cmos_status P (((\<lambda>d. snd (cmos_status P d)) ^^ n) e)) AND 0x80 = 0)"

lemma rtc_is_updating_status: "rtc_is_updating P s = (fst (cmos_status P (dev s)) AND 0x80, s\<lparr>dev := snd (cmos_status P (dev s))\<rparr>)"
  by (simp add: rtc_is_updating_def rtc_cmos_read_def inb_def outb_def cmos_status_def case_prod_beta)

lemma rtc_wait_settles: "rtc_settles P \<Longrightarrow> \<exists>t. rtc_wait P s = Some t"
proof -
  have "fst (cmos_status P (((\<lambda>d. snd (cmos_status P d)) ^^ n) (dev s))) AND 0x80 = 0 \<Longrightarrow> \<exists>t. rtc_wait P s = Some t" for n
  proof (induction n arbitrary: s)
    case 0
    then show ?case by (subst rtc_wait.simps) (simp add: rtc_is_updating_status)
  next
    case (Suc n)
    have "fst (cmos_status P (((\<lambda>d. snd (cmos_status P d)) ^^ n) (dev (s\<lparr>dev := snd (cmos_status P (dev s))\<rparr>)))) AND 0x80 = 0"
      using Suc.prems unfolding funpow_Suc_right by simp
    from Suc.IH [OF this] show ?case by (subst rtc_wait.simps) (simp add: rtc_is_updating_status)
  qed
  then show "rtc_settles P \<Longrightarrow> \<exists>t. rtc_wait P s = Some t" unfolding rtc_settles_def by blast
qed

lemma rtc_get_rtc_time_settles: "rtc_settles P \<Longrightarrow> \<exists>tm t. rtc_get_rtc_time P s = Some (tm, t)"
  using rtc_wait_settles [of P s]
  by (auto simp: rtc_get_rtc_time_def case_prod_beta simp del: cmos_reads.simps)

section \<open>A clock that does not start\<close>

text \<open>
  C32. On a processor without \<^verbatim>\<open>cpuid\<close>, an AMD or Intel 486, a Cyrix of family 5 or one of an
  unknown vendor of family 5 or 6, \<^verbatim>\<open>cpu_type\<close> returns with the clock rate still 0; the date is read from the clock chip and the counter is recorded,
  and then the first time of day divides by the rate: \<^verbatim>\<open>timer_init\<close> does not
  return, because of this division and not of a loop that waits (the clock chip is one whose update ends).
\<close>

theorem timer_init_traps:
  assumes "uncalibrated (tv s)" "extclock (tv s) = 0" "rtc_settles P"
  shows "\<exists>t tm u start w. cpu_type P s = Some t \<and> extclock (tv t) = 0 \<and> rtc_get_rtc_time P t = Some (tm, u) \<and>
    rdtsc P (u\<lparr>tv := (tv u)\<lparr>global_rtc_tm := tm\<rparr>\<rparr>) = (start, w) \<and>
    (\<forall>n. udivdi3 n (ucast (extclock (tv w))) = None) \<and>
    do_gettimeofday P (w\<lparr>tv := (tv w)\<lparr>tm_base_clk := start\<rparr>\<rparr>) = None \<and> timer_init P s = None"
proof -
  obtain t where t: "cpu_type P s = Some t" "extclock (tv t) = 0"
    using cpu_type_uncalibrated [OF assms(1)] assms(2) by auto
  obtain tm u where u: "rtc_get_rtc_time P t = Some (tm, u)" using rtc_get_rtc_time_settles [OF assms(3)] by blast
  obtain e where e: "u = t\<lparr>dev := e\<rparr>" using dvia_rtc_get_rtc_time [OF u] by (auto simp: dvia_def)
  obtain start w where w: "rdtsc P (u\<lparr>tv := (tv u)\<lparr>global_rtc_tm := tm\<rparr>\<rparr>) = (start, w)"
    by (cases "rdtsc P (u\<lparr>tv := (tv u)\<lparr>global_rtc_tm := tm\<rparr>\<rparr>)")
  have clk: "extclock (tv w) = 0" using w t(2) by (auto simp: rdtsc_def e split: prod.splits)
  then have g: "do_gettimeofday P (w\<lparr>tv := (tv w)\<lparr>tm_base_clk := start\<rparr>\<rparr>) = None"
    by (simp add: do_gettimeofday_def get_timer_offset_usec_def rdtsc_def lib64.udiv_trap case_prod_beta)
  then have "timer_init P s = None" by (simp add: timer_init_def timer_init_log_def t(1) u w Let_def)
  then show ?thesis using t u w g clk by (auto simp: lib64.udiv_trap)
qed

lemma ideal_rtc_settles: "rtc_settles (ideal G)"
  unfolding rtc_settles_def by (intro allI exI [of _ 0]) (simp add: cmos_status_def ideal_def)

theorem timer_init_traps_witness:
  "timer_init (ideal (\<lambda>_. (1, 1))) ((sample_tmach 0)\<lparr>tv := sample_timer\<lparr>extclock := 0, cpu_id := sample_cpu\<lparr>ci_vend_id := ''SiS SiS SiS ''\<rparr>\<rparr>\<rparr>) = None"
proof -
  let ?s = "(sample_tmach 0)\<lparr>tv := sample_timer\<lparr>extclock := 0, cpu_id := sample_cpu\<lparr>ci_vend_id := ''SiS SiS SiS ''\<rparr>\<rparr>\<rparr>"
  have "uncalibrated (tv ?s)" "extclock (tv ?s) = 0" by (simp_all add: uncalibrated_def sample_timer_def sample_cpu_def Let_def)
  from timer_init_traps [OF this ideal_rtc_settles] show ?thesis by blast
qed

section \<open>Calibration\<close>

lemma gate_loop_open: "fst (p_inb P 0x61 (dev s)) AND 0x20 \<noteq> 0 \<Longrightarrow> gate_loop P n s = Some (n + 1, snd (inb P 0x61 s))"
  by (subst gate_loop.simps) (simp add: inb_def case_prod_beta)

lemma gate_loop_returns:
  "fst (p_inb P 0x61 (((\<lambda>d. snd (p_inb P 0x61 d)) ^^ n) (dev s))) AND 0x20 \<noteq> 0 \<Longrightarrow> \<exists>r t. gate_loop P k s = Some (r, t)"
proof (induction n arbitrary: s k)
  case 0
  then show ?case using gate_loop_open [of P s k] by simp
next
  case (Suc n)
  let ?u = "snd (inb P 0x61 s)"
  have "fst (p_inb P 0x61 (((\<lambda>d. snd (p_inb P 0x61 d)) ^^ n) (dev ?u))) AND 0x20 \<noteq> 0"
    using Suc.prems unfolding funpow_Suc_right by (simp add: inb_def case_prod_beta)
  from Suc.IH [OF this] show ?case by (subst gate_loop.simps) (simp add: case_prod_beta)
qed

text \<open>
  On processors whose counter runs at the maximal rate the count is corrected by the ratio of the current and
  the maximal multiplier. The hypothesis on the model-specific registers is that the current multiplier (\<^verbatim>\<open>0x198\<close> low, or
  the field of \<^verbatim>\<open>0x2A\<close>) never exceeds the maximal one (\<^verbatim>\<open>0x198\<close> high or \<^verbatim>\<open>0x17\<close> low), unless that reads as 0.
\<close>

definition msr :: "'e platform \<Rightarrow> u32 \<Rightarrow> 'e \<Rightarrow> u32 \<times> u32" where
  "msr P n e = fst (p_rdmsr P n e)"

definition ratios_ok :: "'e platform \<Rightarrow> bool" where
  "ratios_ok P \<longleftrightarrow>
     (\<forall>e e' top. top \<noteq> 0 \<and> (top = coefficient (snd (msr P 0x198 e)) \<or> top = coefficient (fst (msr P 0x17 e))) \<longrightarrow>
        coefficient (fst (msr P 0x198 e')) \<le> top \<and> ucast (drop_bit 22 (fst (msr P 0x2A e')) AND 0x1F) * 2 \<le> top)"

lemma coefficient_bound: "unat (coefficient m) \<le> 63"
proof -
  have "unat (drop_bit 8 m AND 0x1F) \<le> 31" "unat (drop_bit 14 m AND 1) \<le> 1"
    using word_and_le1 [of "drop_bit 8 m" "0x1F"] word_and_le1 [of "drop_bit 14 m" 1] by (simp_all add: word_le_nat_alt and.commute)
  then show ?thesis
    by (simp add: coefficient_def unat_word_ariths unsigned_ucast_eq take_bit_nat_eq_self)
qed

text \<open>A corrected count of at least 50000 is at least 793 and not more than before.\<close>

lemma scaled_count:
  fixes el :: u32 and now top :: u64
  assumes "50000 \<le> unat el" "now \<noteq> 0" "now \<le> top" "unat top \<le> 63"
  shows "793 \<le> unat (ucast (ucast el * now div top) :: u32)"
proof -
  have n: "1 \<le> unat now" "unat now \<le> unat top" using assms(2,3) by (simp_all add: unat_gt_0 Suc_le_eq word_le_nat_alt)
  have el: "unat el < 2 ^ 32" using unsigned_less [of el, where 'a = nat] by simp
  have p: "unat el * unat now \<le> unat el * 63" using n assms(4) by (intro mult_le_mono2) simp
  have "unat (ucast el * now :: u64) = unat el * unat now"
    using le_less_trans [OF p, of "2 ^ 64"] el by (simp add: unat_word_ariths unat_u32_u64)
  then have d: "unat (ucast el * now div top) = unat el * unat now div unat top" by (simp add: unat_div_distrib)
  have "50000 div 63 \<le> unat el * unat now div unat top"
  proof -
    have "50000 \<le> unat el * unat now" using assms(1) n mult_le_mono [of 50000 "unat el" 1 "unat now"] by simp
    then have "50000 div 63 \<le> 50000 div unat top" using assms(4) n by (intro div_le_mono2) simp_all
    also have "\<dots> \<le> unat el * unat now div unat top" by (intro div_le_mono) fact
    finally show ?thesis .
  qed
  moreover have "unat el * unat now div unat top \<le> unat el"
  proof -
    have "unat el * unat now \<le> unat el * unat top" using n by (intro mult_le_mono2)
    then have "unat el * unat now div unat top \<le> unat el * unat top div unat top" by (rule div_le_mono)
    then show ?thesis using n by simp
  qed
  ultimately show ?thesis using el by (simp add: unat_u64_u32 d)
qed

lemma correct_tsc_bound:
  assumes "ratios_ok P" "50000 \<le> unat el"
  shows "793 \<le> unat (fst (correct_tsc P el s))"
proof -
  obtain top now :: u64 where c: "fst (correct_tsc P el s) = (if top \<noteq> 0 \<and> now \<noteq> 0 then ucast (ucast el * now div top) else el)"
    "top \<noteq> 0 \<Longrightarrow> now \<le> top" "unat top \<le> 63"
  proof -
    define s1 where "s1 = snd (rdmsr P 0x198 s)"
    define n where "n = (if drop_bit 31 (fst (fst (rdmsr P 0x198 s))) AND 1 \<noteq> 0 then 0x198 else 0x17 :: u32)"
    define top where "top = (if drop_bit 31 (fst (fst (rdmsr P 0x198 s))) AND 1 \<noteq> 0
      then coefficient (snd (fst (rdmsr P 0x198 s1))) else coefficient (fst (fst (rdmsr P 0x17 s1))))"
    define s2 where "s2 = snd (rdmsr P n s1)"
    define now where "now = (if drop_bit 7 (ci_feature_flag (cpu_id (tv s2))) AND 1 \<noteq> 0
      then coefficient (fst (fst (rdmsr P 0x198 s2))) else ucast (drop_bit 22 (fst (fst (rdmsr P 0x2A s2))) AND 0x1F) * 2)"
    have m: "fst (rdmsr P k x) = msr P k (dev x)" for k and x :: "('a, 'b) tmach_scheme" by (simp add: rdmsr_def msr_def case_prod_beta)
    show thesis
    proof (rule that [of top now])
      show "fst (correct_tsc P el s) = (if top \<noteq> 0 \<and> now \<noteq> 0 then ucast (ucast el * now div top) else el)"
        by (simp add: correct_tsc_def case_prod_beta top_def now_def s1_def s2_def n_def)
      have "top = coefficient (snd (msr P 0x198 (dev s1))) \<or> top = coefficient (fst (msr P 0x17 (dev s1)))"
        by (simp add: top_def m)
      then have "coefficient (fst (msr P 0x198 (dev s2))) \<le> top \<and> ucast (drop_bit 22 (fst (msr P 0x2A (dev s2))) AND 0x1F) * 2 \<le> top"
        if "top \<noteq> 0" using assms(1) that unfolding ratios_ok_def by blast
      then show "top \<noteq> 0 \<Longrightarrow> now \<le> top" by (simp add: now_def m)
      show "unat top \<le> 63" by (simp add: top_def coefficient_bound)
    qed
  qed
  show ?thesis using c scaled_count [OF assms(2), of now top] assms(2) by auto
qed

text \<open>The rate in kilohertz: the failure value, or the counted cycles of 50 milliseconds divided by 50.\<close>

lemma khz_bounds: "793 \<le> unat (el :: u32) \<Longrightarrow> 15 \<le> sint (el div 50) \<and> sint (el div 50) \<le> 85899345"
proof -
  assume "793 \<le> unat el"
  then have "793 \<le> int (unat el)" by linarith
  then have e: "793 \<le> uint el" "uint el < 4294967296" using unsigned_less [of el, where 'a = int] by simp_all
  have d: "uint (el div 50) = uint el div 50" by (simp add: uint_div_distrib)
  have q: "15 \<le> uint el div 50" "uint el div 50 \<le> 85899345" using e by linarith+
  then have "sint (el div 50) = uint el div 50" using d by (simp add: signed_take_bit_int_eq_self sint_uint)
  then show ?thesis using q by simp
qed

lemma cpuspeed_result:
  assumes g: "\<And>s k. \<exists>r t. gate_loop P k (s :: ('e, 'z) tmach_scheme) = Some (r, t)" and i: "ratios_ok P"
  shows "\<exists>khz t. cpuspeed P (s :: ('e, 'z) tmach_scheme) = Some (khz, t) \<and> (khz = -1 \<or> 15 \<le> khz \<and> khz \<le> 85899345)"
proof -
  define s1 where "s1 = snd (rdtsc P (outb P (of_nat (TICKS div 256)) 0x42 (outb P (of_nat TICKS) 0x42 (outb P 0xb0 0x43
      (outb P ((fst (inb P 0x61 s) AND NOT 0x02) OR 0x01) 0x61 (snd (inb P 0x61 s)))))))"
  obtain r t where t: "gate_loop P 0 s1 = Some (r, t)" using g by blast
  have el: "793 \<le> unat el" "793 \<le> unat (fst (correct_tsc P el x))" if "\<not> el < 50000" for el and x :: "('e, 'z) tmach_scheme"
    using that correct_tsc_bound [OF i, of el x] by (simp_all add: word_less_nat_alt)
  have "\<exists>khz u. cpuspeed P s = Some (khz, u) \<and> (khz = -1 \<or> (\<exists>el. 793 \<le> unat el \<and> khz = sint ((el :: u32) div 50)))"
    unfolding cpuspeed_def case_prod_beta Let_def s1_def [symmetric] t Option.bind.bind_lunit fst_conv snd_conv
    using el by auto
  then show ?thesis using khz_bounds by blast
qed

lemma minus_one_pos: "(0 :: u32) < -1"
  by (simp add: word_gt_0)

lemma calibrate_clock: "khz = -1 \<or> 15 \<le> khz \<and> khz \<le> 85899345 \<Longrightarrow> 65 \<le> unat (extclock (calibrate khz t))"
proof (cases "khz = -1")
  case True
  then show ?thesis by (simp add: calibrate_def Let_def minus_one_pos)
next
  case False
  assume "khz = -1 \<or> 15 \<le> khz \<and> khz \<le> 85899345"
  then have k: "15 \<le> khz" "khz \<le> 85899345" using False by simp_all
  let ?sp = "word_of_int khz :: u32"
  have u: "uint ?sp = khz" using k by (simp add: uint_word_of_int_eq take_bit_int_eq_self)
  have "uint (?sp + 50) = khz + 50" "uint (?sp + 500) = khz + 500"
    using uint_add_small [of ?sp 50] uint_add_small [of ?sp 500] k unfolding u by simp_all
  then have "65 \<le> nat (uint (?sp + 50))" "65 \<le> nat (uint (?sp + 500))" using k by simp_all
  then have "65 \<le> unat (?sp + 50)" "65 \<le> unat (?sp + 500)" by simp_all
  moreover have "0 < ?sp" using k u by (simp only: word_less_def) simp
  ultimately show ?thesis by (simp add: calibrate_def Let_def)
qed

text \<open>
  C33. When the timer of the calibration has run out before it is polled, the failure value
  -1 of \<^verbatim>\<open>cpuspeed\<close> passes the test for a positive rate, since \<^verbatim>\<open>speed\<close> is unsigned: the clock is
  taken to run at 499 kHz.
\<close>

theorem calibration_failure:
  assumes "\<not> uncalibrated (tv s)" "\<forall>e. fst (p_inb P 0x61 e) AND 0x20 \<noteq> 0"
  shows "\<exists>t. cpu_type P s = Some t \<and> extclock (tv t) = 499 \<and> speed (tv t) = 499 \<and> rdtsc_ok (tv t) = 1"
proof -
  define v where "v = (if bit (ci_capability (cpu_id (tv s))) 6 then (tv s)\<lparr>pae := 1\<rparr> else tv s)"
  obtain u where u: "cpu_identify v = (True, u)" "\<not> ci_cpuid (cpu_id (tv s)) < 1"
    using assms(1) by (cases "cpu_identify v") (auto simp: uncalibrated_identify v_def)
  have "\<exists>t. cpuspeed P (s\<lparr>tv := u\<rparr>) = Some (-1, t)"
    using assms(2) by (simp add: cpuspeed_def case_prod_beta Let_def gate_loop_open)
  then show ?thesis using u by (auto simp: cpu_type_def Let_def calibrate_def minus_one_pos simp flip: v_def)
qed

lemma sample_calibrated: "\<not> uncalibrated sample_timer"
  by (simp add: uncalibrated_def sample_timer_def sample_cpu_def Let_def)

theorem calibration_failure_witness:
  "\<exists>t. cpu_type ((ideal (\<lambda>_. (1, 1)))\<lparr>p_inb := \<lambda>port e. (0x20, e)\<rparr>) (sample_tmach 0) = Some t \<and> extclock (tv t) = 499 \<and> speed (tv t) = 499 \<and> rdtsc_ok (tv t) = 1"
  using calibration_failure [of "sample_tmach 0" "(ideal (\<lambda>_. (1, 1)))\<lparr>p_inb := \<lambda>port e. (0x20, e)\<rparr>"]
  by (simp add: sample_calibrated sample_tmach_def)

section \<open>A clock that starts\<close>

definition gate_opens :: "'e platform \<Rightarrow> bool" where
  "gate_opens P \<longleftrightarrow> (\<forall>e. \<exists>n. fst (p_inb P 0x61 (((\<lambda>d. snd (p_inb P 0x61 d)) ^^ n) e)) AND 0x20 \<noteq> 0)"

text \<open>The stages of \<^verbatim>\<open>timer_init\<close> on a processor that is calibrated; \<open>w\<close> is the state in which the time of day is asked for.\<close>

lemma timer_init_stages:
  fixes s :: "('e, 'z) tmach_scheme"
  assumes "\<not> uncalibrated (tv s)" "gate_opens P" "ratios_ok P" "rtc_settles P"
  obtains x vs e start e' now w t where "cpu_type P s = Some x" "65 \<le> unat (extclock (tv x))"
    "rtc_get_rtc_time P x = Some (rtc_decode vs, x\<lparr>dev := e\<rparr>)" "\<exists>y. vs = fst (cmos_reads P [0, 2, 4, 7, 8, 9, 6, 11] (y :: ('e, 'z) tmach_scheme))"
    "p_rdtsc P e = (start, e')" "w = x\<lparr>dev := e', tv := (tv x)\<lparr>global_rtc_tm := rtc_decode vs, tm_base_clk := start\<rparr>\<rparr>"
    "do_gettimeofday P w = Some (now, t)" "timer_init_log P s = map_option (\<lambda>msg. (msg, t)) (current_time_text (fst now))"
    "tv t = tv w"
proof -
  define v where "v = (if bit (ci_capability (cpu_id (tv s))) 6 then (tv s)\<lparr>pae := 1\<rparr> else tv s)"
  obtain u where u: "cpu_identify v = (True, u)" "\<not> ci_cpuid (cpu_id (tv s)) < 1"
    using assms(1) by (cases "cpu_identify v") (auto simp: uncalibrated_identify v_def)
  have g: "\<exists>r t. gate_loop P k x = Some (r, t)" for k x
    using assms(2) gate_loop_returns unfolding gate_opens_def by blast
  obtain khz y where y: "cpuspeed P (s\<lparr>tv := u\<rparr>) = Some (khz, y)" "khz = -1 \<or> 15 \<le> khz \<and> khz \<le> 85899345"
    using cpuspeed_result [OF g assms(3), of "s\<lparr>tv := u\<rparr>"] by auto
  define x where "x = y\<lparr>tv := calibrate khz (tv y)\<rparr>"
  have x: "cpu_type P s = Some x" using u y(1) by (simp add: cpu_type_def Let_def x_def flip: v_def)
  have clk: "65 \<le> unat (extclock (tv x))" using calibrate_clock [OF y(2)] by (simp add: x_def)
  obtain y1 where y1: "rtc_wait P x = Some y1" using rtc_wait_settles [OF assms(4)] by blast
  define vs where "vs = fst (cmos_reads P [0, 2, 4, 7, 8, 9, 6, 11] y1)"
  obtain z where z: "rtc_get_rtc_time P x = Some (rtc_decode vs, z)"
    by (auto simp: rtc_get_rtc_time_def y1 case_prod_beta vs_def simp del: cmos_reads.simps)
  obtain e where e: "z = x\<lparr>dev := e\<rparr>" using dvia_rtc_get_rtc_time [OF z] by (auto simp: dvia_def)
  obtain start e' where st: "p_rdtsc P e = (start, e')" by (cases "p_rdtsc P e")
  define w where "w = x\<lparr>dev := e', tv := (tv x)\<lparr>global_rtc_tm := rtc_decode vs, tm_base_clk := start\<rparr>\<rparr>"
  have "extclock (tv w) \<noteq> 0" using clk by (auto simp: w_def)
  then obtain now t where t: "do_gettimeofday P w = Some (now, t)" using do_gettimeofday_returns by blast
  have "timer_init_log P s = map_option (\<lambda>msg. (msg, t)) (current_time_text (fst now))"
    using t by (simp add: timer_init_log_def x z e Let_def rdtsc_def st w_def map_option_case split: option.splits)
  moreover have "tv t = tv w" using dvia_do_gettimeofday [OF t] by (auto simp: dvia_def)
  ultimately show thesis using that [OF x clk z [unfolded e] _ st w_def t] vs_def by blast
qed

lemma timer_init_starts:
  assumes "\<not> uncalibrated (tv s)" "gate_opens P" "ratios_ok P" "rtc_settles P"
  obtains t where "timer_init P s = Some t" "extclock (tv t) \<noteq> 0"
proof (rule timer_init_stages [OF assms])
  fix x vs e start e' now w t
  assume c: "65 \<le> unat (extclock (tv x))" "timer_init_log P s = map_option (\<lambda>msg. (msg, t)) (current_time_text (fst now))" "tv t = tv w"
    "w = x\<lparr>dev := e', tv := (tv x)\<lparr>global_rtc_tm := rtc_decode vs, tm_base_clk := start\<rparr>\<rparr>"
  obtain msg where "current_time_text (fst now) = Some msg" using current_time_text_total by blast
  then show thesis using c by (intro that [of t]) (auto simp: timer_init_def)
qed

text \<open>
  C31. On every processor that \<^verbatim>\<open>cpu_type\<close> calibrates, with a fixed or a variable counter rate (all but those without
  \<^verbatim>\<open>cpuid\<close>, the AMD and Intel 486, the Cyrix of family 5 and those of an unknown vendor of family 5 or 6), the set-up of the clock returns and the clock rate is not 0, so that the time of day can be
  asked for. The conditions: the timer gate opens and the clock chip finishes its update after some
  number of polls, and the current multiplier in the model-specific registers does not exceed the maximal
  one. The rate need not be right: a failed calibration gives 499 kHz.
\<close>

theorem timer_init_returns:
  assumes "\<not> uncalibrated (tv s)" "gate_opens P" "ratios_ok P" "rtc_settles P"
  shows "\<exists>t. timer_init P s = Some t \<and> extclock (tv t) \<noteq> 0"
  by (rule timer_init_starts [OF assms]) blast

lemma ideal_gate_opens: "gate_opens (ideal G)"
proof -
  have "((\<lambda>d. snd (p_inb (ideal G) 0x61 d)) ^^ n) e = e\<lparr>i_port := i_port e + n\<rparr>" for n e
    by (induction n) (simp_all add: ideal_def)
  then show ?thesis unfolding gate_opens_def by (intro allI exI [of _ 6]) (simp add: ideal_def)
qed

lemma blank_ratios_ok: "(\<And>n e. p_rdmsr P n e = ((0, 0), e)) \<Longrightarrow> ratios_ok P"
  by (simp add: ratios_ok_def msr_def coefficient_def)

lemma ideal_ratios_ok: "ratios_ok (ideal G)"
  by (rule blank_ratios_ok) (simp add: ideal_def)

text \<open>An Intel Core 2 (family 6, model 15), whose counter is corrected.\<close>

definition core2_timer :: timer_vars where
  "core2_timer = sample_timer\<lparr>cpu_id := sample_cpu\<lparr>ci_model := 15\<rparr>\<rparr>"

theorem timer_init_returns_witness:
  "\<exists>t. timer_init (ideal (\<lambda>_. (1, 1))) ((sample_tmach 0)\<lparr>tv := core2_timer\<rparr>) = Some t \<and> extclock (tv t) \<noteq> 0"
  by (rule timer_init_returns [OF _ ideal_gate_opens ideal_ratios_ok ideal_rtc_settles])
     (simp add: uncalibrated_def core2_timer_def sample_timer_def sample_cpu_def Let_def)

section \<open>The time of the start-up message\<close>








end
