(* ===== verification/Cmdline.thy ===== *)
theory Cmdline
  imports Options Newlib
begin

text \<open>
  The command line parser of cmdline.c. \<open>fill_slot\<close> and \<open>fill_slots\<close> are the two
  \<^verbatim>\<open>strtok_r\<close> loops of \<^verbatim>\<open>parse_cmdline\<close>; the table of 64 slots is a list, and an
  access behind its end or through a NULL key is a \<open>cmd_fault\<close> instead of a
  memory access. \<open>tokens_of\<close> and \<open>slot_of\<close> are the reference description the loops
  are shown to implement.
\<close>

section \<open>The slot table\<close>

definition MAX_CMDLINE_SIZE :: nat where "MAX_CMDLINE_SIZE = 1024"

definition MAX_CMDLINE_SLOT :: nat where "MAX_CMDLINE_SLOT = 64"

record cmd_slot_t =
  slot_key :: "string option"
  slot_val :: "string option"

definition empty_slot :: cmd_slot_t where
  "empty_slot = \<lparr>slot_key = None, slot_val = None\<rparr>"

datatype cmd_fault = SlotOverflow | NullKey

fun sum_bind :: "'f + 'a \<Rightarrow> ('a \<Rightarrow> 'f + 'b) \<Rightarrow> 'f + 'b" where
  "sum_bind (Inl f) g = Inl f"
| "sum_bind (Inr x) g = g x"

text \<open>The inner loop over the \<^verbatim>\<open>=\<close>-separated parts of one token.\<close>

function fill_slot :: "string option \<Rightarrow> string option \<Rightarrow> bool \<Rightarrow> cmd_slot_t \<Rightarrow> cmd_slot_t" where
  "fill_slot str2 saveptr2 is_val slot =
     (case strtok_r str2 ''='' saveptr2 of
        (None, _) \<Rightarrow> slot
      | (Some subtoken, saveptr2') \<Rightarrow>
          fill_slot None saveptr2' (\<not> is_val)
            (if \<not> is_val then slot\<lparr>slot_key := Some subtoken\<rparr> else slot\<lparr>slot_val := Some subtoken\<rparr>))"
  by pat_completeness auto
termination
  by (relation "measure (\<lambda>(str2, saveptr2, is_val, slot). pending str2 saveptr2)")
     (auto intro: strtok_r_pending [OF sym])

text \<open>
  The outer loop over the tokens. The body stores into \<^verbatim>\<open>cmd_slot[index]\<close> when the
  token has a part; the loop ends at the last token or when \<^verbatim>\<open>index > MAX_CMDLINE_SLOT\<close>.
\<close>

function fill_slots ::
  "string option \<Rightarrow> string option \<Rightarrow> nat \<Rightarrow> cmd_slot_t list \<Rightarrow> cmd_fault + (cmd_slot_t list \<times> nat)" where
  "fill_slots str1 saveptr1 index slots =
     (case strtok_r str1 '', '' saveptr1 of
        (None, _) \<Rightarrow> Inr (slots, index)
      | (Some token, saveptr1') \<Rightarrow>
          (if length slots \<le> index \<and> fst (strtok_r (Some token) ''='' None) \<noteq> None then Inl SlotOverflow
           else let slots' = slots[index := fill_slot (Some token) None False (slots ! index)]
                in if MAX_CMDLINE_SLOT < index + 1 then Inr (slots', index + 1)
                   else fill_slots None saveptr1' (index + 1) slots'))"
  by pat_completeness auto
termination
  by (relation "measure (\<lambda>(str1, saveptr1, index, slots). pending str1 saveptr1)")
     (auto intro: strtok_r_pending [OF sym])

declare fill_slot.simps [simp del] fill_slots.simps [simp del]

section \<open>Lookup and option setting\<close>

text \<open>The scan that \<^verbatim>\<open>is_cmd_exist\<close> and \<^verbatim>\<open>get_cmd_item\<close> share.\<close>

function find_slot :: "cmd_slot_t list \<Rightarrow> nat \<Rightarrow> string \<Rightarrow> nat \<Rightarrow> cmd_fault + cmd_slot_t option" where
  "find_slot slots cnt key i =
     (if i < cnt
      then (if length slots \<le> i then Inl SlotOverflow
            else case slot_key (slots ! i) of
                   None \<Rightarrow> Inl NullKey
                 | Some k \<Rightarrow> if strcmp k key = 0 then Inr (Some (slots ! i))
                             else find_slot slots cnt key (Suc i))
      else Inr None)"
  by pat_completeness auto
termination
  by (relation "measure (\<lambda>(slots, cnt, key, i). cnt - i)") auto

declare find_slot.simps [simp del]

definition is_cmd_exist :: "cmd_slot_t list \<Rightarrow> nat \<Rightarrow> string \<Rightarrow> cmd_fault + int" where
  "is_cmd_exist slots cnt key =
     sum_bind (find_slot slots cnt key 0) (\<lambda>r. Inr (c_bool (r \<noteq> None)))"

definition get_cmd_item :: "cmd_slot_t list \<Rightarrow> nat \<Rightarrow> string \<Rightarrow> cmd_fault + string option" where
  "get_cmd_item slots cnt key =
     sum_bind (find_slot slots cnt key 0) (\<lambda>r. Inr (case r of None \<Rightarrow> None | Some s \<Rightarrow> slot_val s))"

text \<open>\<^verbatim>\<open>if(is_cmd_exist(key)) opt.f = 1;\<close>\<close>

definition set_flag ::
  "cmd_slot_t list \<Rightarrow> nat \<Rightarrow> string \<Rightarrow> (options_t \<Rightarrow> options_t) \<Rightarrow> options_t \<Rightarrow> cmd_fault + options_t" where
  "set_flag slots cnt key upd opt =
     sum_bind (is_cmd_exist slots cnt key) (\<lambda>b. Inr (if b \<noteq> 0 then upd opt else opt))"

text \<open>\<^verbatim>\<open>if(is_cmd_exist(key) && get_cmd_item(key) != NULL) ...\<close>\<close>

definition set_item ::
  "cmd_slot_t list \<Rightarrow> nat \<Rightarrow> string \<Rightarrow> (string \<Rightarrow> options_t \<Rightarrow> options_t) \<Rightarrow> options_t \<Rightarrow> cmd_fault + options_t" where
  "set_item slots cnt key upd opt =
     sum_bind (is_cmd_exist slots cnt key) (\<lambda>b.
       if b = 0 then Inr opt
       else sum_bind (get_cmd_item slots cnt key) (\<lambda>v.
              Inr (case v of None \<Rightarrow> opt | Some x \<Rightarrow> upd x opt)))"

definition set_debug :: "string \<Rightarrow> options_t \<Rightarrow> options_t" where
  "set_debug v opt =
     (let d = atoi v; d = (if d < 0 then 0 else d); d = (if d > 15 then 15 else d)
      in opt\<lparr>opt_debug := d\<rparr>)"

definition set_mode :: "string \<Rightarrow> options_t \<Rightarrow> options_t" where
  "set_mode v opt =
     (let m = (if strcasecmp v ''FAST'' = 0 then WIPE_MODE_FAST
               else if strcasecmp v ''DOD'' = 0 then WIPE_MODE_DOD else WIPE_MODE_OCD);
          m = (if m < WIPE_MODE_FAST then WIPE_MODE_FAST else m);
          m = (if m > WIPE_MODE_OCD then WIPE_MODE_OCD else m)
      in opt\<lparr>opt_mode := m\<rparr>)"

text \<open>The second half of \<^verbatim>\<open>parse_cmdline\<close>: the options are set from the slots.\<close>

definition set_options :: "cmd_slot_t list \<Rightarrow> nat \<Rightarrow> cmd_fault + options_t" where
  "set_options slots cnt =
     sum_bind (set_flag slots cnt ''test'' (\<lambda>x. x\<lparr>opt_test := 1\<rparr>) set_default_opt) (\<lambda>opt.
     sum_bind (set_flag slots cnt ''check'' (\<lambda>x. x\<lparr>opt_check := 1\<rparr>) opt) (\<lambda>opt.
     sum_bind (set_flag slots cnt ''force_chs'' (\<lambda>x. x\<lparr>opt_force_chs := 1\<rparr>) opt) (\<lambda>opt.
     sum_bind (set_flag slots cnt ''mbr'' (\<lambda>x. x\<lparr>opt_mbr := 1\<rparr>) opt) (\<lambda>opt.
     sum_bind (set_item slots cnt ''debug'' set_debug opt) (\<lambda>opt.
     sum_bind (set_item slots cnt ''mode'' set_mode opt) (\<lambda>opt.
     set_item slots cnt ''skip'' (\<lambda>v x. x\<lparr>opt_skip := v\<rparr>) opt))))))"

text \<open>
  \<^verbatim>\<open>strncpy\<close> into the 1024-byte \<^verbatim>\<open>cmd_line\<close> and the store of a NUL into its last byte
  keep the first 1023 characters.
\<close>

definition parse_cmdline :: "string \<Rightarrow> cmd_fault + (int \<times> options_t)" where
  "parse_cmdline cmd_line_ptr =
     (let cmd_line = take (MAX_CMDLINE_SIZE - 1) cmd_line_ptr
      in sum_bind (fill_slots (Some cmd_line) None 0 (replicate MAX_CMDLINE_SLOT empty_slot))
           (\<lambda>(slots, cmd_slot_cnt). sum_bind (set_options slots cmd_slot_cnt) (\<lambda>opt. Inr (0, opt))))"


section \<open>The reference description\<close>

text \<open>The maximal runs of non-delimiters, and the same for the text a call would read.\<close>

function tokens_of :: "string \<Rightarrow> string \<Rightarrow> string list" where
  "tokens_of delim s =
     (case dropWhile (\<lambda>c. c \<in> set delim) s of
        [] \<Rightarrow> []
      | c # u \<Rightarrow> takeWhile (\<lambda>c. c \<notin> set delim) (c # u) #
                 tokens_of delim (dropWhile (\<lambda>c. c \<notin> set delim) (c # u)))"
  by pat_completeness auto
termination
proof (relation "measure (\<lambda>(delim, s). length s)", simp, goal_cases)
  case (1 delim s c u)
  then have "c \<notin> set delim" using hd_dropWhile [of "\<lambda>c. c \<in> set delim" s] by simp
  then show ?case
    using 1 length_dropWhile_le [of "\<lambda>c. c \<in> set delim" s] length_dropWhile_le [of "\<lambda>c. c \<notin> set delim" u]
    by simp
qed

declare tokens_of.simps [simp del]

lemma tokens_of_none: "dropWhile (\<lambda>c. c \<in> set delim) s = [] \<Longrightarrow> tokens_of delim s = []"
  by (subst tokens_of.simps) (simp only: list.case)

definition input :: "string option \<Rightarrow> string option \<Rightarrow> string option" where
  "input s lasts = (case s of Some t \<Rightarrow> Some t | None \<Rightarrow> lasts)"

definition tokens_opt :: "string \<Rightarrow> string option \<Rightarrow> string list" where
  "tokens_opt delim s = (case s of None \<Rightarrow> [] | Some t \<Rightarrow> tokens_of delim t)"

lemma tokens_of_skip: "c \<in> set delim \<Longrightarrow> tokens_of delim (c # u) = tokens_of delim u"
  by (subst (1 2) tokens_of.simps) simp

lemma tokens_opt_simps [simp]: "tokens_opt delim None = []" "tokens_opt delim (Some t) = tokens_of delim t"
  by (simp_all add: tokens_opt_def)

lemma input_simps [simp]: "input (Some t) l = Some t" "input None l = l"
  by (simp_all add: input_def)

text \<open>\<^verbatim>\<open>strtok_r\<close> delivers exactly the reference tokens, one per call.\<close>

lemma strtok_r_tokens:
  "(fst (strtok_r s delim lasts) = None \<longleftrightarrow> tokens_opt delim (input s lasts) = []) \<and>
   (\<forall>tok l. strtok_r s delim lasts = (Some tok, l) \<longrightarrow>
      tokens_opt delim (input s lasts) = tok # tokens_opt delim l)"
proof (cases "input s lasts")
  case None
  then show ?thesis by (auto simp: strtok_r_def input_def split: option.splits)
next
  case (Some t)
  have st: "strtok_r s delim lasts =
      (case span_skip delim t of [] \<Rightarrow> (None, None)
       | c # u \<Rightarrow> (case scan_token delim (c # u) of (tok, rest) \<Rightarrow> (Some tok, rest)))"
    using Some by (auto simp: strtok_r_def input_def)
  show ?thesis
  proof (cases "span_skip delim t")
    case Nil
    then have "tokens_of delim t = []"
      by (intro tokens_of_none) (simp only: span_skip_dropWhile)
    then show ?thesis
      using st Some Nil by simp
  next
    case (Cons c u)
    define rest where "rest = dropWhile (\<lambda>c. c \<notin> set delim) (c # u)"
    have t: "tokens_of delim t = takeWhile (\<lambda>c. c \<notin> set delim) (c # u) # tokens_of delim rest"
      using Cons by (subst tokens_of.simps) (simp add: span_skip_dropWhile rest_def)
    have "tokens_of delim rest = tokens_opt delim (case rest of [] \<Rightarrow> None | _ # v \<Rightarrow> Some v)"
    proof (cases rest)
      case Nil
      then show ?thesis by (simp add: tokens_of.simps [of delim "[]"])
    next
      case (Cons d v)
      then have "d \<in> set delim"
        using hd_dropWhile [of "\<lambda>c. c \<notin> set delim" "c # u"] by (simp add: rest_def)
      then show ?thesis using Cons by (simp add: tokens_of_skip)
    qed
    then show ?thesis
      using st Some Cons t by (simp add: scan_token_eq rest_def del: takeWhile.simps dropWhile.simps)
  qed
qed

lemmas strtok_r_end = strtok_r_tokens [THEN conjunct1]
lemmas strtok_r_next = strtok_r_tokens [THEN conjunct2, rule_format]


lemma tokens_of_subset: "t \<in> set (tokens_of delim s) \<Longrightarrow> set t \<subseteq> set s"
proof (induction delim s rule: tokens_of.induct)
  case (1 delim s)
  show ?case
  proof (cases "dropWhile (\<lambda>c. c \<in> set delim) s")
    case Nil
    then show ?thesis using "1.prems" by (simp only: tokens_of_none) simp
  next
    case (Cons c u)
    have sub: "set (c # u) \<subseteq> set s" by (metis Cons set_dropWhileD subsetI)
    consider "t = takeWhile (\<lambda>c. c \<notin> set delim) (c # u)"
      | "t \<in> set (tokens_of delim (dropWhile (\<lambda>c. c \<notin> set delim) (c # u)))"
      using "1.prems" Cons by (subst (asm) tokens_of.simps) auto
    then show ?thesis
    proof cases
      case 1
      then show ?thesis using sub by (metis set_takeWhileD subset_iff)
    next
      case 2
      from "1.IH" [OF Cons this] show ?thesis
        using sub by (meson set_dropWhileD subset_iff)
    qed
  qed
qed

lemma tokens_of_nonempty: "t \<in> set (tokens_of delim s) \<Longrightarrow> t \<noteq> []"
proof (induction delim s rule: tokens_of.induct)
  case (1 delim s)
  show ?case
  proof (cases "dropWhile (\<lambda>c. c \<in> set delim) s")
    case Nil
    then show ?thesis using "1.prems" by (simp only: tokens_of_none) simp
  next
    case (Cons c u)
    then have c: "c \<notin> set delim" using hd_dropWhile [of "\<lambda>c. c \<in> set delim" s] by simp
    have "t = takeWhile (\<lambda>c. c \<notin> set delim) (c # u) \<or>
        t \<in> set (tokens_of delim (dropWhile (\<lambda>c. c \<notin> set delim) (c # u)))"
      using "1.prems" Cons by (subst (asm) tokens_of.simps) auto
    then show ?thesis using "1.IH" [OF Cons] c by auto
  qed
qed

text \<open>
  The slot of one token: its parts go alternately into the key and the value, so
  of \<^verbatim>\<open>a=b=c\<close> the key is \<^verbatim>\<open>c\<close> and the value is \<^verbatim>\<open>b\<close>.
\<close>

fun slot_parts :: "bool \<Rightarrow> string list \<Rightarrow> cmd_slot_t \<Rightarrow> cmd_slot_t" where
  "slot_parts is_val [] slot = slot"
| "slot_parts is_val (p # ps) slot =
     slot_parts (\<not> is_val) ps (if is_val then slot\<lparr>slot_val := Some p\<rparr> else slot\<lparr>slot_key := Some p\<rparr>)"

definition slot_of :: "string \<Rightarrow> cmd_slot_t" where
  "slot_of token = slot_parts False (tokens_of ''='' token) empty_slot"

lemma fill_slot_parts:
  "fill_slot s l v slot = slot_parts v (tokens_opt ''='' (input s l)) slot"
proof (induction s l v slot rule: fill_slot.induct)
  case (1 s l v slot)
  obtain r l' where st: "strtok_r s ''='' l = (r, l')" by (cases "strtok_r s ''='' l")
  show ?case
  proof (cases r)
    case None
    then show ?thesis
      using st strtok_r_end [of s "''=''" l] by (subst fill_slot.simps) simp
  next
    case (Some tok)
    then show ?thesis
      using st strtok_r_next [of s "''=''" l tok l'] "1.IH" [of "Some tok" l' tok]
      by (subst fill_slot.simps) simp
  qed
qed

lemma slot_of_fill: "fill_slot (Some tok) None False empty_slot = slot_of tok"
  by (simp add: fill_slot_parts slot_of_def)


section \<open>The loops implement the reference description\<close>

text \<open>A table whose first slots are filled and whose other slots are empty.\<close>

definition table :: "cmd_slot_t list \<Rightarrow> cmd_slot_t list" where
  "table done = done @ replicate (MAX_CMDLINE_SLOT - length done) empty_slot"

lemma length_table [simp]: "length done \<le> MAX_CMDLINE_SLOT \<Longrightarrow> length (table done) = MAX_CMDLINE_SLOT"
  by (simp add: table_def)

lemma table_step:
  assumes "length done < MAX_CMDLINE_SLOT"
  shows "(table done)[length done := x] = table (done @ [x])" "table done ! length done = empty_slot"
proof -
  obtain m where "MAX_CMDLINE_SLOT - length done = Suc m" using assms by (metis Suc_diff_Suc)
  then show "(table done)[length done := x] = table (done @ [x])" "table done ! length done = empty_slot"
    by (auto simp: table_def list_update_append nth_append diff_Suc split: nat.splits)
qed

text \<open>Up to 64 tokens: every token gets its slot.\<close>

lemma fill_slots_table:
  assumes "length done + length (tokens_opt '', '' (input s l)) \<le> MAX_CMDLINE_SLOT"
  shows "fill_slots s l (length done) (table done) =
           Inr (table (done @ map slot_of (tokens_opt '', '' (input s l))),
                length done + length (tokens_opt '', '' (input s l)))"
  using assms
proof (induction "tokens_opt '', '' (input s l)" arbitrary: s l "done")
  case Nil
  then have "fst (strtok_r s '', '' l) = None" using strtok_r_end [of s "'', ''" l] by simp
  then show ?case
    using Nil by (subst fill_slots.simps) (auto split: prod.splits)
next
  case (Cons t ts)
  obtain l' where st: "strtok_r s '', '' l = (Some t, l')" and ts: "ts = tokens_opt '', '' l'"
    using strtok_r_tokens [of s "'', ''" l] Cons.hyps(2)
    by (cases "strtok_r s '', '' l"; cases "fst (strtok_r s '', '' l)") auto
  have lt: "length done < MAX_CMDLINE_SLOT" using Cons.prems by (simp flip: Cons.hyps(2))
  have len: "length (done @ [slot_of t]) + length (tokens_opt '', '' (input None l')) \<le> MAX_CMDLINE_SLOT"
    using Cons.prems ts by (simp flip: Cons.hyps(2))
  have "fill_slots s l (length done) (table done) =
      fill_slots None l' (length (done @ [slot_of t])) (table (done @ [slot_of t]))"
    using lt st table_step(1) [OF lt, of "slot_of t"] table_step(2) [OF lt]
    by (subst fill_slots.simps) (simp add: slot_of_fill Let_def)
  also have "\<dots> = Inr (table ((done @ [slot_of t]) @ map slot_of ts), length (done @ [slot_of t]) + length ts)"
    using Cons.hyps(1) [OF _ len] ts by simp
  finally show ?case by (simp flip: Cons.hyps(2))
qed

text \<open>The 65th token is stored behind the table.\<close>

lemma fill_slots_overflow:
  assumes "length done \<le> MAX_CMDLINE_SLOT"
    and "MAX_CMDLINE_SLOT - length done < length (tokens_opt '', '' (input s l))"
    and "tokens_of ''='' (tokens_opt '', '' (input s l) ! (MAX_CMDLINE_SLOT - length done)) \<noteq> []"
  shows "fill_slots s l (length done) (table done) = Inl SlotOverflow"
  using assms
proof (induction "tokens_opt '', '' (input s l)" arbitrary: s l "done")
  case Nil
  then show ?case by simp
next
  case (Cons t ts)
  obtain l' where st: "strtok_r s '', '' l = (Some t, l')" and ts: "ts = tokens_opt '', '' l'"
    using strtok_r_tokens [of s "'', ''" l] Cons.hyps(2)
    by (cases "strtok_r s '', '' l"; cases "fst (strtok_r s '', '' l)") auto
  show ?case
  proof (cases "length done = MAX_CMDLINE_SLOT")
    case True
    then have "tokens_of ''='' t \<noteq> []" using Cons.prems(3) by (simp flip: Cons.hyps(2))
    then have "fst (strtok_r (Some t) ''='' None) \<noteq> None"
      using strtok_r_end [of "Some t" "''=''" None] by simp
    then show ?thesis
      using True st by (subst fill_slots.simps) simp
  next
    case False
    then have lt: "length done < MAX_CMDLINE_SLOT" using Cons.prems(1) by simp
    then obtain m where m: "MAX_CMDLINE_SLOT - length done = Suc m" by (metis Suc_diff_Suc)
    have "fill_slots s l (length done) (table done) =
        fill_slots None l' (length (done @ [slot_of t])) (table (done @ [slot_of t]))"
      using lt st table_step(1) [OF lt, of "slot_of t"] table_step(2) [OF lt]
      by (subst fill_slots.simps) (simp add: slot_of_fill Let_def)
    also have "\<dots> = Inl SlotOverflow"
    proof (rule Cons.hyps(1))
      show "ts = tokens_opt '', '' (input None l')" using ts by simp
      show "length (done @ [slot_of t]) \<le> MAX_CMDLINE_SLOT" using lt by simp
      have m': "MAX_CMDLINE_SLOT - length (done @ [slot_of t]) = m" using m by simp
      show "MAX_CMDLINE_SLOT - length (done @ [slot_of t]) < length (tokens_opt '', '' (input None l'))"
        using Cons.prems(2) m ts unfolding m' by (simp flip: Cons.hyps(2))
      show "tokens_of ''='' (tokens_opt '', '' (input None l') ! (MAX_CMDLINE_SLOT - length (done @ [slot_of t]))) \<noteq> []"
        using Cons.prems(3) m ts unfolding m' by (simp flip: Cons.hyps(2))
    qed
    finally show ?thesis .
  qed
qed


text \<open>When every used slot has a key, the scan finds the first slot with that key.\<close>

definition keyed :: "cmd_slot_t list \<Rightarrow> bool" where
  "keyed slots \<longleftrightarrow> (\<forall>s \<in> set slots. \<exists>k. slot_key s = Some k \<and> nul_free k)"

definition lookup_slot :: "cmd_slot_t list \<Rightarrow> string \<Rightarrow> cmd_slot_t option" where
  "lookup_slot slots key = find (\<lambda>s. slot_key s = Some key) slots"

definition lookup_item :: "cmd_slot_t list \<Rightarrow> string \<Rightarrow> string option" where
  "lookup_item slots key = Option.bind (lookup_slot slots key) slot_val"

lemma find_slot_drop:
  assumes "keyed (take cnt slots)" "cnt \<le> length slots" "nul_free key"
  shows "find_slot slots cnt key i = Inr (lookup_slot (drop i (take cnt slots)) key)"
proof (induction "cnt - i" arbitrary: i)
  case 0
  then show ?case by (subst find_slot.simps) (simp add: lookup_slot_def)
next
  case (Suc m)
  then have i: "i < cnt" "i < length slots" using assms(2) by auto
  then have d: "drop i (take cnt slots) = slots ! i # drop (Suc i) (take cnt slots)"
    by (metis Cons_nth_drop_Suc length_take min_less_iff_conj nth_take)
  have "slots ! i \<in> set (take cnt slots)"
    using i by (metis in_set_conv_nth length_take min_less_iff_conj nth_take)
  then obtain k where k: "slot_key (slots ! i) = Some k" "nul_free k"
    using assms(1) by (auto simp: keyed_def)
  show ?case
    using Suc.hyps(1) [of "Suc i"] Suc.hyps(2) i k assms(3)
    by (subst find_slot.simps) (simp add: d lookup_slot_def)
qed

definition spec_options :: "cmd_slot_t list \<Rightarrow> options_t" where
  "spec_options slots =
     \<lparr>opt_skip = (case lookup_item slots ''skip'' of None \<Rightarrow> ''NIMIME'' | Some v \<Rightarrow> v),
      opt_test = c_bool (lookup_slot slots ''test'' \<noteq> None),
      opt_debug = (case lookup_item slots ''debug'' of None \<Rightarrow> 0 | Some v \<Rightarrow> min 15 (max 0 (atoi v))),
      opt_check = c_bool (lookup_slot slots ''check'' \<noteq> None),
      opt_force_chs = c_bool (lookup_slot slots ''force_chs'' \<noteq> None),
      opt_mbr = c_bool (lookup_slot slots ''mbr'' \<noteq> None),
      opt_mode = (case lookup_item slots ''mode'' of
          None \<Rightarrow> WIPE_MODE_FAST
        | Some v \<Rightarrow> if strcasecmp v ''FAST'' = 0 then WIPE_MODE_FAST
                    else if strcasecmp v ''DOD'' = 0 then WIPE_MODE_DOD else WIPE_MODE_OCD)\<rparr>"

lemma nul_free_keywords:
  "nul_free ''test''" "nul_free ''check''" "nul_free ''force_chs''" "nul_free ''mbr''"
  "nul_free ''debug''" "nul_free ''mode''" "nul_free ''skip''"
  by (simp_all add: code_def)

lemma set_debug_eq: "set_debug v opt = opt\<lparr>opt_debug := min 15 (max 0 (atoi v))\<rparr>"
  by (simp add: set_debug_def Let_def min_def max_def)

lemma set_mode_eq:
  "set_mode v opt = opt\<lparr>opt_mode := (if strcasecmp v ''FAST'' = 0 then WIPE_MODE_FAST
     else if strcasecmp v ''DOD'' = 0 then WIPE_MODE_DOD else WIPE_MODE_OCD)\<rparr>"
  by (simp add: set_mode_def Let_def wipe_mode_defs)

lemma set_options_spec:
  assumes "keyed (take cnt slots)" "cnt \<le> length slots"
  shows "set_options slots cnt = Inr (spec_options (take cnt slots))"
proof -
  let ?used = "take cnt slots"
  have find: "find_slot slots cnt key 0 = Inr (lookup_slot ?used key)" if "nul_free key" for key
    using find_slot_drop [OF assms that, of 0] by simp
  have flag: "set_flag slots cnt key upd opt = Inr (if lookup_slot ?used key \<noteq> None then upd opt else opt)"
    if "nul_free key" for key upd opt
    using find [OF that] by (simp add: set_flag_def is_cmd_exist_def)
  have item: "set_item slots cnt key upd opt =
      Inr (case lookup_item ?used key of None \<Rightarrow> opt | Some v \<Rightarrow> upd v opt)"
    if "nul_free key" for key upd opt
    using find [OF that]
    by (auto simp: set_item_def is_cmd_exist_def get_cmd_item_def lookup_item_def split: option.splits)
  show ?thesis
    unfolding set_options_def flag [OF nul_free_keywords(1)] flag [OF nul_free_keywords(2)]
      flag [OF nul_free_keywords(3)] flag [OF nul_free_keywords(4)] item [OF nul_free_keywords(5)]
      item [OF nul_free_keywords(6)] item [OF nul_free_keywords(7)] sum_bind.simps
    by (simp add: spec_options_def set_default_opt_def set_debug_eq set_mode_eq split: option.splits)
qed

lemma slot_parts_key:
  assumes "(\<not> v \<and> ps \<noteq> []) \<or> slot_key slot \<noteq> None"
  shows "\<exists>k. slot_key (slot_parts v ps slot) = Some k \<and> (k \<in> set ps \<or> slot_key slot = Some k)"
  using assms
proof (induction v ps slot rule: slot_parts.induct)
  case (2 v p ps slot)
  show ?case
  proof (cases v)
    case True
    then show ?thesis using 2 by auto
  next
    case False
    then show ?thesis using "2.IH" by auto
  qed
qed auto

definition has_part :: "string \<Rightarrow> bool" where
  "has_part token \<longleftrightarrow> (\<exists>c \<in> set token. c \<noteq> CHR ''='')"

lemma tokens_of_Nil_iff: "tokens_of delim s = [] \<longleftrightarrow> set s \<subseteq> set delim"
proof (cases "dropWhile (\<lambda>c. c \<in> set delim) s")
  case Nil
  then show ?thesis using tokens_of_none [OF Nil] by (auto simp: dropWhile_eq_Nil_conv)
next
  case (Cons c u)
  then have "\<not> set s \<subseteq> set delim" using dropWhile_eq_Nil_conv [of "\<lambda>c. c \<in> set delim" s] by auto
  then show ?thesis using Cons by (subst tokens_of.simps) simp
qed

lemma has_part_iff: "has_part token \<longleftrightarrow> tokens_of ''='' token \<noteq> []"
  by (auto simp: has_part_def tokens_of_Nil_iff)

lemma nul_free_subset: "nul_free s \<Longrightarrow> set t \<subseteq> set s \<Longrightarrow> nul_free t"
  by (auto simp: nul_free_def)

lemma keyed_slot_of:
  assumes "\<forall>t \<in> set toks. has_part t \<and> nul_free t"
  shows "keyed (map slot_of toks)"
  unfolding keyed_def
proof
  fix s assume "s \<in> set (map slot_of toks)"
  then obtain t where t: "t \<in> set toks" "s = slot_of t" by auto
  then obtain k where k: "slot_key s = Some k" "k \<in> set (tokens_of ''='' t)"
    using slot_parts_key [of False "tokens_of ''='' t" empty_slot] assms
    by (auto simp: slot_of_def has_part_iff empty_slot_def)
  then show "\<exists>k. slot_key s = Some k \<and> nul_free k"
    using assms t(1) tokens_of_subset nul_free_subset by blast
qed

section \<open>Properties of \<^verbatim>\<open>parse_cmdline\<close>\<close>

abbreviation cmd_tokens :: "string \<Rightarrow> string list" where
  "cmd_tokens s \<equiv> tokens_of '', '' (take (MAX_CMDLINE_SIZE - 1) s)"

lemma parse_cmdline_fill:
  "parse_cmdline s =
     sum_bind (fill_slots (Some (take (MAX_CMDLINE_SIZE - 1) s)) None 0 (table []))
       (\<lambda>(slots, cnt). sum_bind (set_options slots cnt) (\<lambda>opt. Inr (0, opt)))"
  by (simp add: parse_cmdline_def table_def)

text \<open>
  C17. A command line with at most 64 items, each with a key, is parsed into exactly the
  options its items ask for: flags by presence, values by the first item with the key.
\<close>

theorem parse_cmdline_refines:
  assumes "nul_free s" "length (cmd_tokens s) \<le> MAX_CMDLINE_SLOT" "\<forall>t \<in> set (cmd_tokens s). has_part t"
  shows "parse_cmdline s = Inr (0, spec_options (map slot_of (cmd_tokens s)))"
proof -
  have "\<forall>t \<in> set (cmd_tokens s). nul_free t"
    using assms(1) tokens_of_subset set_take_subset nul_free_subset by (metis subset_trans)
  then have keyed: "keyed (map slot_of (cmd_tokens s))"
    using assms(3) keyed_slot_of by blast
  have "fill_slots (Some (take (MAX_CMDLINE_SIZE - 1) s)) None 0 (table []) =
      Inr (table (map slot_of (cmd_tokens s)), length (cmd_tokens s))"
    using fill_slots_table [of "[]" "Some (take (MAX_CMDLINE_SIZE - 1) s)" None] assms(2) by simp
  moreover have "take (length (cmd_tokens s)) (table (map slot_of (cmd_tokens s))) = map slot_of (cmd_tokens s)"
    by (simp add: table_def)
  ultimately show ?thesis
    using set_options_spec [of "length (cmd_tokens s)" "table (map slot_of (cmd_tokens s))"] keyed assms(2)
    by (simp add: parse_cmdline_fill)
qed


theorem parse_cmdline_refines_witness:
  "parse_cmdline ''skip=MINIME debug=15 mode=ocd force_chs'' =
     Inr (0, \<lparr>opt_skip = ''MINIME'', opt_test = 0, opt_debug = 15, opt_check = 0,
             opt_force_chs = 1, opt_mbr = 0, opt_mode = WIPE_MODE_OCD\<rparr>)"
proof -
  let ?s = "''skip=MINIME debug=15 mode=ocd force_chs''"
  have toks: "cmd_tokens ?s = [''skip=MINIME'', ''debug=15'', ''mode=ocd'', ''force_chs'']"
    by code_simp
  have nf: "nul_free ?s" by code_simp
  have parts: "\<forall>t \<in> set (cmd_tokens ?s). has_part t" unfolding toks by code_simp
  have spec: "spec_options (map slot_of [''skip=MINIME'', ''debug=15'', ''mode=ocd'', ''force_chs'']) =
      \<lparr>opt_skip = ''MINIME'', opt_test = 0, opt_debug = 15, opt_check = 0,
       opt_force_chs = 1, opt_mbr = 0, opt_mode = WIPE_MODE_OCD\<rparr>"
    by code_simp
  have "length (cmd_tokens ?s) \<le> MAX_CMDLINE_SLOT" unfolding toks by code_simp
  from parse_cmdline_refines [OF nf this parts] show ?thesis
    unfolding toks spec .
qed

lemma sum_bind_Inr: "sum_bind x g = Inr y \<longleftrightarrow> (\<exists>a. x = Inr a \<and> g a = Inr y)"
  by (cases x) auto

lemma set_flag_ok: "set_flag slots cnt key upd opt = Inr o' \<Longrightarrow> P opt \<Longrightarrow> P (upd opt) \<Longrightarrow> P o'"
  by (auto simp: set_flag_def sum_bind_Inr split: if_splits)

lemma set_item_ok: "set_item slots cnt key upd opt = Inr o' \<Longrightarrow> P opt \<Longrightarrow> (\<And>v. P (upd v opt)) \<Longrightarrow> P o'"
  by (auto simp: set_item_def sum_bind_Inr split: if_splits option.splits)

lemma opt_ok_upd:
  assumes "opt_ok opt"
  shows "opt_ok (opt\<lparr>opt_test := 1\<rparr>)" "opt_ok (opt\<lparr>opt_check := 1\<rparr>)" "opt_ok (opt\<lparr>opt_force_chs := 1\<rparr>)"
    "opt_ok (opt\<lparr>opt_mbr := 1\<rparr>)" "opt_ok (set_debug v opt)" "opt_ok (set_mode v opt)"
    "opt_ok (opt\<lparr>opt_skip := v\<rparr>)"
  using assms by (simp_all add: opt_ok_def set_debug_eq set_mode_eq)

lemma set_options_ok: "set_options slots cnt = Inr opt \<Longrightarrow> opt_ok opt"
proof -
  assume "set_options slots cnt = Inr opt"
  then obtain o1 o2 o3 o4 o5 o6 where
    s1: "set_flag slots cnt ''test'' (\<lambda>x. x\<lparr>opt_test := 1\<rparr>) set_default_opt = Inr o1" and
    s2: "set_flag slots cnt ''check'' (\<lambda>x. x\<lparr>opt_check := 1\<rparr>) o1 = Inr o2" and
    s3: "set_flag slots cnt ''force_chs'' (\<lambda>x. x\<lparr>opt_force_chs := 1\<rparr>) o2 = Inr o3" and
    s4: "set_flag slots cnt ''mbr'' (\<lambda>x. x\<lparr>opt_mbr := 1\<rparr>) o3 = Inr o4" and
    s5: "set_item slots cnt ''debug'' set_debug o4 = Inr o5" and
    s6: "set_item slots cnt ''mode'' set_mode o5 = Inr o6" and
    s7: "set_item slots cnt ''skip'' (\<lambda>v x. x\<lparr>opt_skip := v\<rparr>) o6 = Inr opt"
    unfolding set_options_def sum_bind_Inr by blast
  note flag = set_flag_ok [where P = opt_ok] and item = set_item_ok [where P = opt_ok]
  have "opt_ok o1" using flag [OF s1 set_default_opt_ok] opt_ok_upd(1) [OF set_default_opt_ok] .
  then have "opt_ok o2" using flag [OF s2] opt_ok_upd(2) by blast
  then have "opt_ok o3" using flag [OF s3] opt_ok_upd(3) by blast
  then have "opt_ok o4" using flag [OF s4] opt_ok_upd(4) by blast
  then have "opt_ok o5" using item [OF s5] opt_ok_upd(5) by blast
  then have "opt_ok o6" using item [OF s6] opt_ok_upd(6) by blast
  then show "opt_ok opt" using item [OF s7] opt_ok_upd(7) by blast
qed

text \<open>
  C18. Whatever the command line is, a parse that completes returns 0 and leaves every
  option in its range: flags 0 or 1, the debug mask within 0..15, one of the three modes.
\<close>

theorem parse_cmdline_in_range: "parse_cmdline s = Inr (r, opt) \<Longrightarrow> r = 0 \<and> opt_ok opt"
  by (auto simp: parse_cmdline_fill sum_bind_Inr intro: set_options_ok)

theorem parse_cmdline_in_range_witness:
  "\<exists>r opt. parse_cmdline ''debug=99,mode=dod,test'' = Inr (r, opt) \<and> r = 0 \<and> opt_ok opt \<and> opt_debug opt = 15"
proof -
  have "parse_cmdline ''debug=99,mode=dod,test'' =
      Inr (0, \<lparr>opt_skip = ''NIMIME'', opt_test = 1, opt_debug = 15, opt_check = 0,
             opt_force_chs = 0, opt_mbr = 0, opt_mode = WIPE_MODE_DOD\<rparr>)"
    by code_simp
  from this parse_cmdline_in_range [OF this] show ?thesis by auto
qed

text \<open>
  C19. The bound check of the token loop is off by one: a command line with more than 64
  items stores the 65th one behind the end of the slot table.
\<close>

theorem parse_cmdline_overflow:
  assumes "MAX_CMDLINE_SLOT < length (cmd_tokens s)" "has_part (cmd_tokens s ! MAX_CMDLINE_SLOT)"
  shows "parse_cmdline s = Inl SlotOverflow"
  using fill_slots_overflow [of "[]" "Some (take (MAX_CMDLINE_SIZE - 1) s)" None] assms
  by (simp add: parse_cmdline_fill has_part_iff)

theorem parse_cmdline_overflow_witness:
  "parse_cmdline (concat (replicate 65 ''x '')) = Inl SlotOverflow"
proof -
  have toks: "cmd_tokens (concat (replicate 65 ''x '')) = replicate 65 ''x''" by code_simp
  show ?thesis
  proof (rule parse_cmdline_overflow)
    show "MAX_CMDLINE_SLOT < length (cmd_tokens (concat (replicate 65 ''x '')))"
      unfolding toks by code_simp
    show "has_part (cmd_tokens (concat (replicate 65 ''x '')) ! MAX_CMDLINE_SLOT)"
      unfolding toks by code_simp
  qed
qed

end
