(* ===== verification/Serial.thy ===== *)
theory Serial
  imports Timer Cmdline
begin

text \<open>
  The serial port of serial.c, the \<^verbatim>\<open>write\<close> stub of libgloss that \<^verbatim>\<open>stderr\<close> reaches it by,
  the log of debug.c and the messages of option.c and cmdline.c. The waits for the
  transmitter may loop, so everything that sends gives an option; \<open>uart_ok\<close> is a
  transmitter that becomes empty again and then takes a byte, and under it the text that arrives
  on the line is determined.
\<close>

section \<open>The port\<close>

text \<open>The globals of serial.c; nothing but their initialisers sets them.\<close>

record serial_vars =
  serial_cons :: int
  serial_tty :: nat
  serial_baud_rate :: int
  serial_parity :: u8
  serial_bits :: u8

definition serial_defaults :: serial_vars where
  "serial_defaults = \<lparr>serial_cons = 0, serial_tty = 0, serial_baud_rate = 9600, serial_parity = 0, serial_bits = 8\<rparr>"

definition serial_base_ports :: "u16 list" where
  "serial_base_ports = [0x3f8, 0x2f8, 0x3e8, 0x2e8]"

definition UART_TX :: u16 where "UART_TX = 0"

definition UART_RX :: u16 where "UART_RX = 0"

definition UART_DLL :: u16 where "UART_DLL = 0"

definition UART_DLM :: u16 where "UART_DLM = 1"

definition UART_IER :: u16 where "UART_IER = 1"

definition UART_LCR :: u16 where "UART_LCR = 3"

definition UART_LSR :: u16 where "UART_LSR = 5"

definition BOTH_EMPTY :: u8 where "BOTH_EMPTY = 0x40 OR 0x20"

definition serial_echo_outb :: "'e platform \<Rightarrow> serial_vars \<Rightarrow> u8 \<Rightarrow> u16 \<Rightarrow> ('e, 'z) mach_scheme \<Rightarrow> ('e, 'z) mach_scheme" where
  "serial_echo_outb P v b a s = outb P b (a + serial_base_ports ! serial_tty v) s"

definition serial_echo_inb :: "'e platform \<Rightarrow> serial_vars \<Rightarrow> u16 \<Rightarrow> ('e, 'z) mach_scheme \<Rightarrow> u8 \<times> ('e, 'z) mach_scheme" where
  "serial_echo_inb P v a s = inb P (a + serial_base_ports ! serial_tty v) s"

partial_function (option) wait_for_xmitr ::
  "'e platform \<Rightarrow> serial_vars \<Rightarrow> ('e, 'z) mach_scheme \<Rightarrow> ('e, 'z) mach_scheme option" where
  "wait_for_xmitr P v s =
     (case serial_echo_inb P v UART_LSR s of (lsr, s) \<Rightarrow>
        if lsr AND BOTH_EMPTY \<noteq> BOTH_EMPTY then wait_for_xmitr P v s else Some s)"

definition serial_echo_init :: "'e platform \<Rightarrow> serial_vars \<Rightarrow> ('e, 'z) mach_scheme \<Rightarrow> ('e, 'z) mach_scheme" where
  "serial_echo_init P v s =
     (case serial_echo_inb P v UART_LCR s of (comstat, s) \<Rightarrow>
      let s = serial_echo_outb P v (comstat OR 0x80) UART_LCR s;
          s = snd (serial_echo_inb P v UART_DLM s);
          s = snd (serial_echo_inb P v UART_DLL s);
          s = serial_echo_outb P v comstat UART_LCR s;
          lcr = serial_parity v OR (serial_bits v - 5);
          s = serial_echo_outb P v lcr UART_LCR s;
          serial_div = 115200 div serial_baud_rate v;
          s = serial_echo_outb P v (0x80 OR lcr) UART_LCR s;
          s = serial_echo_outb P v (word_of_int serial_div) UART_DLL s;
          s = serial_echo_outb P v (word_of_int (serial_div div 256)) UART_DLM s;
          s = serial_echo_outb P v lcr UART_LCR s;
          s = snd (serial_echo_inb P v UART_LSR s);
          s = snd (serial_echo_inb P v UART_RX s)
      in serial_echo_outb P v 0 UART_IER s)"

definition serial_echo :: "'e platform \<Rightarrow> serial_vars \<Rightarrow> u8 \<Rightarrow> ('e, 'z) mach_scheme \<Rightarrow> ('e, 'z) mach_scheme option" where
  "serial_echo P v ch s =
     do {
       s \<leftarrow> wait_for_xmitr P v s;
       Some (serial_echo_outb P v ch UART_TX s)
     }"

text \<open>The body of the loop of \<^verbatim>\<open>serial_echo_print\<close>: a line feed is followed by a carriage return.\<close>

fun print_chars :: "'e platform \<Rightarrow> serial_vars \<Rightarrow> string \<Rightarrow> ('e, 'z) mach_scheme \<Rightarrow> ('e, 'z) mach_scheme option" where
  "print_chars P v [] s = Some s"
| "print_chars P v (c # p) s =
     do {
       s \<leftarrow> serial_echo P v (ord8 c) s;
       s \<leftarrow> (if ord8 c = 10 then serial_echo P v 13 s else Some s);
       print_chars P v p s
     }"

definition serial_echo_print :: "'e platform \<Rightarrow> serial_vars \<Rightarrow> string \<Rightarrow> ('e, 'z) mach_scheme \<Rightarrow> ('e, 'z) mach_scheme option" where
  "serial_echo_print P v p s = (if serial_cons v = 0 then Some s else print_chars P v p s)"

section \<open>The write stub of libgloss\<close>

fun echo_all :: "'e platform \<Rightarrow> serial_vars \<Rightarrow> bytes \<Rightarrow> ('e, 'z) mach_scheme \<Rightarrow> ('e, 'z) mach_scheme option" where
  "echo_all P v [] s = Some s"
| "echo_all P v (b # bs) s = do { s \<leftarrow> serial_echo P v b s; echo_all P v bs s }"

text \<open>The result -1 stands for \<^verbatim>\<open>errno = EBADF\<close> as well.\<close>

definition gloss_write :: "'e platform \<Rightarrow> serial_vars \<Rightarrow> int \<Rightarrow> bytes \<Rightarrow> ('e, 'z) mach_scheme \<Rightarrow> (int \<times> ('e, 'z) mach_scheme) option" where
  "gloss_write P v file ptr s =
     (if file = 1 \<or> file = 2 then do { s \<leftarrow> echo_all P v ptr s; Some (int (length ptr), s) }
      else Some (-1, s))"

text \<open>\<^verbatim>\<open>fprintf(stderr, ...)\<close> of a formatted text: \<^verbatim>\<open>stderr\<close> is file 2 and is not buffered across calls.\<close>

definition fprintf_stderr :: "'e platform \<Rightarrow> serial_vars \<Rightarrow> string \<Rightarrow> ('e, 'z) mach_scheme \<Rightarrow> ('e, 'z) mach_scheme option" where
  "fprintf_stderr P v t s = do { (n, s) \<leftarrow> gloss_write P v 2 (map ord8 t) s; Some s }"

section \<open>The log (debug.c)\<close>

definition MINIOS_LOG_ERR :: int where "MINIOS_LOG_ERR = 1"

definition MINIOS_LOG_WARN :: int where "MINIOS_LOG_WARN = 2"

definition MINIOS_LOG_INFO :: int where "MINIOS_LOG_INFO = 4"

definition MINIOS_LOG_DBG :: int where "MINIOS_LOG_DBG = 8"

lemmas log_levels = MINIOS_LOG_ERR_def MINIOS_LOG_WARN_def MINIOS_LOG_INFO_def MINIOS_LOG_DBG_def

definition log_str :: "int \<Rightarrow> string" where
  "log_str level =
     (if level = MINIOS_LOG_ERR then ''ERR'' else if level = MINIOS_LOG_WARN then ''WAN''
      else if level = MINIOS_LOG_INFO then ''INF'' else if level = MINIOS_LOG_DBG then ''DBG'' else ''???'')"

definition crlf :: string where "crlf = [char_of (13 :: nat), char_of (10 :: nat)]"

text \<open>\<open>msg\<close> is the text that the format and its arguments give; the buffer has 4096 bytes.\<close>

definition log_line :: "int \<Rightarrow> string \<Rightarrow> int \<Rightarrow> string \<Rightarrow> string" where
  "log_line level file line msg =
     snprintf 4096 (''['' @ log_str level @ '']['' @ file @ '':'' @ fmt_d line @ '']'' @ msg) @ crlf"

definition print_log ::
  "'e platform \<Rightarrow> serial_vars \<Rightarrow> options_t \<Rightarrow> int \<Rightarrow> string \<Rightarrow> int \<Rightarrow> string \<Rightarrow> ('e, 'z) mach_scheme \<Rightarrow> ('e, 'z) mach_scheme option" where
  "print_log P v p level file line msg s =
     (if opt_debug p AND level = 0 then Some s
      else fprintf_stderr P v (log_line level file line msg) s)"

section \<open>Messages of option.c and cmdline.c\<close>

definition opt_line :: "string \<Rightarrow> string \<Rightarrow> string" where
  "opt_line key val = ''opt: ['' @ key @ ''->'' @ val @ '']'' @ crlf"

definition dmp_opt :: "options_t \<Rightarrow> string" where
  "dmp_opt p =
     opt_line ''skip'' (opt_skip p) @ opt_line ''debug'' (fmt_d (opt_debug p)) @ opt_line ''test'' (fmt_d (opt_test p)) @
     opt_line ''check'' (fmt_d (opt_check p)) @ opt_line ''force_chs'' (fmt_d (opt_force_chs p)) @
     opt_line ''mbr'' (fmt_d (opt_mbr p)) @ opt_line ''mode'' (mode_name (opt_mode p))"

text \<open>newlib prints \<^verbatim>\<open>(null)\<close> for the missing key of a token made of separators only.\<close>

definition slot_line :: "cmd_slot_t \<Rightarrow> string" where
  "slot_line c =
     ''cmd: ['' @ (case slot_key c of None \<Rightarrow> ''(null)'' | Some k \<Rightarrow> k) @ ''->'' @
     (case slot_val c of None \<Rightarrow> ''(none)'' | Some w \<Rightarrow> w) @ '']'' @ crlf"

text \<open>Everything \<^verbatim>\<open>parse_cmdline\<close> prints when it returns.\<close>

definition cmdline_text :: "string \<Rightarrow> cmd_fault + string" where
  "cmdline_text cmd =
     sum_bind (fill_slots (Some (take (MAX_CMDLINE_SIZE - 1) cmd)) None 0 (replicate MAX_CMDLINE_SLOT empty_slot)) (\<lambda>(slots, cnt).
     sum_bind (set_options slots cnt) (\<lambda>p. Inr
       (''==================welcom to minios!================='' @ crlf @ ''cmd is '' @ cmd @ crlf @
        ''cmd item cnt '' @ fmt_d (int cnt) @ crlf @ concat (map slot_line (take cnt slots)) @
        ''before parse options'' @ crlf @ dmp_opt set_default_opt @ dmp_opt p)))"

section \<open>The registers of the port\<close>

record uart_regs =
  u_lcr :: u8
  u_dll :: u8
  u_dlm :: u8
  u_ier :: u8

text \<open>
  The registers of a 16450 as far as \<^verbatim>\<open>serial_echo_init\<close> writes them: bit 7 of the line
  control register switches the first two ports to the divisor latch.
\<close>

definition uart_store :: "u16 \<Rightarrow> u8 \<Rightarrow> uart_regs \<Rightarrow> uart_regs" where
  "uart_store a b r =
     (if a = UART_LCR then r\<lparr>u_lcr := b\<rparr>
      else if a = UART_DLL \<and> u_lcr r AND 0x80 \<noteq> 0 then r\<lparr>u_dll := b\<rparr>
      else if a = UART_DLM \<and> u_lcr r AND 0x80 \<noteq> 0 then r\<lparr>u_dlm := b\<rparr>
      else if a = UART_IER then r\<lparr>u_ier := b\<rparr> else r)"

definition uart_registers :: "'e platform \<Rightarrow> serial_vars \<Rightarrow> ('e \<Rightarrow> uart_regs) \<Rightarrow> bool" where
  "uart_registers P v R \<longleftrightarrow>
     (\<forall>a e. a < 8 \<longrightarrow> R (snd (p_inb P (a + serial_base_ports ! serial_tty v) e)) = R e) \<and>
     (\<forall>a b e. a < 8 \<longrightarrow> R (p_outb P b (a + serial_base_ports ! serial_tty v) e) = uart_store a b (R e))"

lemmas uart_ports = UART_TX_def UART_RX_def UART_DLL_def UART_DLM_def UART_IER_def UART_LCR_def UART_LSR_def

lemma uart_registers_outb [simp]:
  "uart_registers P v R \<Longrightarrow> a < 8 \<Longrightarrow> R (dev (serial_echo_outb P v b a s)) = uart_store a b (R (dev s))"
  by (simp add: uart_registers_def serial_echo_outb_def outb_def)

lemma uart_registers_inb [simp]:
  "uart_registers P v R \<Longrightarrow> a < 8 \<Longrightarrow> R (dev (snd (serial_echo_inb P v a s))) = R (dev s)"
  by (simp add: uart_registers_def serial_echo_inb_def inb_def case_prod_beta)

text \<open>
  \<^verbatim>\<open>serial_echo_init\<close> leaves the port at 9600 baud (divisor 12 of 115200), 8 data bits, no
  parity, one stop bit, the divisor latch closed and all interrupts of the port disabled,
  whatever the port was set to before.
\<close>

theorem serial_echo_init_registers:
  assumes "uart_registers P serial_defaults R"
  shows "R (dev (serial_echo_init P serial_defaults s)) = \<lparr>u_lcr = 3, u_dll = 12, u_dlm = 0, u_ier = 0\<rparr>"
  using assms
  by (simp add: serial_echo_init_def case_prod_beta Let_def uart_ports)
     (simp add: uart_store_def uart_ports serial_defaults_def)

section \<open>A transmitter that works\<close>

text \<open>
  \<open>sent\<close> is what has arrived on the line, \<open>idle\<close> that the transmitter holds no byte. Reading the line status changes
  nothing on the line, shows the transmitter empty after finitely many readings, and only when it is
  idle. A byte stored in the transmit register arrives if the transmitter is idle and the divisor latch
  closed; nothing is assumed of a byte stored while the transmitter is busy or the latch is open.
\<close>

definition lsr_port :: "serial_vars \<Rightarrow> u16" where
  "lsr_port v = UART_LSR + serial_base_ports ! serial_tty v"

definition tx_port :: "serial_vars \<Rightarrow> u16" where
  "tx_port v = UART_TX + serial_base_ports ! serial_tty v"

definition latch_closed :: "uart_regs \<Rightarrow> bool" where
  "latch_closed r \<longleftrightarrow> u_lcr r AND 0x80 = 0"

text \<open>A transmitter that becomes empty again, whatever becomes of the bytes.\<close>

definition uart_live :: "'e platform \<Rightarrow> serial_vars \<Rightarrow> bool" where
  "uart_live P v \<longleftrightarrow>
     (\<forall>e. \<exists>n. fst (p_inb P (lsr_port v) (((\<lambda>d. snd (p_inb P (lsr_port v) d)) ^^ n) e)) AND BOTH_EMPTY = BOTH_EMPTY)"

definition uart_ok :: "'e platform \<Rightarrow> serial_vars \<Rightarrow> ('e \<Rightarrow> uart_regs) \<Rightarrow> ('e \<Rightarrow> bool) \<Rightarrow> ('e \<Rightarrow> bytes) \<Rightarrow> bool" where
  "uart_ok P v R idle sent \<longleftrightarrow>
     uart_registers P v R \<and> uart_live P v \<and>
     (\<forall>e. sent (snd (p_inb P (lsr_port v) e)) = sent e) \<and>
     (\<forall>e. fst (p_inb P (lsr_port v) e) AND BOTH_EMPTY = BOTH_EMPTY \<longrightarrow> idle (snd (p_inb P (lsr_port v) e))) \<and>
     (\<forall>e b. idle e \<and> latch_closed (R e) \<longrightarrow> sent (p_outb P b (tx_port v) e) = sent e @ [b])"

text \<open>The wait ends with an idle transmitter. \<open>Q\<close> is a property of the device that readings of the status keep.\<close>

lemma wait_for_xmitr_ready:
  "fst (p_inb P (lsr_port v) (((\<lambda>d. snd (p_inb P (lsr_port v) d)) ^^ n) (dev s))) AND BOTH_EMPTY = BOTH_EMPTY \<Longrightarrow>
   (\<And>e. Q e \<Longrightarrow> Q (snd (p_inb P (lsr_port v) e))) \<Longrightarrow> Q (dev s) \<Longrightarrow>
   (\<And>e. fst (p_inb P (lsr_port v) e) AND BOTH_EMPTY = BOTH_EMPTY \<Longrightarrow> idle (snd (p_inb P (lsr_port v) e))) \<Longrightarrow>
     \<exists>e. wait_for_xmitr P v s = Some (s\<lparr>dev := e\<rparr>) \<and> idle e \<and> Q e"
proof (induction n arbitrary: s)
  case 0
  then show ?case
    by (subst wait_for_xmitr.simps) (auto simp: serial_echo_inb_def inb_def case_prod_beta lsr_port_def)
next
  case (Suc n)
  let ?e = "snd (p_inb P (lsr_port v) (dev s))"
  have "fst (p_inb P (lsr_port v) (((\<lambda>d. snd (p_inb P (lsr_port v) d)) ^^ n) (dev (s\<lparr>dev := ?e\<rparr>)))) AND BOTH_EMPTY = BOTH_EMPTY"
    using Suc.prems(1) unfolding funpow_Suc_right by simp
  moreover have "Q (dev (s\<lparr>dev := ?e\<rparr>))" using Suc.prems(2,3) by simp
  ultimately have "\<exists>e. wait_for_xmitr P v (s\<lparr>dev := ?e\<rparr>) = Some (s\<lparr>dev := ?e, dev := e\<rparr>) \<and> idle e \<and> Q e"
    using Suc.IH [of "s\<lparr>dev := ?e\<rparr>"] Suc.prems(2,4) by auto
  then show ?case using Suc.prems(2-4)
    by (subst wait_for_xmitr.simps) (auto simp: serial_echo_inb_def inb_def case_prod_beta lsr_port_def)
qed

lemma lsr_registers: "uart_registers P v R \<Longrightarrow> R (snd (p_inb P (lsr_port v) e)) = R e"
  by (simp add: uart_registers_def lsr_port_def UART_LSR_def)

lemma tx_registers: "uart_registers P v R \<Longrightarrow> latch_closed (R e) \<Longrightarrow> R (p_outb P b (tx_port v) e) = R e"
proof -
  assume r: "uart_registers P v R" and l: "latch_closed (R e)"
  have "R (p_outb P b (tx_port v) e) = uart_store UART_TX b (R e)"
    using r unfolding uart_registers_def tx_port_def by (simp add: UART_TX_def del: add_0)
  then show "R (p_outb P b (tx_port v) e) = R e" using l by (simp add: uart_store_def uart_ports latch_closed_def)
qed

lemma serial_echo_sends:
  assumes "uart_ok P v R idle sent" "latch_closed (R (dev s))"
  obtains e where "serial_echo P v b s = Some (s\<lparr>dev := e\<rparr>)" "sent e = sent (dev s) @ [b]" "latch_closed (R e)"
proof -
  have reg: "uart_registers P v R" and u: "\<And>e. sent (snd (p_inb P (lsr_port v) e)) = sent e"
    "\<And>e. fst (p_inb P (lsr_port v) e) AND BOTH_EMPTY = BOTH_EMPTY \<Longrightarrow> idle (snd (p_inb P (lsr_port v) e))"
    "\<And>e b. idle e \<Longrightarrow> latch_closed (R e) \<Longrightarrow> sent (p_outb P b (tx_port v) e) = sent e @ [b]"
    using assms(1) by (simp_all add: uart_ok_def)
  obtain n where n: "fst (p_inb P (lsr_port v) (((\<lambda>d. snd (p_inb P (lsr_port v) d)) ^^ n) (dev s))) AND BOTH_EMPTY = BOTH_EMPTY"
    using assms(1) unfolding uart_ok_def uart_live_def by blast
  have "\<exists>e. wait_for_xmitr P v s = Some (s\<lparr>dev := e\<rparr>) \<and> idle e \<and> (sent e = sent (dev s) \<and> R e = R (dev s))"
    by (rule wait_for_xmitr_ready [OF n]) (use u lsr_registers [OF reg] in simp_all)
  then obtain e where e: "wait_for_xmitr P v s = Some (s\<lparr>dev := e\<rparr>)" "idle e" "sent e = sent (dev s)" "R e = R (dev s)" by blast
  show thesis
    by (rule that [of "p_outb P b (tx_port v) e"])
       (use e u(3) tx_registers [OF reg] assms(2) in \<open>simp_all add: serial_echo_def serial_echo_outb_def outb_def tx_port_def\<close>)
qed

lemma echo_all_sends:
  assumes "uart_ok P v R idle sent"
  shows "latch_closed (R (dev s)) \<Longrightarrow> \<exists>e. echo_all P v bs s = Some (s\<lparr>dev := e\<rparr>) \<and> sent e = sent (dev s) @ bs \<and> latch_closed (R e)"
proof (induction bs arbitrary: s)
  case Nil
  then show ?case by (intro exI [of _ "dev s"]) simp
next
  case (Cons b bs)
  obtain e where e: "serial_echo P v b s = Some (s\<lparr>dev := e\<rparr>)" "sent e = sent (dev s) @ [b]" "latch_closed (R e)"
    by (rule serial_echo_sends [OF assms Cons.prems])
  from Cons.IH [of "s\<lparr>dev := e\<rparr>"] show ?case using e by auto
qed

lemma fprintf_sends:
  assumes "uart_ok P v R idle sent" "latch_closed (R (dev s))"
  shows "\<exists>e. fprintf_stderr P v t s = Some (s\<lparr>dev := e\<rparr>) \<and> sent e = sent (dev s) @ map ord8 t \<and> latch_closed (R e)"
  using echo_all_sends [OF assms, of "map ord8 t"] by (auto simp: fprintf_stderr_def gloss_write_def)

text \<open>What \<^verbatim>\<open>serial_echo_print\<close> sends for a text.\<close>

definition with_cr :: "string \<Rightarrow> bytes" where
  "with_cr t = concat (map (\<lambda>c. if ord8 c = 10 then [10, 13] else [ord8 c]) t)"

lemma print_chars_sends:
  assumes "uart_ok P v R idle sent"
  shows "latch_closed (R (dev s)) \<Longrightarrow> \<exists>e. print_chars P v t s = Some (s\<lparr>dev := e\<rparr>) \<and> sent e = sent (dev s) @ with_cr t \<and> latch_closed (R e)"
proof (induction t arbitrary: s)
  case Nil
  then show ?case by (intro exI [of _ "dev s"]) (simp add: with_cr_def)
next
  case (Cons c t)
  obtain e where e: "serial_echo P v (ord8 c) s = Some (s\<lparr>dev := e\<rparr>)" "sent e = sent (dev s) @ [ord8 c]" "latch_closed (R e)"
    by (rule serial_echo_sends [OF assms Cons.prems])
  have l: "latch_closed (R (dev (s\<lparr>dev := e\<rparr>)))" using e(3) by simp
  obtain f where f: "serial_echo P v 13 (s\<lparr>dev := e\<rparr>) = Some (s\<lparr>dev := e, dev := f\<rparr>)" "sent f = sent (dev (s\<lparr>dev := e\<rparr>)) @ [13]" "latch_closed (R f)"
    by (rule serial_echo_sends [OF assms l])
  show ?case
    using Cons.IH [of "s\<lparr>dev := e\<rparr>"] Cons.IH [of "s\<lparr>dev := f\<rparr>"] e f by (auto simp: with_cr_def)
qed

section \<open>What the log sends\<close>

text \<open>
  C39. A log call sends nothing unless the bit of its level (1 error, 2 warning, 4 info, 8
  debug) is set in the option \<^verbatim>\<open>debug\<close>; otherwise it sends the name of the level in brackets, the file and line in brackets and the
  message, together cut to 4095 characters, and then carriage return and line feed, every byte of them in order, and returns. This holds for every transmitter that becomes empty again and
  takes a byte when it is idle: each byte is stored only after the transmitter has shown itself
  empty. The divisor latch is closed, as \<^verbatim>\<open>serial_echo_init\<close> leaves it, and the file name leaves
  room in the buffer.
\<close>

theorem print_log_sends:
  assumes "uart_ok P v R idle sent" "latch_closed (R (dev s))" "length (''[???]['' @ file @ '':'' @ fmt_d line @ '']'') < 4096"
  shows "\<exists>e. print_log P v p level file line msg s = Some (s\<lparr>dev := e\<rparr>) \<and> latch_closed (R e) \<and>
    sent e = sent (dev s) @
      (if opt_debug p AND level = 0 then []
       else map ord8 (take 4095 (''['' @ (if level = 1 then ''ERR'' else if level = 2 then ''WAN'' else if level = 4 then ''INF''
              else if level = 8 then ''DBG'' else ''???'') @ '']['' @ file @ '':'' @ fmt_d line @ '']'' @ msg)) @ [13, 10])"
proof -
  have "map ord8 (log_line level file line msg) = map ord8 (take 4095 (''['' @ (if level = 1 then ''ERR'' else if level = 2 then ''WAN''
      else if level = 4 then ''INF'' else if level = 8 then ''DBG'' else ''???'') @ '']['' @ file @ '':'' @ fmt_d line @ '']'' @ msg)) @ [13, 10]"
    unfolding log_line_def log_str_def log_levels crlf_def by (simp add: snprintf_def ord8_def)
  then show ?thesis
    using fprintf_sends [OF assms(1,2), of "log_line level file line msg"] assms(2)
    by (auto simp: print_log_def intro: exI [of _ "dev s"])
qed

lemma mask_and_level: "(2 ^ n - 1 :: int) AND 2 ^ k = 0 \<longleftrightarrow> n \<le> k"
  by (simp add: and_exp_eq_0_iff_not_bit bit_mask_iff not_less possible_bit_def flip: mask_eq_exp_minus_1)

text \<open>
  The value \<^verbatim>\<open>2 ^ n - 1\<close> of the option \<^verbatim>\<open>debug\<close> enables exactly the first \<open>n\<close> of the
  levels error, warning, info and debug: a log call of the level \<^verbatim>\<open>2 ^ k\<close> sends its line iff
  \<open>k < n\<close>, as the comments of debug.h and option.h describe it.
\<close>

theorem print_log_levels:
  assumes "uart_ok P v R idle sent" "latch_closed (R (dev s))" "opt_debug p = 2 ^ n - 1"
  shows "\<exists>e. print_log P v p (2 ^ k) file line msg s = Some (s\<lparr>dev := e\<rparr>) \<and>
    sent e = sent (dev s) @ (if k < n then map ord8 (log_line (2 ^ k) file line msg) else [])"
  using fprintf_sends [OF assms(1,2), of "log_line (2 ^ k) file line msg"] mask_and_level [of n k]
  by (auto simp: print_log_def assms(3) intro: exI [of _ "dev s"])

text \<open>
  With the console switched on, \<^verbatim>\<open>serial_echo_print\<close> sends a text with every line feed
  followed by a carriage return; with the default setting it sends nothing.
\<close>

theorem serial_echo_print_sends:
  assumes "uart_ok P v R idle sent" "latch_closed (R (dev s))"
  shows "\<exists>e. serial_echo_print P v t s = Some (s\<lparr>dev := e\<rparr>) \<and>
    sent e = sent (dev s) @ (if serial_cons v = 0 then [] else with_cr t)"
  using print_chars_sends [OF assms, of t] by (auto simp: serial_echo_print_def intro: exI [of _ "dev s"])

section \<open>A sample port\<close>

text \<open>
  A port whose transmitter is busy for three readings of the status after every byte, and which loses a byte that
  is stored while it is busy or the divisor latch is open.
\<close>

record sample_uart =
  su_regs :: uart_regs
  su_sent :: bytes
  su_busy :: nat

definition sample_inb :: "u16 \<Rightarrow> sample_uart \<Rightarrow> u8 \<times> sample_uart" where
  "sample_inb port e =
     (if port = 0x3fd then (if su_busy e = 0 then 0x60 else 0, e\<lparr>su_busy := su_busy e - 1\<rparr>) else (0, e))"

definition sample_outb :: "u8 \<Rightarrow> u16 \<Rightarrow> sample_uart \<Rightarrow> sample_uart" where
  "sample_outb b port e =
     e\<lparr>su_regs := uart_store (port - 0x3f8) b (su_regs e),
       su_sent := (if port = 0x3f8 \<and> su_busy e = 0 \<and> latch_closed (su_regs e) then su_sent e @ [b] else su_sent e), su_busy := 3\<rparr>"

definition uart_pc :: "sample_uart platform" where
  "uart_pc = \<lparr>p_bios = (\<lambda>a e. (True, a, e)), p_inb = sample_inb, p_outb = sample_outb, p_rdtsc = (\<lambda>e. (0, e)),
     p_rdmsr = (\<lambda>n e. ((0, 0), e)), p_malloc = (\<lambda>n e. (None, e)), p_free = (\<lambda>e. e), p_mbr_bin = [], p_stack = []\<rparr>"

definition uart_mach :: "sample_uart mach" where
  "uart_mach = \<lparr>ptrs = sample_ptrs, ra = blank_area,
     dev = \<lparr>su_regs = \<lparr>u_lcr = 0x1F, u_dll = 1, u_dlm = 0, u_ier = 0xF\<rparr>, su_sent = [], su_busy = 2\<rparr>\<rparr>"

lemma sample_inb_busy: "((\<lambda>d. snd (sample_inb 0x3fd d)) ^^ n) e = e\<lparr>su_busy := su_busy e - n\<rparr>"
  by (induction n) (simp_all add: sample_inb_def)

lemma uart_pc_registers: "serial_tty v = 0 \<Longrightarrow> uart_registers uart_pc v su_regs"
  by (auto simp: uart_registers_def uart_pc_def sample_inb_def sample_outb_def serial_base_ports_def)

lemma uart_pc_ok: "serial_tty v = 0 \<Longrightarrow> uart_ok uart_pc v su_regs (\<lambda>e. su_busy e = 0) su_sent"
proof -
  assume t: "serial_tty v = 0"
  have "\<exists>n. fst (sample_inb 0x3fd (((\<lambda>d. snd (sample_inb 0x3fd d)) ^^ n) e)) AND BOTH_EMPTY = BOTH_EMPTY" for e
    by (rule exI [of _ "su_busy e"], subst sample_inb_busy) (simp add: sample_inb_def BOTH_EMPTY_def)
  then have "uart_live uart_pc v"
    using t by (simp add: uart_live_def lsr_port_def uart_ports serial_base_ports_def uart_pc_def)
  then show ?thesis
    using t uart_pc_registers [OF t] by (simp add: uart_ok_def lsr_port_def tx_port_def uart_ports serial_base_ports_def)
      (simp add: uart_pc_def sample_inb_def sample_outb_def BOTH_EMPTY_def)
qed

theorem serial_echo_init_registers_witness:
  "su_regs (dev (serial_echo_init uart_pc serial_defaults uart_mach)) = \<lparr>u_lcr = 3, u_dll = 12, u_dlm = 0, u_ier = 0\<rparr>"
  by (rule serial_echo_init_registers) (simp add: uart_pc_registers serial_defaults_def)

theorem print_log_sends_witness:
  "\<exists>e. print_log uart_pc serial_defaults (set_default_opt\<lparr>opt_debug := 15\<rparr>) 8 ''a.c'' 3 ''hi'' uart_mach = Some (uart_mach\<lparr>dev := e\<rparr>) \<and>
     su_sent e = map ord8 ''[DBG][a.c:3]hi'' @ [13, 10]"
  using print_log_sends [OF uart_pc_ok [of serial_defaults], of uart_mach "''a.c''" 3 "set_default_opt\<lparr>opt_debug := 15\<rparr>" 8 "''hi''"]
  by (simp add: serial_defaults_def uart_mach_def fmt_d_def dec.simps ord8_def latch_closed_def) blast

theorem print_log_levels_witness:
  "\<exists>e. print_log uart_pc serial_defaults (set_default_opt\<lparr>opt_debug := 3\<rparr>) 4 ''a.c'' 3 ''hi'' uart_mach = Some (uart_mach\<lparr>dev := e\<rparr>) \<and>
     su_sent e = []"
  using print_log_levels [OF uart_pc_ok [of serial_defaults], of uart_mach "set_default_opt\<lparr>opt_debug := 3\<rparr>" 2 2 "''a.c''" 3 "''hi''"]
  by (simp add: serial_defaults_def uart_mach_def latch_closed_def)

theorem serial_echo_print_sends_witness:
  "\<exists>e. serial_echo_print uart_pc (serial_defaults\<lparr>serial_cons := 1\<rparr>) [CHR ''a'', char_of (10 :: nat)] uart_mach =
      Some (uart_mach\<lparr>dev := e\<rparr>) \<and> su_sent e = [0x61, 10, 13]"
  using serial_echo_print_sends [OF uart_pc_ok [of "serial_defaults\<lparr>serial_cons := 1\<rparr>"], of uart_mach "[CHR ''a'', char_of (10 :: nat)]"]
  by (simp add: serial_defaults_def uart_mach_def with_cr_def ord8_def latch_closed_def)

section \<open>The frame of serial output\<close>

lemma dvia_serial_echo_outb [simp]: "dvia P s (serial_echo_outb P v b a s)"
  by (simp add: serial_echo_outb_def)

lemma dvia_serial_echo_inb [simp]: "dvia P s (snd (serial_echo_inb P v a s))"
  by (simp add: serial_echo_inb_def)

lemma dvia_wait_for_xmitr:
  assumes "wait_for_xmitr P v s = Some t"
  shows "dvia P s t"
proof -
  have "(\<lambda>x t. dvia (fst (fst x)) (snd x) t) ((P, v), s) t"
    by (rule wait_for_xmitr.raw_induct [where Pa = "\<lambda>x t. dvia (fst (fst x)) (snd x) t", OF _ assms])
       (auto simp: case_prod_beta split: if_splits, blast intro: dvia_trans [OF dvia_serial_echo_inb])
  then show ?thesis by simp
qed

lemma dvia_serial_echo: "serial_echo P v b s = Some t \<Longrightarrow> dvia P s t"
  by (auto simp: serial_echo_def split: bind_splits intro: dvia_trans [OF dvia_wait_for_xmitr])

lemma dvia_echo_all: "echo_all P v bs s = Some t \<Longrightarrow> dvia P s t"
  by (induction bs arbitrary: s) (auto split: bind_splits intro: dvia_trans [OF dvia_serial_echo])

lemma dvia_fprintf: "fprintf_stderr P v t s = Some u \<Longrightarrow> dvia P s u"
  by (auto simp: fprintf_stderr_def gloss_write_def split: bind_splits intro: dvia_echo_all)

lemma dvia_serial_echo_init: "dvia P s (serial_echo_init P v s)"
  unfolding serial_echo_init_def case_prod_beta Let_def
  by (rule dvia_refl | rule dvia_trans [OF _ dvia_serial_echo_outb] | rule dvia_trans [OF _ dvia_serial_echo_inb])+

lemma echo_all_returns:
  assumes "uart_live P v"
  shows "\<exists>t. echo_all P v bs s = Some t"
proof (induction bs arbitrary: s)
  case (Cons b bs)
  obtain n where n: "fst (p_inb P (lsr_port v) (((\<lambda>d. snd (p_inb P (lsr_port v) d)) ^^ n) (dev s))) AND BOTH_EMPTY = BOTH_EMPTY"
    using assms unfolding uart_live_def by blast
  obtain u where "wait_for_xmitr P v s = Some u" using wait_for_xmitr_ready [OF n, of "\<lambda>_. True" "\<lambda>_. True"] by auto
  then show ?case using Cons by (simp add: serial_echo_def)
qed simp

lemma fprintf_returns: "uart_live P v \<Longrightarrow> \<exists>u. fprintf_stderr P v t s = Some u"
  using echo_all_returns [of P v "map ord8 t" s] by (auto simp: fprintf_stderr_def gloss_write_def)

end
