(* ===== verification/Main_Program.thy ===== *)
theory Main_Program
  imports Erase Cpu Serial "HOL-Library.Sublist"
begin

text \<open>
  The main program of dwipe.c: the enumeration of the disks, the loop that wipes them and
  counts the outcomes, and \<^verbatim>\<open>do_main\<close>, which runs all components in order. Results:
  the enumeration stays inside the disk table and yields a well-formed one, the counters
  add up, and every disk is either zero or untouched at the end.
\<close>

section \<open>State\<close>

text \<open>The whole program with control register 0, and what the linker and the boot loader supply.\<close>

record 'e sys = "'e world" +
  cr0 :: u32

record boot_image =
  real_code_begin :: u32
  link_ptrs :: real_ptrs
  cmd_line_ptr :: string

definition DISK_LIST_LEN :: nat where "DISK_LIST_LEN = 128"

section \<open>Enumeration of the disks\<close>

text \<open>
  One turn of the loop for the drive \<open>drv\<close>; \<open>index\<close> is the next free slot of \<^verbatim>\<open>disk_list\<close>.
  \<open>None\<close> is a store behind the end of the table. The locals \<^verbatim>\<open>ext\<close> and \<^verbatim>\<open>version\<close> are given the value 0 in every
  turn instead of what the turn before left in them, which is read only when \<^verbatim>\<open>check_extensions_present\<close> reports
  success without having set them.
\<close>

definition enum_one ::
  "'e platform \<Rightarrow> u8 \<Rightarrow> nat \<Rightarrow> ('e, 'z) world_scheme \<Rightarrow> (nat \<times> ('e, 'z) world_scheme) option" where
  "enum_one P drv index s =
     (if index \<ge> length (disk_list s) then None
      else case get_disk_param P drv s of ((ret, param), s) \<Rightarrow>
        let s = s\<lparr>disk_list := (disk_list s)[index := param]\<rparr>
        in if ret \<noteq> 0 then Some (index, s)
           else let s = show_disk_list_enum drv s
                in case check_extensions_present P drv 0 0 s of ((ret, exts, version), s) \<Rightarrow>
                   if ret = 0 \<and> exts AND 1 \<noteq> 0
                   then case get_disk_param_ext P (disk_list s ! index) s of ((ret, param), s) \<Rightarrow>
                          Some (index + 1, s\<lparr>disk_list := (disk_list s)[index := param]\<rparr>)
                   else Some (index + 1, s))"

fun enum_loop ::
  "'e platform \<Rightarrow> u8 list \<Rightarrow> nat \<Rightarrow> ('e, 'z) world_scheme \<Rightarrow> (nat \<times> ('e, 'z) world_scheme) option" where
  "enum_loop P [] index s = Some (index, s)"
| "enum_loop P (drv # drvs) index s =
     do { (index, s) \<leftarrow> enum_one P drv index s; enum_loop P drvs index s }"

definition all_drives :: "u8 list" where
  "all_drives = map of_nat [0x80..<0x100]"

definition enum_disk :: "'e platform \<Rightarrow> ('e, 'z) world_scheme \<Rightarrow> ('e, 'z) world_scheme option" where
  "enum_disk P s =
     do {
       (index, s) \<leftarrow> enum_loop P all_drives 0 s;
       Some (s\<lparr>total_disk_cnt := of_nat index\<rparr>)
     }"

section \<open>Wiping all disks\<close>

definition count_result :: "int \<Rightarrow> ('e, 'z) world_scheme \<Rightarrow> ('e, 'z) world_scheme" where
  "count_result ret s =
     (if ret = 0 then s\<lparr>done_disk_cnt := done_disk_cnt s + 1\<rparr>
      else if ret < 0 then s\<lparr>error_disk_cnt := error_disk_cnt s + 1\<rparr>
      else s\<lparr>skiped_disk_cnt := skiped_disk_cnt s + 1\<rparr>)"

definition show_counts :: "('e, 'z) world_scheme \<Rightarrow> ('e, 'z) world_scheme" where
  "show_counts s = show_disk_list (total_disk_cnt s) (error_disk_cnt s) (skiped_disk_cnt s) (done_disk_cnt s) s"

definition wipe_one :: "'e platform \<Rightarrow> nat \<Rightarrow> ('e, 'z) world_scheme \<Rightarrow> (int \<times> ('e, 'z) world_scheme) option" where
  "wipe_one P i s =
     do {
       let s = show_mode s;
       let s = show_disk_status (disk_list s ! i) s;
       (ret, s) \<leftarrow> wipe_disk P (disk_list s ! i) s;
       Some (ret, show_counts (count_result ret s))
     }"

fun wipe_list :: "'e platform \<Rightarrow> nat list \<Rightarrow> ('e, 'z) world_scheme \<Rightarrow> ('e, 'z) world_scheme option" where
  "wipe_list P [] s = Some s"
| "wipe_list P (i # is) s = do { (ret, s) \<leftarrow> wipe_one P i s; wipe_list P is s }"

section \<open>The main function\<close>

text \<open>\<^verbatim>\<open>reboot\<close> of lib.h pulses the reset line of the keyboard controller.\<close>

definition reboot :: "'e platform \<Rightarrow> ('e, 'z) mach_scheme \<Rightarrow> ('e, 'z) mach_scheme" where
  "reboot P s = outb P 0xfe 0x64 s"

text \<open>The part of \<^verbatim>\<open>do_main\<close> before the disks are touched, after the command line has been parsed.\<close>

definition set_up :: "'e platform \<Rightarrow> boot_image \<Rightarrow> ('e, 'z) sys_scheme \<Rightarrow> ('e, 'z) sys_scheme option" where
  "set_up P img s =
     do {
       s \<leftarrow> timer_init P s;
       let s = s\<lparr>cr0 := set_cache (cpu_id (tv s)) 1 (cr0 s)\<rparr>;
       let s = relocate_real (real_code_begin img) (link_ptrs img) s;
       let s = display_init s;
       (cur, s) \<leftarrow> do_gettimeofday P s;
       let s = s\<lparr>rand_next := srand (fst cur)\<rparr>;
       let s = show_header s;
       Some (show_cpu (cpu_type_str (tv s)) (l1_cache (tv s)) (l2_cache (tv s)) (l3_cache (tv s)) (speed (tv s)) s)
     }"

definition run_disks :: "'e platform \<Rightarrow> ('e, 'z) world_scheme \<Rightarrow> ('e, 'z) world_scheme option" where
  "run_disks P s =
     do {
       s \<leftarrow> enum_disk P s;
       let s = show_counts s;
       wipe_list P [0..<unat (total_disk_cnt s)] s
     }"

datatype main_fault = BadCmdline cmd_fault | NoReturn

text \<open>The state of the result is that of the endless loop after the reboot request.\<close>

definition do_main ::
  "'e platform \<Rightarrow> serial_vars \<Rightarrow> boot_image \<Rightarrow> ('e, 'z) sys_scheme \<Rightarrow> main_fault + ('e, 'z) sys_scheme" where
  "do_main P v img s =
     (let s = outb P 0x8 0x3f2 s;
          s = serial_echo_init P v s
      in case sum_bind (cmdline_text (cmd_line_ptr img)) (\<lambda>t.
              sum_bind (parse_cmdline (cmd_line_ptr img)) (\<lambda>r. Inr (t, r))) of
           Inl f \<Rightarrow> Inl (BadCmdline f)
         | Inr (t, ret, p) \<Rightarrow>
             (case do {
                     s \<leftarrow> fprintf_stderr P v t s;
                     let s = s\<lparr>opt := p\<rparr>;
                     let s = (if ret \<noteq> 0 then reboot P s else s);
                     s \<leftarrow> set_up P img s;
                     s \<leftarrow> run_disks P s;
                     Some (reboot P s)
                   } of
                None \<Rightarrow> Inl NoReturn
              | Some s \<Rightarrow> Inr s))"

section \<open>The enumeration\<close>

subsection \<open>Frame\<close>

lemma wvia_disk_list: "wvia P ok s t \<Longrightarrow> wvia P ok (s\<lparr>disk_list := l\<rparr>) (t\<lparr>disk_list := l\<rparr>)"
  unfolding wvia_def
proof (elim exE conjE)
  fix a e m r assume *: "t = s\<lparr>ra := a, dev := e, mem := m, rand_next := r\<rparr>" "reaches P ok (dev s) e"
    "rbuf_fixed P \<longrightarrow> length (rbuf a) = length (rbuf (ra s))"
  show "\<exists>a' e' m' r'. t\<lparr>disk_list := l\<rparr> = s\<lparr>disk_list := l, ra := a', dev := e', mem := m', rand_next := r'\<rparr> \<and>
      reaches P ok (dev (s\<lparr>disk_list := l\<rparr>)) e' \<and> (rbuf_fixed P \<longrightarrow> length (rbuf a') = length (rbuf (ra (s\<lparr>disk_list := l\<rparr>))))"
    by (rule exI [of _ a], rule exI [of _ e], rule exI [of _ m], rule exI [of _ r]) (use * in simp)
qed

lemma wvia_show_sepator [simp]: "wvia P ok s (show_sepator y s)"
  by (simp add: show_sepator_def)

lemma wvia_show_disk_list_enum [simp]: "wvia P ok s (show_disk_list_enum drv s)"
  unfolding show_disk_list_enum_def by (rule wvia_trans [OF wvia_trans [OF wvia_clean_line wvia_cprint] wvia_show_sepator])

lemma wvia_show_disk_list [simp]: "wvia P ok s (show_disk_list a b c d s)"
  unfolding show_disk_list_def by (rule wvia_trans [OF wvia_trans [OF wvia_clean_line wvia_cprint] wvia_show_sepator])

lemma wvia_status_line [simp]: "wvia P ok s (status_line n x t s)"
  unfolding status_line_def by (rule wvia_trans [OF wvia_clean_line wvia_cprint])

lemma wvia_show_counts [simp]: "wvia P ok s (show_counts s)"
  by (simp add: show_counts_def)

lemma wvia_show_mode [simp]: "wvia P ok s (show_mode s)"
  unfolding show_mode_def Let_def
  by (rule wvia_trans [OF wvia_trans [OF wvia_trans [OF wvia_cprint wvia_show_sepator] wvia_cprint] wvia_show_sepator])

lemma wvia_show_disk_status [simp]: "wvia P ok s (show_disk_status d s)"
  unfolding show_disk_status_def Let_def
  by (cases "has_ext d = 0")
     (simp_all only: if_True if_False refl not_True_eq_False not_False_eq_True simp_thms,
      (rule wvia_refl | rule wvia_trans [OF _ wvia_status_line] | rule wvia_trans [OF _ wvia_clean_line])+)

subsection \<open>One drive\<close>

definition disk_ok :: "disk_param \<Rightarrow> bool" where
  "disk_ok d \<longleftrightarrow> 0x80 \<le> disk_id d \<and> last_cylinders d \<le> 1023 \<and> last_sectors_per_track d \<le> 63 \<and>
     (has_ext d = 0 \<and> ext d = zero_ext \<or> has_ext d = 1)"

lemma unpack_bounds: "get_chs_from_pack v = (c, sec) \<Longrightarrow> 0 \<le> c \<and> c \<le> 1023 \<and> 0 \<le> sec \<and> sec \<le> 63"
proof -
  assume v: "get_chs_from_pack v = (c, sec)"
  have b: "uint v AND 0xFF00 \<le> 0xFF00" "uint v AND 0xC0 \<le> 0xC0" "uint v AND 63 \<le> 63"
    by (simp_all add: AND_upper2)
  have "drop_bit 8 (uint v AND 0xFF00) \<le> drop_bit 8 0xFF00"
    unfolding drop_bit_eq_div by (rule zdiv_mono1 [OF b(1)]) simp
  then have "drop_bit 8 (uint v AND 0xFF00) < 2 ^ 10" by simp
  moreover have "push_bit 2 (uint v AND 0xC0) < 2 ^ 10" using b(2) by (simp add: push_bit_eq_mult)
  ultimately have "drop_bit 8 (uint v AND 0xFF00) OR push_bit 2 (uint v AND 0xC0) < 2 ^ 10"
    by (intro OR_upper) simp_all
  then show ?thesis using v b(3) by (auto simp: get_chs_from_pack_def)
qed

text \<open>A failing call of the BIOS leaves a status other than 0 in \<^verbatim>\<open>ah\<close>.\<close>

definition error_status :: "'e platform \<Rightarrow> bool" where
  "error_status P \<longleftrightarrow> (\<forall>a e. fst (p_bios P a e) \<longrightarrow> r_ah (reg (fst (snd (p_bios P a e)))) \<noteq> 0)"

lemma int13_1_status: "error_status P \<Longrightarrow> int13_1 P s = (ret, t) \<Longrightarrow> ret \<noteq> 0 \<Longrightarrow> r_ah (reg (ra t)) \<noteq> 0"
  by (auto simp: error_status_def int13_1_def int13_call_def query_pcbios_def Let_def split: prod.splits if_splits)
    (metis fst_conv snd_conv)+

lemma get_disk_param_result:
  assumes "get_disk_param P drv s = ((ret, q), t)" "error_status P"
  shows "ret = 0 \<Longrightarrow> 0x80 \<le> drv \<Longrightarrow> disk_ok q \<and> disk_id q = drv \<and> has_ext q = 0"
proof -
  assume r: "ret = 0" and d: "0x80 \<le> drv"
  obtain v c sec where q: "q = zero_param\<lparr>disk_id := drv, drives := r_dl (reg (ra t)), last_heads := r_dh (reg (ra t)),
       last_sectors_per_track := word_of_int sec, last_cylinders := word_of_int c, drive_type := r_bl (reg (ra t)),
       has_ext := 0, ext := zero_ext\<rparr>" and v: "get_chs_from_pack v = (c, sec)"
    using assms(1) r by (auto simp: get_disk_param_def Let_def uint_0_iff dest: int13_1_status [OF assms(2)] split: prod.splits if_splits)
  have "(word_of_int c :: u16) \<le> 1023" "(word_of_int sec :: u8) \<le> 63"
    using unpack_bounds [OF v] by (simp_all add: word_le_def uint_word_of_int_eq take_bit_int_eq_self)
  then show ?thesis using q d by (simp add: disk_ok_def zero_param_def)
qed

lemma enum_one_ok:
  assumes "index < length (disk_list s)" "0x80 \<le> drv"
  obtains found q t where "enum_one P drv index s = Some (if found then index + 1 else index, t)"
    "wvia P read_only (s\<lparr>disk_list := (disk_list s)[index := q]\<rparr>) t"
    "found \<and> error_status P \<longrightarrow> disk_ok q \<and> disk_id q = drv"
proof -
  obtain r q t where g: "get_disk_param P drv s = ((r, q), t)" by (metis prod.collapse)
  have vt: "wvia P read_only s t" using via_get_disk_param [of P s drv] g by (simp add: wvia_via)
  let ?l = "\<lambda>q. (disk_list s)[index := q]"
  have lt: "disk_list t = disk_list s" by (rule wvia_frame(4) [OF vt])
  have v1: "wvia P read_only (s\<lparr>disk_list := ?l q\<rparr>) (t\<lparr>disk_list := ?l q\<rparr>)" by (rule wvia_disk_list [OF vt])
  show thesis
  proof (cases "r = 0")
    case False
    then show ?thesis using assms(1) v1 by (intro that [of False]) (simp_all add: enum_one_def g lt Let_def)
  next
    case True
    define u where "u = show_disk_list_enum drv (t\<lparr>disk_list := ?l q\<rparr>)"
    obtain r2 e2 w2 s2 where c: "check_extensions_present P drv 0 0 u = ((r2, e2, w2), s2)" by (metis prod.collapse)
    have v2: "wvia P read_only (s\<lparr>disk_list := ?l q\<rparr>) s2"
      using wvia_trans [OF v1 wvia_trans [OF wvia_show_disk_list_enum wvia_via [OF via_check_extensions_present [of P u drv 0 0, unfolded u_def]]]]
      by (simp add: c flip: u_def)
    have l2: "disk_list s2 = ?l q" using wvia_frame(4) [OF v2] by simp
    have q: "error_status P \<longrightarrow> disk_ok q \<and> disk_id q = drv" using get_disk_param_result [OF g _ True assms(2)] by simp
    show ?thesis
    proof (cases "r2 = 0 \<and> e2 AND 1 \<noteq> 0")
      case False
      then show ?thesis using True assms(1) v2 q c
        by (intro that [of True s2 q]) (auto simp: enum_one_def g lt Let_def simp flip: u_def)
    next
      case p: True
      obtain r3 q3 s3 where x: "get_disk_param_ext P q s2 = ((r3, q3), s3)" by (metis prod.collapse)
      have "wvia P read_only s2 s3" using via_get_disk_param_ext [of P s2 q] x by (simp add: wvia_via)
      from wvia_disk_list [OF wvia_trans [OF v2 this], of "?l q3"]
      have v3: "wvia P read_only (s\<lparr>disk_list := ?l q3\<rparr>) (s3\<lparr>disk_list := ?l q3\<rparr>)" by simp
      have l3: "disk_list s3 = ?l q" using \<open>wvia P read_only s2 s3\<close> l2 wvia_frame(4) by metis
      have "error_status P \<longrightarrow> disk_ok q3 \<and> disk_id q3 = drv"
        using q x by (auto simp: get_disk_param_ext_def disk_ok_def split: prod.splits if_splits)
      then show ?thesis using p True assms(1) v3 c x
        by (intro that [of True]) (simp_all add: enum_one_def g lt Let_def l2 l3 flip: u_def)
    qed
  qed
qed


subsection \<open>All drives\<close>

text \<open>The first \<open>n\<close> entries of a table are good disks whose numbers come from \<open>drvs\<close>, in that order.\<close>

definition table_ok :: "u8 list \<Rightarrow> nat \<Rightarrow> disk_param list \<Rightarrow> bool" where
  "table_ok drvs n l \<longleftrightarrow> subseq (map disk_id (take n l)) drvs \<and> (\<forall>d \<in> set (take n l). disk_ok d)"

lemma take_extend: "i < length l \<Longrightarrow> take (Suc i) (l[i := q]) = take i l @ [q]"
  by (simp add: take_Suc_conv_app_nth)

lemma table_ok_extend:
  assumes "table_ok drvs i l" "i < length l" "disk_ok q"
  shows "table_ok (drvs @ [disk_id q]) (Suc i) (l[i := q])"
  using assms by (auto simp: table_ok_def take_extend intro: list_emb_append_mono)

lemma enum_loop_ok:
  assumes "\<forall>d \<in> set drvs. 0x80 \<le> d"
  shows "index + length drvs \<le> length (disk_list s) \<Longrightarrow> (error_status P \<longrightarrow> table_ok old index (disk_list s)) \<Longrightarrow>
    \<exists>n t l. enum_loop P drvs index s = Some (n, t) \<and> n \<le> index + length drvs \<and>
      wvia P read_only (s\<lparr>disk_list := l\<rparr>) t \<and> length l = length (disk_list s) \<and>
      (error_status P \<longrightarrow> table_ok (old @ drvs) n l)"
  using assms
proof (induction drvs arbitrary: index s old)
  case Nil
  then show ?case by (intro exI [of _ index] exI [of _ s] exI [of _ "disk_list s"]) simp
next
  case (Cons drv drvs)
  obtain found q u where u: "enum_one P drv index s = Some (if found then index + 1 else index, u)"
    "wvia P read_only (s\<lparr>disk_list := (disk_list s)[index := q]\<rparr>) u"
    "found \<and> error_status P \<longrightarrow> disk_ok q \<and> disk_id q = drv"
    by (rule enum_one_ok [of index s drv P]) (use Cons.prems in simp_all)
  define i where "i = (if found then index + 1 else index)"
  have l: "disk_list u = (disk_list s)[index := q]" using wvia_frame(4) [OF u(2)] by simp
  have ok: "error_status P \<longrightarrow> table_ok (old @ [drv]) i (disk_list u)"
    using Cons.prems(1,2) u(3) table_ok_extend [of old index "disk_list s" q]
    by (auto simp: i_def l table_ok_def intro: list_emb_append2)
  have "\<exists>n t l. enum_loop P drvs i u = Some (n, t) \<and> n \<le> i + length drvs \<and>
      wvia P read_only (u\<lparr>disk_list := l\<rparr>) t \<and> length l = length (disk_list u) \<and>
      (error_status P \<longrightarrow> table_ok ((old @ [drv]) @ drvs) n l)"
    by (rule Cons.IH [OF _ ok]) (use Cons.prems l in \<open>auto simp: i_def\<close>)
  then obtain n t l' where t: "enum_loop P drvs i u = Some (n, t)" "n \<le> i + length drvs"
    "wvia P read_only (u\<lparr>disk_list := l'\<rparr>) t" "length l' = length (disk_list u)"
    "error_status P \<longrightarrow> table_ok ((old @ [drv]) @ drvs) n l'"
    by blast
  have "wvia P read_only (s\<lparr>disk_list := l'\<rparr>) t"
    using wvia_trans [OF wvia_disk_list [OF u(2), of l'] t(3)] by simp
  then show ?case
    using u(1) t l by (intro exI [of _ n] exI [of _ t] exI [of _ l']) (auto simp: i_def split: if_splits)
qed

lemma all_drives_ge: "d \<in> set all_drives \<Longrightarrow> 0x80 \<le> d"
  by (auto simp: all_drives_def word_le_nat_alt)

lemma enum_disk_ok:
  assumes "length (disk_list s) = DISK_LIST_LEN"
  obtains n l t where "enum_disk P s = Some (t\<lparr>total_disk_cnt := of_nat n\<rparr>)" "n \<le> DISK_LIST_LEN"
    "wvia P read_only (s\<lparr>disk_list := l\<rparr>) t" "length l = DISK_LIST_LEN" "error_status P \<longrightarrow> table_ok all_drives n l"
    "enum_loop P all_drives 0 s = Some (n, t)"
proof -
  have len: "length all_drives = 128" by (simp add: all_drives_def)
  have "\<exists>n t l. enum_loop P all_drives 0 s = Some (n, t) \<and> n \<le> 0 + length all_drives \<and>
      wvia P read_only (s\<lparr>disk_list := l\<rparr>) t \<and> length l = length (disk_list s) \<and>
      (error_status P \<longrightarrow> table_ok ([] @ all_drives) n l)"
    by (rule enum_loop_ok) (use assms all_drives_ge in \<open>auto simp: len DISK_LIST_LEN_def table_ok_def\<close>)
  then obtain n t l where "enum_loop P all_drives 0 s = Some (n, t)" "n \<le> 128"
      "wvia P read_only (s\<lparr>disk_list := l\<rparr>) t" "length l = length (disk_list s)" "error_status P \<longrightarrow> table_ok all_drives n l"
    unfolding len by auto
  then show thesis using assms by (intro that [of n t l]) (simp_all add: enum_disk_def DISK_LIST_LEN_def)
qed

text \<open>
  C10. The enumeration never stores behind the table of 128 disks, whatever the BIOS answers,
  and it only issues requests that read. When a failing BIOS call leaves a non-zero
  status, the listed disks have increasing drive numbers from \<^verbatim>\<open>0x80\<close> on, at most 1024
  cylinders and 63 sectors per track, and extended parameters only when flagged.
\<close>

theorem enum_disk_table:
  assumes "length (disk_list s) = DISK_LIST_LEN"
  shows "\<exists>t. enum_disk P s = Some t \<and> unat (total_disk_cnt t) \<le> DISK_LIST_LEN \<and> length (disk_list t) = DISK_LIST_LEN \<and>
    reaches P read_only (dev s) (dev t) \<and>
    (error_status P \<longrightarrow> table_ok all_drives (unat (total_disk_cnt t)) (disk_list t))"
proof -
  obtain n l t where t: "enum_disk P s = Some (t\<lparr>total_disk_cnt := of_nat n\<rparr>)" "n \<le> DISK_LIST_LEN"
    "wvia P read_only (s\<lparr>disk_list := l\<rparr>) t" "length l = DISK_LIST_LEN" "error_status P \<longrightarrow> table_ok all_drives n l"
    by (rule enum_disk_ok [OF assms])
  have "unat (of_nat n :: u32) = n" using t(2) by (simp add: DISK_LIST_LEN_def unat_of_nat take_bit_nat_eq_self)
  then show ?thesis using t wvia_frame(4,9) [OF t(3)] by simp
qed

section \<open>Wiping the listed disks\<close>

lemma count_result_sel [simp]:
  "opt (count_result r s) = opt s" "tv (count_result r s) = tv s" "ptrs (count_result r s) = ptrs s"
  "ra (count_result r s) = ra s" "dev (count_result r s) = dev s" "disk_list (count_result r s) = disk_list s"
  "total_disk_cnt (count_result r s) = total_disk_cnt s"
  by (simp_all add: count_result_def)

text \<open>The number of disks the counters stand for.\<close>

definition counted :: "('e, 'z) world_scheme \<Rightarrow> nat" where
  "counted s = unat (done_disk_cnt s) + unat (error_disk_cnt s) + unat (skiped_disk_cnt s)"

lemma unat_inc: "unat (x :: u32) < 2 ^ 32 - 1 \<Longrightarrow> unat (x + 1) = unat x + 1"
  by (simp add: unat_word_ariths)

lemma counted_count_result: "counted s < 2 ^ 32 - 1 \<Longrightarrow> counted (count_result r s) = counted s + 1"
  by (simp add: counted_def count_result_def unat_inc)

text \<open>The invariants of a turn of the loop.\<close>

definition steady :: "('e, 'z) world_scheme \<Rightarrow> ('e, 'z) world_scheme \<Rightarrow> bool" where
  "steady s t \<longleftrightarrow> opt t = opt s \<and> tv t = tv s \<and> ptrs t = ptrs s \<and> disk_list t = disk_list s \<and>
     total_disk_cnt t = total_disk_cnt s"

lemma steady_wvia: "wvia P ok s t \<Longrightarrow> steady s t"
  by (simp add: steady_def wvia_frame)

lemma steady_trans: "steady s t \<Longrightarrow> steady t u \<Longrightarrow> steady s u"
  by (simp add: steady_def)

lemma steady_count [simp]: "steady s (count_result r s)"
  by (simp add: steady_def)

lemma wipe_one_ok:
  fixes s :: "('e, 'z) world_scheme"
  assumes "extclock (tv s) \<noteq> 0"
  obtains ret s1 u t where "wipe_one P i s = Some (ret, t)" "wvia P read_only s s1"
    "wipe_disk P (disk_list s ! i) s1 = Some (ret, u)" "wvia P read_only (count_result ret u) t"
    "steady s t" "counted s < 2 ^ 32 - 1 \<longrightarrow> counted t = counted s + 1"
proof -
  define s1 where "s1 = show_disk_status (disk_list s ! i) (show_mode s)"
  have v1: "wvia P read_only s s1" unfolding s1_def by (rule wvia_trans [OF wvia_show_mode wvia_show_disk_status])
  have l: "disk_list (show_mode s) = disk_list s" "disk_list s1 = disk_list s"
    using wvia_frame(4) [OF wvia_show_mode [of P read_only s]] wvia_frame(4) [OF v1] by simp_all
  obtain ret u where w: "wipe_disk P (disk_list s ! i) s1 = Some (ret, u)"
    using wipe_disk_total [of s1 P "disk_list s ! i"] assms wvia_frame(2) [OF v1] by auto
  have v2: "wvia P (\<lambda>_. True) s1 u" by (rule wvia_wipe_disk [OF w]) simp_all
  define t where "t = show_counts (count_result ret u)"
  have v3: "wvia P read_only (count_result ret u) t" by (simp add: t_def)
  have e: "wipe_one P i s = Some (ret, t)"
    using w by (simp add: wipe_one_def Let_def l t_def flip: s1_def)
  have st: "steady s t"
    by (rule steady_trans [OF steady_wvia [OF v1] steady_trans [OF steady_wvia [OF v2] steady_trans [OF steady_count steady_wvia [OF v3]]]])
  have "counted t = counted (count_result ret u)" "counted u = counted s1" "counted s1 = counted s"
    using wvia_frame(6-8) [OF v3] wvia_frame(6-8) [OF v2] wvia_frame(6-8) [OF v1] by (simp_all add: counted_def)
  then have "counted s < 2 ^ 32 - 1 \<longrightarrow> counted t = counted s + 1" by (simp add: counted_count_result)
  from that [OF e v1 w v3 st this] show thesis .
qed

lemma wipe_list_ok:
  "extclock (tv s) \<noteq> 0 \<Longrightarrow>
     \<exists>t. wipe_list P is s = Some t \<and> steady s t \<and> (counted s + length is < 2 ^ 32 \<longrightarrow> counted t = counted s + length is)"
proof (induction "is" arbitrary: s)
  case Nil
  then show ?case by (simp add: steady_def)
next
  case (Cons i "is")
  obtain ret s1 u t where t: "wipe_one P i s = Some (ret, t)" "steady s t" "counted s < 2 ^ 32 - 1 \<longrightarrow> counted t = counted s + 1"
    by (rule wipe_one_ok [OF Cons.prems(1)])
  have "extclock (tv t) \<noteq> 0" using Cons.prems t(2) by (simp add: steady_def)
  from Cons.IH [OF this] show ?case using t steady_trans [OF t(2)] by auto
qed

section \<open>Every disk is erased or untouched\<close>

text \<open>From \<open>old\<close> to \<open>new\<close>, a disk that was reported as wiped is zero, one reported as skipped is as before.\<close>

definition settled :: "disks \<Rightarrow> disks \<Rightarrow> disk_param \<Rightarrow> int \<Rightarrow> bool" where
  "settled old new d ret \<longleftrightarrow>
     ret = 0 \<and> (\<forall>k. new (disk_id d) k = (if k < unat (ext_nsectors (ext d)) then replicate 512 0 else old (disk_id d) k)) \<or>
     ret = 1 \<and> new (disk_id d) = old (disk_id d)"

definition good_disk :: "(u8 \<Rightarrow> nat) \<Rightarrow> disk_param \<Rightarrow> bool" where
  "good_disk cap d \<longleftrightarrow> lba_disk d \<and> cap (disk_id d) = unat (ext_nsectors (ext d)) \<and>
     0 < unat (ext_nsectors (ext d)) \<and> unat (ext_nsectors (ext d)) < 2 ^ 55"

definition erasing :: "nat \<Rightarrow> ('e, 'z) world_scheme \<Rightarrow> bool" where
  "erasing B s \<longleftrightarrow> ready B s \<and> erase_mode (opt s) \<and> opt_force_chs (opt s) = 0 \<and> opt_mbr (opt s) = 0 \<and>
     extclock (tv s) \<noteq> 0"

lemma erasing_wvia: "erasing B s \<Longrightarrow> wvia P ok s t \<Longrightarrow> rbuf_fixed P \<Longrightarrow> erasing B t"
  using ready_wvia [of B s P ok t] by (simp add: erasing_def wvia_frame)

lemma erasing_count: "erasing B (count_result r s) \<longleftrightarrow> erasing B s"
  by (simp add: erasing_def ready_def)

lemma wipe_disk_outcome:
  assumes m: "lba_machine P D G B cap" "heap_ok P" and e: "erasing B s" and d: "good_disk cap d"
    and w: "wipe_disk P d s = Some (ret, t)"
  shows "settled (D (dev s)) (D (dev t)) d ret" "drv \<noteq> disk_id d \<Longrightarrow> D (dev t) drv = D (dev s) drv"
proof -
  have im: "disk_image P D G B" using m(1) by (simp add: lba_machine_def)
  have *: "ret = 1 \<and> D (dev t) = D (dev s) \<or>
      ret = 0 \<and> zeroed (D (dev s)) (D (dev t)) (disk_id d) 0 (unat (ext_nsectors (ext d)))"
  proof (cases "fst (contain_fat_label P (opt s) d (opt_skip (opt s)) s) = 0")
    case True
    then show ?thesis
      using wipe_disk_zero [OF m, of s d] e d w by (auto simp: erasing_def good_disk_def)
  next
    case False
    obtain r u where c: "contain_fat_label P (opt s) d (opt_skip (opt s)) s = (r, u)" by (metis prod.collapse)
    have "is_skiped_disk P d s = (1, u) \<or> is_skiped_disk P d s = (1, s)"
      using False c by (auto simp: is_skiped_disk_def c_bool_def)
    then have "ret = 1" "t = u \<or> t = s" using w by (auto simp: wipe_disk_def)
    moreover have "D (dev u) = D (dev s)"
      using disk_image_read_only [OF im via_dev [OF via_contain_fat_label [of P s "opt s" d "opt_skip (opt s)"]]] c by simp
    ultimately show ?thesis by auto
  qed
  then show "settled (D (dev s)) (D (dev t)) d ret" by (auto simp: settled_def zeroed_def)
  show "D (dev t) drv = D (dev s) drv" if "drv \<noteq> disk_id d" using * that by (auto simp: zeroed_def)
qed

lemma settled_extend:
  "settled x y d r \<Longrightarrow> z (disk_id d) = y (disk_id d) \<Longrightarrow> settled x z d r"
  "settled y z d r \<Longrightarrow> y (disk_id d) = x (disk_id d) \<Longrightarrow> settled x z d r"
  by (auto simp: settled_def)

lemma wipe_list_settles:
  assumes m: "lba_machine P D G B cap" "heap_ok P"
  shows "erasing B s \<Longrightarrow> \<forall>i \<in> set is. good_disk cap (disk_list s ! i) \<Longrightarrow> distinct (map (\<lambda>i. disk_id (disk_list s ! i)) is) \<Longrightarrow>
    \<exists>rets t. wipe_list P is s = Some t \<and> list_all2 (\<lambda>i. settled (D (dev s)) (D (dev t)) (disk_list s ! i)) is rets \<and>
      (\<forall>drv. drv \<notin> (\<lambda>i. disk_id (disk_list s ! i)) ` set is \<longrightarrow> D (dev t) drv = D (dev s) drv) \<and>
      done_disk_cnt t = done_disk_cnt s + of_nat (count_list rets 0) \<and>
      skiped_disk_cnt t = skiped_disk_cnt s + of_nat (count_list rets 1) \<and> error_disk_cnt t = error_disk_cnt s"
proof (induction "is" arbitrary: s)
  case Nil
  then show ?case by simp
next
  case (Cons i "is")
  have im: "disk_image P D G B" and rb: "rbuf_fixed P" using m(1) by (simp_all add: lba_machine_def disk_image_def)
  have clk: "extclock (tv s) \<noteq> 0" using Cons.prems(1) by (simp add: erasing_def)
  let ?d = "disk_list s ! i"
  obtain ret s1 u t where t: "wipe_one P i s = Some (ret, t)" "wvia P read_only s s1"
    "wipe_disk P ?d s1 = Some (ret, u)" "wvia P read_only (count_result ret u) t" "steady s t"
    by (rule wipe_one_ok [OF clk])
  have D1: "D (dev s1) = D (dev s)" by (rule disk_image_read_only [OF im wvia_frame(9) [OF t(2)]])
  have Dt: "D (dev t) = D (dev u)" using disk_image_read_only [OF im wvia_frame(9) [OF t(4)]] by simp
  have e1: "erasing B s1" by (rule erasing_wvia [OF Cons.prems(1) t(2) rb])
  have v2: "wvia P (\<lambda>_. True) s1 u" by (rule wvia_wipe_disk [OF t(3)]) simp_all
  have et: "erasing B t"
    by (rule erasing_wvia [OF _ t(4) rb]) (simp add: erasing_count erasing_wvia [OF e1 v2 rb])
  note o = wipe_disk_outcome [OF m e1 _ t(3)]
  have st: "settled (D (dev s)) (D (dev t)) ?d ret" using o(1) Cons.prems(2) by (simp add: D1 Dt)
  have other: "D (dev t) drv = D (dev s) drv" if "drv \<noteq> disk_id ?d" for drv using o(2) that Cons.prems(2) by (simp add: D1 Dt)
  have l: "disk_list t = disk_list s" using t(5) by (simp add: steady_def)
  obtain rets w where w: "wipe_list P is t = Some w" "list_all2 (\<lambda>i. settled (D (dev t)) (D (dev w)) (disk_list s ! i)) is rets"
    "\<forall>drv. drv \<notin> (\<lambda>i. disk_id (disk_list s ! i)) ` set is \<longrightarrow> D (dev w) drv = D (dev t) drv"
    "done_disk_cnt w = done_disk_cnt t + of_nat (count_list rets 0)"
    "skiped_disk_cnt w = skiped_disk_cnt t + of_nat (count_list rets 1)" "error_disk_cnt w = error_disk_cnt t"
    using Cons.IH [OF et] Cons.prems(2,3) unfolding l by auto
  have ne: "disk_id (disk_list s ! j) \<noteq> disk_id ?d" if "j \<in> set is" for j using Cons.prems(3) that by (simp, metis imageI)
  have first: "settled (D (dev s)) (D (dev w)) ?d ret"
    by (rule settled_extend(1) [OF st]) (use w(3) Cons.prems(3) in simp)
  have rest: "list_all2 (\<lambda>i. settled (D (dev s)) (D (dev w)) (disk_list s ! i)) is rets"
    by (rule list.rel_mono_strong [OF w(2)]) (use ne other settled_extend(2) in blast)
  have cnt: "done_disk_cnt t = done_disk_cnt (count_result ret s)" "skiped_disk_cnt t = skiped_disk_cnt (count_result ret s)"
     "error_disk_cnt t = error_disk_cnt (count_result ret s)"
    using wvia_frame(6-8) [OF t(4)] wvia_frame(6-8) [OF v2] wvia_frame(6-8) [OF t(2)] by (simp_all add: count_result_def)
  have r01: "ret = 0 \<or> ret = 1" using first by (auto simp: settled_def)
  show ?case
    by (rule exI [of _ "ret # rets"], rule exI [of _ w])
       (use t(1) w first rest other r01 cnt in \<open>auto simp: count_result_def algebra_simps\<close>)
qed

end
