(* ===== verification/Whole_Run.thy ===== *)
theory Whole_Run
  imports Main_Program
begin

text \<open>
  Theorems on \<^verbatim>\<open>do_main\<close> as a whole: it gets to its end, its counters add up, test mode
  writes nothing, and every listed disk is erased or untouched. The theory ends with a
  sample machine with one disk, the instance of the witnesses.
\<close>

section \<open>Relocation and set-up\<close>

definition relocated :: "boot_image \<Rightarrow> real_ptrs" where
  "relocated img =
     (let offset = real_code_begin img - REAL_CODE_ADDR; l = link_ptrs img
      in \<lparr>p_real_buffer = p_real_buffer l - offset, p_real_reg = p_real_reg l - offset,
          p_real_dap = p_real_dap l - offset, p_real_disk_param_ext = p_real_disk_param_ext l - offset\<rparr>)"

lemma relocate_real_relocated: "relocate_real (real_code_begin img) (link_ptrs img) s = s\<lparr>ptrs := relocated img\<rparr>"
  by (simp add: relocate_real_def relocated_def Let_def)

lemma only_mem: "\<exists>m. show_header s = s\<lparr>mem := m\<rparr>" "\<exists>m. show_cpu c l1 l2 l3 sp s = s\<lparr>mem := m\<rparr>" "\<exists>m. display_init s = s\<lparr>mem := m\<rparr>"
  unfolding show_header_def show_cpu_def show_sepator_def cprint_def Let_def display_init_def
  by (simp_all, metis+)

text \<open>What the set-up leaves alone.\<close>

definition same_lists :: "('e, 'z) world_scheme \<Rightarrow> ('e, 'z) world_scheme \<Rightarrow> bool" where
  "same_lists s t \<longleftrightarrow> opt t = opt s \<and> disk_list t = disk_list s \<and> ra t = ra s \<and> total_disk_cnt t = total_disk_cnt s \<and>
     done_disk_cnt t = done_disk_cnt s \<and> error_disk_cnt t = error_disk_cnt s \<and> skiped_disk_cnt t = skiped_disk_cnt s"

lemma do_gettimeofday_clock: "do_gettimeofday P s = Some r \<Longrightarrow> extclock (tv s) \<noteq> 0"
  by (auto simp: do_gettimeofday_def get_timer_offset_usec_def rdtsc_def udivdi3_def udivmoddi4_def split: prod.splits bind_splits if_splits)

lemma set_up_ok:
  assumes "set_up P img s = Some t"
  shows "same_lists s t" "reaches P (\<lambda>_. False) (dev s) (dev t)" "ptrs t = relocated img" "extclock (tv t) \<noteq> 0"
proof -
  obtain u now w where u: "timer_init P s = Some u"
    and g: "do_gettimeofday P (display_init (u\<lparr>cr0 := set_cache (cpu_id (tv u)) 1 (cr0 u), ptrs := relocated img\<rparr>)) = Some (now, w)"
    and t: "t = show_cpu (cpu_type_str (tv (show_header (w\<lparr>rand_next := srand (fst now)\<rparr>))))
      (l1_cache (tv (show_header (w\<lparr>rand_next := srand (fst now)\<rparr>)))) (l2_cache (tv (show_header (w\<lparr>rand_next := srand (fst now)\<rparr>))))
      (l3_cache (tv (show_header (w\<lparr>rand_next := srand (fst now)\<rparr>)))) (speed (tv (show_header (w\<lparr>rand_next := srand (fst now)\<rparr>))))
      (show_header (w\<lparr>rand_next := srand (fst now)\<rparr>))"
    using assms by (auto simp: set_up_def Let_def relocate_real_relocated split: bind_splits)
  obtain m where m: "display_init (u\<lparr>cr0 := set_cache (cpu_id (tv u)) 1 (cr0 u), ptrs := relocated img\<rparr>) =
      u\<lparr>cr0 := set_cache (cpu_id (tv u)) 1 (cr0 u), ptrs := relocated img, mem := m\<rparr>"
    using only_mem(3) by blast
  obtain m' where h: "show_header (w\<lparr>rand_next := srand (fst now)\<rparr>) = w\<lparr>rand_next := srand (fst now), mem := m'\<rparr>"
    using only_mem(1) by blast
  obtain m'' where c: "t = w\<lparr>rand_next := srand (fst now), mem := m', mem := m''\<rparr>"
    using only_mem(2) t unfolding h by metis
  obtain e v where e: "u = s\<lparr>dev := e, tv := v\<rparr>" "reaches P (\<lambda>_. False) (dev s) e"
    using tvia_timer_init [OF u] by (auto simp: tvia_def)
  obtain f where f: "w = u\<lparr>cr0 := set_cache (cpu_id (tv u)) 1 (cr0 u), ptrs := relocated img, mem := m, dev := f\<rparr>" "reaches P (\<lambda>_. False) (dev u) f"
    using dvia_do_gettimeofday [OF g] unfolding m dvia_def by auto
  show "same_lists s t" "ptrs t = relocated img" by (simp_all add: c f(1) e(1) same_lists_def)
  show "reaches P (\<lambda>_. False) (dev s) (dev t)" using reaches_trans [OF f(2)] e by (simp add: c f(1))
  have "extclock (tv u) \<noteq> 0"
    using do_gettimeofday_clock [OF g] by (simp add: m)
  then show "extclock (tv t) \<noteq> 0" by (simp add: c f(1))
qed

section \<open>The main function\<close>

lemma wvia_total: "wvia P ok s t \<Longrightarrow> wvia P ok (s\<lparr>total_disk_cnt := n\<rparr>) (t\<lparr>total_disk_cnt := n\<rparr>)"
  unfolding wvia_def
proof (elim exE conjE)
  fix a e m r assume *: "t = s\<lparr>ra := a, dev := e, mem := m, rand_next := r\<rparr>" "reaches P ok (dev s) e"
    "rbuf_fixed P \<longrightarrow> length (rbuf a) = length (rbuf (ra s))"
  show "\<exists>a' e' m' r'. t\<lparr>total_disk_cnt := n\<rparr> = s\<lparr>total_disk_cnt := n, ra := a', dev := e', mem := m', rand_next := r'\<rparr> \<and>
      reaches P ok (dev (s\<lparr>total_disk_cnt := n\<rparr>)) e' \<and> (rbuf_fixed P \<longrightarrow> length (rbuf a') = length (rbuf (ra (s\<lparr>total_disk_cnt := n\<rparr>))))"
    by (rule exI [of _ a], rule exI [of _ e], rule exI [of _ m], rule exI [of _ r]) (use * in simp)
qed

lemma dvia_reboot [simp]: "dvia P s (reboot P s)"
  by (simp add: reboot_def)

lemma wvia_dvia: "dvia P s t \<Longrightarrow> wvia P ok s t"
  unfolding dvia_def by (auto intro!: wvia_via via_dev_update elim: reaches_mono)

lemma reboot_opt: "reboot P (u\<lparr>opt := p\<rparr>) = (reboot P u)\<lparr>opt := p\<rparr>"
  by (rule world.equality) (simp_all add: reboot_def outb_def)

text \<open>The stages of a run that gets to the end.\<close>

lemma do_main_stages:
  assumes "do_main P v img s = Inr t"
  obtains r p s1 s2 s3 where "parse_cmdline (cmd_line_ptr img) = Inr (r, p)" "dvia P s s1"
    "set_up P img (s1\<lparr>opt := p\<rparr>) = Some s2" "run_disks P s2 = Some s3" "t = reboot P s3"
proof -
  define s0 where "s0 = serial_echo_init P v (outb P 0x8 0x3f2 s)"
  have v0: "dvia P s s0" unfolding s0_def by (rule dvia_trans [OF dvia_outb dvia_serial_echo_init])
  obtain msg where msg: "cmdline_text (cmd_line_ptr img) = Inr msg"
    using assms by (cases "cmdline_text (cmd_line_ptr img)") (auto simp: do_main_def Let_def)
  obtain r p where p: "parse_cmdline (cmd_line_ptr img) = Inr (r, p)"
    using assms msg by (cases "parse_cmdline (cmd_line_ptr img)") (auto simp: do_main_def Let_def)
  have q: "do {
        s \<leftarrow> fprintf_stderr P v msg s0;
        s \<leftarrow> set_up P img (if r \<noteq> 0 then reboot P (s\<lparr>opt := p\<rparr>) else s\<lparr>opt := p\<rparr>);
        s \<leftarrow> run_disks P s;
        Some (reboot P s)
      } = Some t"
    using assms by (auto simp: do_main_def Let_def msg p simp flip: s0_def split: option.splits)
  then obtain u s2 s3 where u: "fprintf_stderr P v msg s0 = Some u"
    "set_up P img (if r \<noteq> 0 then reboot P (u\<lparr>opt := p\<rparr>) else u\<lparr>opt := p\<rparr>) = Some s2" "run_disks P s2 = Some s3" "t = reboot P s3"
    by (auto split: bind_splits)
  define s1 where "s1 = (if r \<noteq> 0 then reboot P u else u)"
  have "dvia P s s1"
    using dvia_trans [OF v0 dvia_fprintf [OF u(1)]] dvia_trans [OF _ dvia_reboot] by (auto simp: s1_def)
  moreover have "set_up P img (s1\<lparr>opt := p\<rparr>) = Some s2" using u(2) by (auto simp: s1_def reboot_opt split: if_splits)
  ultimately show thesis using that [OF p _ _ u(3,4)] by blast
qed


lemma run_disks_stages:
  assumes "length (disk_list s) = DISK_LIST_LEN" "extclock (tv s) \<noteq> 0"
  obtains n l u where "n \<le> DISK_LIST_LEN" "length l = DISK_LIST_LEN" "error_status P \<longrightarrow> table_ok all_drives n l"
    "wvia P read_only (s\<lparr>disk_list := l, total_disk_cnt := of_nat n\<rparr>) u" "run_disks P s = wipe_list P [0..<n] u"
    "\<exists>e. enum_loop P all_drives 0 s = Some (n, e) \<and> disk_list e = l"
proof -
  obtain n l t where t: "enum_disk P s = Some (t\<lparr>total_disk_cnt := of_nat n\<rparr>)" "n \<le> DISK_LIST_LEN"
    "wvia P read_only (s\<lparr>disk_list := l\<rparr>) t" "length l = DISK_LIST_LEN" "error_status P \<longrightarrow> table_ok all_drives n l"
    "enum_loop P all_drives 0 s = Some (n, t)"
    by (rule enum_disk_ok [OF assms(1)])
  have v: "wvia P read_only (s\<lparr>disk_list := l, total_disk_cnt := of_nat n\<rparr>) (t\<lparr>total_disk_cnt := of_nat n\<rparr>)"
    by (rule wvia_total [OF t(3)])
  have u: "unat (total_disk_cnt (show_counts (t\<lparr>total_disk_cnt := of_nat n\<rparr>))) = n"
    using t(2) wvia_frame(5) [OF wvia_show_counts [of P read_only "t\<lparr>total_disk_cnt := of_nat n\<rparr>"]]
    by (simp add: DISK_LIST_LEN_def unat_of_nat take_bit_nat_eq_self)
  show thesis
    by (rule that [OF t(2,4,5) wvia_trans [OF v wvia_show_counts]])
       (use wvia_frame(4) [OF t(3)] t(6) in \<open>simp_all add: run_disks_def t(1) u Let_def\<close>)
qed

text \<open>The state in which the wiping starts.\<close>

definition same_counts :: "('e, 'z) world_scheme \<Rightarrow> ('e, 'z) world_scheme \<Rightarrow> bool" where
  "same_counts s t \<longleftrightarrow> done_disk_cnt t = done_disk_cnt s \<and> error_disk_cnt t = error_disk_cnt s \<and> skiped_disk_cnt t = skiped_disk_cnt s"

lemma do_main_wipes:
  fixes s :: "('e, 'z) sys_scheme"
  assumes "do_main P v img s = Inr t" "length (disk_list s) = DISK_LIST_LEN"
  obtains r n u w where "parse_cmdline (cmd_line_ptr img) = Inr (r, opt u)" "reaches P read_only (dev s) (dev u)"
    "ptrs u = relocated img" "extclock (tv u) \<noteq> 0" "rbuf_fixed P \<longrightarrow> length (rbuf (ra u)) = length (rbuf (ra s))"
    "length (disk_list u) = DISK_LIST_LEN" "error_status P \<longrightarrow> table_ok all_drives n (disk_list u)"
    "same_counts s u" "unat (total_disk_cnt u) = n" "n \<le> DISK_LIST_LEN" "wipe_list P [0..<n] u = Some w" "t = reboot P w"
    "\<exists>s2 e. enum_loop P all_drives 0 (s2 :: ('e, 'z) sys_scheme) = Some (n, e) \<and> disk_list e = disk_list u"
proof -
  obtain r p s1 s2 s3 where st: "parse_cmdline (cmd_line_ptr img) = Inr (r, p)" "dvia P s s1"
    "set_up P img (s1\<lparr>opt := p\<rparr>) = Some s2" "run_disks P s2 = Some s3" "t = reboot P s3"
    by (rule do_main_stages [OF assms(1)])
  note v1 = wvia_frame [OF wvia_dvia [OF st(2), of read_only]]
  note su = set_up_ok [OF st(3)]
  have l: "length (disk_list s2) = DISK_LIST_LEN" using su(1) v1(4) assms(2) by (simp add: same_lists_def)
  obtain n l u where u: "n \<le> DISK_LIST_LEN" "length l = DISK_LIST_LEN" "error_status P \<longrightarrow> table_ok all_drives n l"
    "wvia P read_only (s2\<lparr>disk_list := l, total_disk_cnt := of_nat n\<rparr>) u" "run_disks P s2 = wipe_list P [0..<n] u"
    "\<exists>e. enum_loop P all_drives 0 s2 = Some (n, e) \<and> disk_list e = l"
    by (rule run_disks_stages [OF l su(4)])
  note fr = wvia_frame [OF u(4)]
  have r: "reaches P read_only (dev s1) (dev s2)" using reaches_mono [OF su(2), of read_only] by simp
  have q: "reaches P read_only (dev s2) (dev u)" using fr(9) by simp
  have n: "unat (of_nat n :: u32) = n" using u(1) by (simp add: DISK_LIST_LEN_def unat_of_nat take_bit_nat_eq_self)
  show thesis
    by (rule that [of r u n s3])
       (use st u fr su v1 reaches_trans [OF q reaches_trans [OF r v1(9)]] n in
         \<open>auto simp: same_lists_def same_counts_def\<close>)
qed

lemma reboot_sel [simp]:
  "disk_list (reboot P s) = disk_list s" "total_disk_cnt (reboot P s) = total_disk_cnt s" "counted (reboot P s) = counted s"
  "done_disk_cnt (reboot P s) = done_disk_cnt s" "error_disk_cnt (reboot P s) = error_disk_cnt s"
  "skiped_disk_cnt (reboot P s) = skiped_disk_cnt s"
  by (simp_all add: reboot_def outb_def counted_def)

text \<open>
  C9. When the program gets to its end, the disks counted as wiped, failed and skipped are
  together exactly the disks it listed, at most 128.
\<close>

theorem do_main_counts:
  assumes "do_main P v img s = Inr t" "length (disk_list s) = DISK_LIST_LEN" "counted s = 0"
  shows "counted t = unat (total_disk_cnt t) \<and> unat (total_disk_cnt t) \<le> DISK_LIST_LEN"
proof -
  obtain r n u w where u: "extclock (tv u) \<noteq> 0" "same_counts s u" "unat (total_disk_cnt u) = n" "n \<le> DISK_LIST_LEN"
    "wipe_list P [0..<n] u = Some w" "t = reboot P w"
    by (rule do_main_wipes [OF assms(1,2)])
  have "counted u = 0" using u(2) assms(3) by (simp add: same_counts_def counted_def)
  then have "steady u w" "counted w = n"
    using wipe_list_ok [OF u(1), of P "[0..<n]"] u(4,5) by (auto simp: DISK_LIST_LEN_def)
  then show ?thesis using u(3,4,6) by (simp add: steady_def)
qed

lemma wipe_list_reads:
  "wipe_list P is s = Some t \<Longrightarrow> opt_test (opt s) \<noteq> 0 \<Longrightarrow> extclock (tv s) \<noteq> 0 \<Longrightarrow> reaches P read_only (dev s) (dev t)"
proof (induction "is" arbitrary: s)
  case Nil
  then show ?case by (simp add: here)
next
  case (Cons i "is")
  obtain ret s1 u w where w: "wipe_one P i s = Some (ret, w)" "wvia P read_only s s1"
    "wipe_disk P (disk_list s ! i) s1 = Some (ret, u)" "wvia P read_only (count_result ret u) w" "steady s w"
    by (rule wipe_one_ok [OF Cons.prems(3)])
  have v: "wvia P read_only s1 u"
    by (rule wvia_wipe_disk [OF w(3)]) (use Cons.prems(2) wvia_frame(1) [OF w(2)] in simp_all)
  have a: "reaches P read_only (dev s) (dev u)" by (rule reaches_trans [OF wvia_frame(9) [OF v] wvia_frame(9) [OF w(2)]])
  have b: "reaches P read_only (dev u) (dev w)" using wvia_frame(9) [OF w(4)] by simp
  have c: "reaches P read_only (dev w) (dev t)"
  proof (rule Cons.IH)
    show "wipe_list P is w = Some t" using Cons.prems(1) by (simp add: w(1))
  qed (use Cons.prems(2,3) w(5) in \<open>simp_all add: steady_def\<close>)
  show ?case by (rule reaches_trans [OF c reaches_trans [OF b a]])
qed

text \<open>
  C2. With the option \<^verbatim>\<open>test\<close> on the command line the whole program, from the first port
  access to the reboot, leaves every sector of every drive as it was.
\<close>

theorem do_main_test_mode:
  assumes "do_main P v img s = Inr t" "length (disk_list s) = DISK_LIST_LEN"
    and "parse_cmdline (cmd_line_ptr img) = Inr (r, p)" "opt_test p \<noteq> 0" "disk_image P D G B"
  shows "D (dev t) = D (dev s)"
proof -
  obtain r' n u w where u: "parse_cmdline (cmd_line_ptr img) = Inr (r', opt u)" "reaches P read_only (dev s) (dev u)"
    "extclock (tv u) \<noteq> 0" "wipe_list P [0..<n] u = Some w" "t = reboot P w"
    by (rule do_main_wipes [OF assms(1,2)])
  have a: "reaches P read_only (dev u) (dev w)" by (rule wipe_list_reads [OF u(4) _ u(3)]) (use u(1) assms(3,4) in simp)
  have b: "reaches P read_only (dev w) (dev t)" using u(5) by (simp add: reboot_def outb_def reaches.outb here)
  show ?thesis by (rule disk_image_read_only [OF assms(5) reaches_trans [OF b reaches_trans [OF a u(2)]]])
qed

subsection \<open>Every listed disk is erased or untouched\<close>

text \<open>
  The relocated transfer buffer is at \<open>B\<close>: the image is laid out by the linker so that the
  buffer lies less than 64 KiB behind \<^verbatim>\<open>real_code_begin\<close>.
\<close>

definition image_ok :: "nat \<Rightarrow> boot_image \<Rightarrow> bool" where
  "image_ok B img \<longleftrightarrow> real_code_begin img \<le> p_real_buffer (link_ptrs img) \<and>
     unat (p_real_buffer (link_ptrs img)) - unat (real_code_begin img) < 2 ^ 16 \<and>
     B = 2 ^ 16 + (unat (p_real_buffer (link_ptrs img)) - unat (real_code_begin img))"

lemma relocated_buffer: "image_ok B img \<Longrightarrow> unat (p_real_buffer (relocated img)) = B \<and> 2 ^ 16 \<le> B \<and> B < 2 ^ 17"
proof -
  assume i: "image_ok B img"
  let ?p = "p_real_buffer (link_ptrs img)" and ?b = "real_code_begin img"
  have d: "unat (?p - ?b) = unat ?p - unat ?b" using i by (simp add: image_ok_def unat_sub)
  have "p_real_buffer (relocated img) = (?p - ?b) + 0x10000"
    by (simp add: relocated_def Let_def REAL_CODE_ADDR_def REAL_CODE_SEG_def)
  moreover have "unat ((?p - ?b) + 0x10000) = unat (?p - ?b) + 0x10000"
    using i d by (simp add: image_ok_def unat_word_ariths)
  ultimately show ?thesis using i d by (simp add: image_ok_def)
qed

lemma subseq_distinct: "subseq xs ys \<Longrightarrow> distinct ys \<Longrightarrow> distinct xs"
  by (induction rule: list_emb.induct) (auto dest: list_emb_set)

lemma table_ids_distinct: "table_ok all_drives n l \<Longrightarrow> distinct (map disk_id (take n l))"
proof -
  have "inj_on (of_nat :: nat \<Rightarrow> u8) {0x80..<0x100}"
    by (auto simp: inj_on_def word_of_nat_eq_iff take_bit_nat_eq_self)
  then have "distinct all_drives" by (simp add: all_drives_def distinct_map)
  then show "table_ok all_drives n l \<Longrightarrow> distinct (map disk_id (take n l))"
    unfolding table_ok_def by (auto dest: subseq_distinct)
qed


text \<open>
  C1. The main result. The program is run in mode FAST or DOD without the options \<^verbatim>\<open>test\<close>,
  \<^verbatim>\<open>mbr\<close> and \<^verbatim>\<open>force_chs\<close>, and it gets to its end. Every listed disk has extended support,
  sectors of 512 bytes, and at least one and fewer than \<open>2 ^ 55\<close> of them, as many as the drive
  really has. The BIOS carries out the writes within the capacity of a drive and gives a
  status other than 0 with every error, the heap has room for the wipe buffer, the image is
  laid out as the linker does it, the disk table and the transfer buffer have their declared
  sizes, and the counters start at 0. Then at the end every listed disk is, from its first to its last
  sector, either zero or exactly as it was before; the disks that are zero are those
  counted as wiped, the others are those counted as skipped, no disk is counted as failed,
  and no drive that is not listed has changed.
\<close>

theorem do_main_erases:
  assumes run: "do_main P v img s = Inr t" and len: "length (disk_list s) = DISK_LIST_LEN" and cnt: "counted s = 0"
    and m: "lba_machine P D G B cap" "heap_ok P" "error_status P"
    and img: "image_ok B img" "length (rbuf (ra s)) = MAX_SECTOR_BUFFER_SIZE"
    and opts: "parse_cmdline (cmd_line_ptr img) = Inr (r, p)" "erase_mode p" "opt_force_chs p = 0" "opt_mbr p = 0"
    and good: "\<forall>d \<in> set (take (unat (total_disk_cnt t)) (disk_list t)). good_disk cap d"
  shows "\<exists>rets. list_all2 (settled (D (dev s)) (D (dev t))) (take (unat (total_disk_cnt t)) (disk_list t)) rets \<and>
    unat (done_disk_cnt t) = count_list rets 0 \<and> unat (skiped_disk_cnt t) = count_list rets 1 \<and> error_disk_cnt t = 0 \<and>
    (\<forall>drv. drv \<notin> disk_id ` set (take (unat (total_disk_cnt t)) (disk_list t)) \<longrightarrow> D (dev t) drv = D (dev s) drv)"
proof -
  obtain r' n u w where u: "parse_cmdline (cmd_line_ptr img) = Inr (r', opt u)" "reaches P read_only (dev s) (dev u)"
    "ptrs u = relocated img" "extclock (tv u) \<noteq> 0" "rbuf_fixed P \<longrightarrow> length (rbuf (ra u)) = length (rbuf (ra s))"
    "length (disk_list u) = DISK_LIST_LEN" "error_status P \<longrightarrow> table_ok all_drives n (disk_list u)"
    "same_counts s u" "unat (total_disk_cnt u) = n" "n \<le> DISK_LIST_LEN" "wipe_list P [0..<n] u = Some w" "t = reboot P w"
    by (rule do_main_wipes [OF run len])
  have im: "disk_image P D G B" and rb: "rbuf_fixed P" using m(1) by (simp_all add: lba_machine_def disk_image_def)
  have c0: "done_disk_cnt u = 0" "error_disk_cnt u = 0" "skiped_disk_cnt u = 0"
    using u(8) cnt by (simp_all add: same_counts_def counted_def unat_eq_zero)
  have e: "erasing B u"
    using u(1,3,4,5) opts img relocated_buffer [OF img(1)] rb by (simp add: erasing_def ready_def)
  have stw: "steady u w" using wipe_list_ok [OF u(4), of P "[0..<n]"] u(11) by simp
  have lt: "take (unat (total_disk_cnt t)) (disk_list t) = take n (disk_list u)"
    using stw u(9,12) by (simp add: steady_def)
  have tk: "take n (disk_list u) = map ((!) (disk_list u)) [0..<n]"
    using u(6,10) by (intro nth_equalityI) simp_all
  have dst: "distinct (map (\<lambda>i. disk_id (disk_list u ! i)) [0..<n])"
    using table_ids_distinct [of n "disk_list u"] u(7) m(3) unfolding tk by (simp add: comp_def)
  have gd: "\<forall>i \<in> set [0..<n]. good_disk cap (disk_list u ! i)" using good unfolding lt tk by auto
  obtain rets where rets: "list_all2 (\<lambda>i. settled (D (dev u)) (D (dev w)) (disk_list u ! i)) [0..<n] rets"
    "\<forall>drv. drv \<notin> (\<lambda>i. disk_id (disk_list u ! i)) ` set [0..<n] \<longrightarrow> D (dev w) drv = D (dev u) drv"
    "done_disk_cnt w = of_nat (count_list rets 0)" "skiped_disk_cnt w = of_nat (count_list rets 1)" "error_disk_cnt w = 0"
    using wipe_list_settles [OF m(1,2) e gd dst] u(11) c0 by auto
  have Du: "D (dev u) = D (dev s)" by (rule disk_image_read_only [OF im u(2)])
  have Dt: "D (dev t) = D (dev w)"
    by (rule disk_image_read_only [OF im]) (simp add: u(12) reboot_def outb_def reaches.outb here)
  have lr: "length rets \<le> 128" using list_all2_lengthD [OF rets(1)] u(10) by (simp add: DISK_LIST_LEN_def)
  have small: "count_list rets x < 2 ^ 32" for x using count_le_length [of rets x] lr by simp
  have ct: "unat (of_nat (count_list rets x) :: u32) = count_list rets x" for x
    using small [of x] by (simp add: unat_of_nat take_bit_nat_eq_self)
  show ?thesis
    unfolding lt using rets Du Dt ct u(12)
    by (intro exI [of _ rets]) (simp add: tk list_all2_map1 image_image)
qed

section \<open>The program gets to its end\<close>

lemma cmdline_text_ok:
  assumes "parse_cmdline c = Inr x"
  shows "\<exists>msg. cmdline_text c = Inr msg"
proof (cases "fill_slots (Some (take (MAX_CMDLINE_SIZE - 1) c)) None 0 (replicate MAX_CMDLINE_SLOT empty_slot)")
  case (Inl f)
  then show ?thesis using assms by (simp add: parse_cmdline_def Let_def)
next
  case (Inr y)
  obtain slots cnt where y: "y = (slots, cnt)" by (cases y)
  show ?thesis using assms Inr y by (cases "set_options slots cnt") (simp_all add: parse_cmdline_def cmdline_text_def Let_def)
qed

lemma do_main_total:
  assumes "parse_cmdline (cmd_line_ptr img) = Inr (r, p)" "uart_live P v" "\<not> uncalibrated (tv s)" "gate_opens P" "ratios_ok P" "rtc_settles P"
    and "length (disk_list s) = DISK_LIST_LEN"
  obtains t where "do_main P v img s = Inr t"
proof -
  obtain msg where msg: "cmdline_text (cmd_line_ptr img) = Inr msg" using cmdline_text_ok [OF assms(1)] by blast
  define s0 where "s0 = serial_echo_init P v (outb P 0x8 0x3f2 s)"
  have v0: "dvia P s s0" unfolding s0_def by (rule dvia_trans [OF dvia_outb dvia_serial_echo_init])
  obtain u where u: "fprintf_stderr P v msg s0 = Some u" using fprintf_returns [OF assms(2)] by blast
  define s1 where "s1 = (if r \<noteq> 0 then reboot P (u\<lparr>opt := p\<rparr>) else u\<lparr>opt := p\<rparr>)"
  obtain e where e: "u = s\<lparr>dev := e\<rparr>" using dvia_trans [OF v0 dvia_fprintf [OF u]] by (auto simp: dvia_def)
  have f1: "tv s1 = tv s" "disk_list s1 = disk_list s" by (simp_all add: s1_def e reboot_def outb_def)
  obtain s2 where s2: "timer_init P s1 = Some s2" "extclock (tv s2) \<noteq> 0"
    by (rule timer_init_starts [of s1 P]) (use assms f1 in simp_all)
  define s3 where "s3 = display_init (s2\<lparr>cr0 := set_cache (cpu_id (tv s2)) 1 (cr0 s2), ptrs := relocated img\<rparr>)"
  have "extclock (tv s3) \<noteq> 0" using s2(2) only_mem(3) [of "s2\<lparr>cr0 := set_cache (cpu_id (tv s2)) 1 (cr0 s2), ptrs := relocated img\<rparr>"]
    by (auto simp: s3_def)
  then obtain now s4 where s4: "do_gettimeofday P s3 = Some (now, s4)" using do_gettimeofday_returns by blast
  have "set_up P img s1 \<noteq> None" using s2(1) s4 by (simp add: set_up_def Let_def relocate_real_relocated s3_def)
  then obtain s5 where s5: "set_up P img s1 = Some s5" by blast
  note su = set_up_ok [OF s5]
  have "length (disk_list s5) = DISK_LIST_LEN" using su(1) f1 assms(7) by (simp add: same_lists_def)
  from run_disks_stages [OF this su(4)] obtain n l w where
    "wvia P read_only (s5\<lparr>disk_list := l, total_disk_cnt := of_nat n\<rparr>) w" "run_disks P s5 = wipe_list P [0..<n] w" by metis
  moreover from this have "extclock (tv w) \<noteq> 0" using wvia_frame(2) su(4) by fastforce
  ultimately obtain s6 where "run_disks P s5 = Some s6" using wipe_list_ok [of w P "[0..<n]"] by auto
  then have "do_main P v img s = Inr (reboot P s6)"
    using u s5 by (cases "r = 0") (simp_all add: do_main_def Let_def msg assms(1) s1_def flip: s0_def)
  then show thesis by (rule that)
qed

text \<open>
  C8. The program gets to its end: \<^verbatim>\<open>do_main\<close> runs through all its loops and requests the reboot, whatever
  disks there are and whatever the BIOS answers. The conditions: the command line can be
  parsed; the transmitter of the serial port becomes empty after finitely many readings of
  its status, so that every message and, with \<^verbatim>\<open>debug\<close>, every log call ends; the processor is
  one that \<^verbatim>\<open>cpu_type\<close> calibrates, with a fixed or a variable counter rate; the current
  multiplier in the model-specific registers does not exceed the maximal one; the timer gate
  opens and the clock chip finishes its update after some number of polls.
\<close>

theorem do_main_returns:
  assumes "parse_cmdline (cmd_line_ptr img) = Inr (r, p)" "uart_live P v" "\<not> uncalibrated (tv s)" "gate_opens P" "ratios_ok P" "rtc_settles P"
    and "length (disk_list s) = DISK_LIST_LEN"
  shows "\<exists>t. do_main P v img s = Inr t"
  by (rule do_main_total [OF assms]) blast


section \<open>A sample machine\<close>

text \<open>
  The ideal machine with one disk of 20 sectors at \<^verbatim>\<open>0x80\<close>; the parameter call fails with
  status 1 for every other drive.
\<close>

definition one_disk_ext :: disk_param_ext_t where
  "one_disk_ext = zero_ext\<lparr>ext_nsectors := 20, ext_bytes_per_sector := 512\<rparr>"

definition one_disk_bios :: "real_area \<Rightarrow> ideal_dev \<Rightarrow> bool \<times> real_area \<times> ideal_dev" where
  "one_disk_bios a e =
     (if r_ah (reg a) = 0x08
      then (if r_dl (reg a) = 0x80 then (False, a, e) else (True, a\<lparr>reg := (reg a)\<lparr>r_ah := 1\<rparr>\<rparr>, e))
      else if r_ah (reg a) = 0x41 then (False, a\<lparr>reg := (reg a)\<lparr>r_cl := 1\<rparr>\<rparr>, e)
      else if r_ah (reg a) = 0x48 then (False, a\<lparr>pext := one_disk_ext\<rparr>, e)
      else ideal_bios (\<lambda>_. (16, 63)) a e)"

definition main_pc :: "ideal_dev platform" where
  "main_pc = (ideal (\<lambda>_. (16, 63)))\<lparr>p_bios := one_disk_bios\<rparr>"

definition main_image :: "string \<Rightarrow> boot_image" where
  "main_image c = \<lparr>real_code_begin = 0x100000, link_ptrs = \<lparr>p_real_buffer = 0x100200, p_real_reg = 0x100100,
     p_real_dap = 0x100120, p_real_disk_param_ext = 0x100140\<rparr>, cmd_line_ptr = c\<rparr>"

definition main_state :: "ideal_dev sys" where
  "main_state = \<lparr>ptrs = sample_ptrs, ra = blank_area, dev = sample_dev, tv = sample_timer, mem = (\<lambda>_. 0), opt = set_default_opt,
     rand_next = 1, disk_list = replicate DISK_LIST_LEN zero_param, total_disk_cnt = 0, skiped_disk_cnt = 0, done_disk_cnt = 0,
     error_disk_cnt = 0, cr0 = 0x60000011\<rparr>"

lemma main_state_sel [simp]:
  "tv main_state = sample_timer" "length (disk_list main_state) = DISK_LIST_LEN" "counted main_state = 0"
  "dev main_state = sample_dev" "length (rbuf (ra main_state)) = MAX_SECTOR_BUFFER_SIZE"
  by (simp_all add: main_state_def counted_def blank_area_def)

lemma main_image_sel [simp]: "cmd_line_ptr (main_image c) = c" "image_ok 0x10200 (main_image c)"
  by (simp_all add: main_image_def image_ok_def)

lemma main_parse: "parse_cmdline '''' = Inr (0, set_default_opt)"
   "parse_cmdline ''test'' = Inr (0, set_default_opt\<lparr>opt_test := 1\<rparr>)"
  by code_simp+

lemma main_pc_devices: "uart_live main_pc serial_defaults" "gate_opens main_pc" "ratios_ok main_pc" "rtc_settles main_pc" "heap_ok main_pc"
proof -
  show "uart_live main_pc serial_defaults"
    unfolding uart_live_def
    by (intro allI exI [of _ 0]) (simp add: main_pc_def ideal_def lsr_port_def UART_LSR_def serial_base_ports_def serial_defaults_def BOTH_EMPTY_def)
  show "gate_opens main_pc" using ideal_gate_opens [of "\<lambda>_. (16, 63)"] by (simp add: gate_opens_def main_pc_def)
  show "ratios_ok main_pc" by (rule blank_ratios_ok) (simp add: main_pc_def ideal_def)
  show "rtc_settles main_pc" using ideal_rtc_settles [of "\<lambda>_. (16, 63)"] by (simp add: rtc_settles_def cmos_status_def main_pc_def)
  show "heap_ok main_pc" by (simp add: heap_ok_def main_pc_def ideal_def WIPE_BUFFER_SIZE_def)
qed

lemma main_pc_image: "disk_image main_pc i_disks (\<lambda>_. (16, 63)) B" "accepts main_pc cap" "error_status main_pc"
proof -
  show "disk_image main_pc i_disks (\<lambda>_. (16, 63)) B"
    using ideal_disk_image [of "\<lambda>_. (16, 63)" B]
    by (auto simp: disk_image_def main_pc_def one_disk_bios_def ideal_def rbuf_fixed_def keeps_def lba_write_def chs_write_def read_only_def)
  show "accepts main_pc cap" "error_status main_pc"
    by (auto simp: accepts_def error_status_def main_pc_def one_disk_bios_def lba_write_def ideal_bios_def Let_def split: prod.splits)
qed

lemma main_runs:
  assumes "parse_cmdline c = Inr (r, p)"
  obtains t where "do_main main_pc serial_defaults (main_image c) main_state = Inr t"
  by (rule do_main_total [of "main_image c" r p main_pc serial_defaults main_state])
     (use assms main_pc_devices sample_calibrated in simp_all)

theorem do_main_returns_witness: "\<exists>t. do_main main_pc serial_defaults (main_image ''test'') main_state = Inr t"
  by (rule do_main_returns [OF _ main_pc_devices(1) _ main_pc_devices(2-4)]) (simp_all add: main_parse sample_calibrated)

theorem do_main_counts_witness:
  "\<exists>t. do_main main_pc serial_defaults (main_image '''') main_state = Inr t \<and> counted t = unat (total_disk_cnt t)"
proof -
  obtain t where t: "do_main main_pc serial_defaults (main_image '''') main_state = Inr t" by (rule main_runs [OF main_parse(1)])
  from do_main_counts [OF this] show ?thesis using t by simp
qed

theorem do_main_test_mode_witness:
  "\<exists>t. do_main main_pc serial_defaults (main_image ''test'') main_state = Inr t \<and> i_disks (dev t) = i_disks sample_dev"
proof -
  obtain t where t: "do_main main_pc serial_defaults (main_image ''test'') main_state = Inr t" by (rule main_runs [OF main_parse(2)])
  have "i_disks (dev t) = i_disks (dev main_state)"
    by (rule do_main_test_mode [OF t _ _ _ main_pc_image(1), of 0 "set_default_opt\<lparr>opt_test := 1\<rparr>"]) (simp_all add: main_parse)
  then show ?thesis using t by simp
qed


text \<open>Every disk this machine lists has 20 sectors of 512 bytes.\<close>

lemmas bios_call_defs = int13_1_def int13_4_def int13_call_def query_pcbios_def upd_reg_def request_def main_pc_def one_disk_bios_def

lemma main_pc_calls:
  fixes s :: "(ideal_dev, 'z) world_scheme"
  shows "\<exists>q x. get_disk_param main_pc drv s = ((if drv = 0x80 then 0 else 1, q), x) \<and> disk_list x = disk_list s"
    "\<exists>w x. check_extensions_present main_pc drv 0 0 s = ((0, 1, w), x) \<and> disk_list x = disk_list s"
    "\<exists>x. get_disk_param_ext main_pc q s = ((0, q\<lparr>has_ext := 1, ext := one_disk_ext\<rparr>), x) \<and> disk_list x = disk_list s"
  by (simp_all add: get_disk_param_def check_extensions_present_def get_disk_param_ext_def bios_call_defs Let_def case_prod_beta)

lemma main_pc_enum_one:
  assumes "enum_one main_pc drv i s = Some (j, t)" "\<forall>d \<in> set (take i (disk_list s)). good_disk (\<lambda>_. 20) d"
  shows "\<forall>d \<in> set (take j (disk_list t)). good_disk (\<lambda>_. 20) d"
proof -
  have g: "good_disk (\<lambda>_. 20) (d\<lparr>has_ext := 1, ext := one_disk_ext\<rparr>)" for d
    by (simp add: good_disk_def lba_disk_def one_disk_ext_def zero_ext_def)
  have l: "disk_list (show_disk_list_enum drv x) = disk_list x" for x :: "(ideal_dev, 'a) world_scheme"
    by (rule wvia_frame(4) [OF wvia_show_disk_list_enum])
  have i: "i < length (disk_list s)" using assms(1) by (auto simp: enum_one_def split: if_splits)
  obtain q x where x: "get_disk_param main_pc drv s = ((if drv = 0x80 then 0 else 1, q), x)" "disk_list x = disk_list s"
    using main_pc_calls(1) by blast
  define y where "y = show_disk_list_enum drv (x\<lparr>disk_list := (disk_list x)[i := q]\<rparr>)"
  obtain w z where z: "check_extensions_present main_pc drv 0 0 y = ((0, 1, w), z)" "disk_list z = disk_list y"
    using main_pc_calls(2) by blast
  obtain v where v: "get_disk_param_ext main_pc q z = ((0, q\<lparr>has_ext := 1, ext := one_disk_ext\<rparr>), v)" "disk_list v = disk_list z"
    using main_pc_calls(3) by blast
  have zl: "disk_list z = (disk_list s)[i := q]" "disk_list v = (disk_list s)[i := q]" using z(2) v(2) x(2) l by (simp_all add: y_def)
  show ?thesis
  proof (cases "drv = 0x80")
    case True
    then have "j = Suc i" "disk_list t = (disk_list s)[i := q\<lparr>has_ext := 1, ext := one_disk_ext\<rparr>]"
      using assms(1) i x(1) z(1) [unfolded y_def] v(1) zl by (auto simp: enum_one_def Let_def)
    then show ?thesis using assms(2) g i by (auto simp: take_extend)
  next
    case False
    then have "j = i" "disk_list t = (disk_list s)[i := q]"
      using assms(1) i x by (auto simp: enum_one_def Let_def)
    then show ?thesis using assms(2) by simp
  qed
qed


lemma main_pc_enum_loop:
  "enum_loop main_pc drvs i s = Some (j, t) \<Longrightarrow> \<forall>d \<in> set (take i (disk_list s)). good_disk (\<lambda>_. 20) d \<Longrightarrow>
     \<forall>d \<in> set (take j (disk_list t)). good_disk (\<lambda>_. 20) d"
proof (induction drvs arbitrary: i s)
  case (Cons drv drvs)
  then obtain k u where "enum_one main_pc drv i s = Some (k, u)" "enum_loop main_pc drvs k u = Some (j, t)"
    by (auto split: bind_splits)
  then show ?case using Cons.IH [of k u] main_pc_enum_one [of drv i s k u] Cons.prems(2) by blast
qed simp

lemma main_pc_listed:
  fixes s :: "(ideal_dev, 'z) sys_scheme"
  assumes "do_main main_pc v img s = Inr t" "length (disk_list s) = DISK_LIST_LEN"
  shows "\<forall>d \<in> set (take (unat (total_disk_cnt t)) (disk_list t)). good_disk (\<lambda>_. 20) d"
proof -
  obtain r n u w where u: "extclock (tv u) \<noteq> 0" "unat (total_disk_cnt u) = n" "wipe_list main_pc [0..<n] u = Some w" "t = reboot main_pc w"
    "\<exists>s2 e. enum_loop main_pc all_drives 0 (s2 :: (ideal_dev, 'z) sys_scheme) = Some (n, e) \<and> disk_list e = disk_list u"
    by (rule do_main_wipes [OF assms])
  have "steady u w" using wipe_list_ok [OF u(1), of main_pc "[0..<n]"] u(3) by simp
  then have "take (unat (total_disk_cnt t)) (disk_list t) = take n (disk_list u)" using u(2,4) by (simp add: steady_def)
  then show ?thesis using u(5) main_pc_enum_loop by fastforce
qed

theorem do_main_erases_witness:
  "\<exists>t rets. do_main main_pc serial_defaults (main_image '''') main_state = Inr t \<and>
     list_all2 (settled (i_disks sample_dev) (i_disks (dev t))) (take (unat (total_disk_cnt t)) (disk_list t)) rets \<and>
     unat (done_disk_cnt t) = count_list rets 0 \<and> unat (skiped_disk_cnt t) = count_list rets 1 \<and> error_disk_cnt t = 0"
proof -
  obtain t where t: "do_main main_pc serial_defaults (main_image '''') main_state = Inr t" by (rule main_runs [OF main_parse(1)])
  have m: "lba_machine main_pc i_disks (\<lambda>_. (16, 63)) 0x10200 (\<lambda>_. 20)" by (simp add: lba_machine_def main_pc_image)
  have p: "parse_cmdline (cmd_line_ptr (main_image '''')) = Inr (0, set_default_opt)" by (simp add: main_parse)
  note e = do_main_erases [OF t main_state_sel(2,3) m main_pc_devices(5) main_pc_image(3) main_image_sel(2) main_state_sel(5) p]
  show ?thesis
    using e main_pc_listed [OF t] t by (auto simp: erase_mode_def set_default_opt_def)
qed

theorem enum_disk_table_witness:
  "\<exists>t. enum_disk main_pc main_state = Some t \<and> unat (total_disk_cnt t) \<le> DISK_LIST_LEN \<and>
     table_ok all_drives (unat (total_disk_cnt t)) (disk_list t)"
  using enum_disk_table [OF main_state_sel(2), of main_pc] main_pc_image(3) by auto

end
