(* ===== verification/Screen.thy ===== *)
theory Screen
  imports Display Newlib
begin

text \<open>
  What display.c prints: the cells a text occupies, and the number printers against the
  conversions of \<^verbatim>\<open>printf\<close>.
\<close>

section \<open>Cells\<close>

definition cell :: "int \<Rightarrow> int \<Rightarrow> int" where
  "cell y x = SCREEN_ADR + 160 * y + 2 * x"

lemma put_chars_other: "(\<And>k. k < length t \<Longrightarrow> a \<noteq> p + 2 * int k) \<Longrightarrow> put_chars p t m a = m a"
proof (induction t arbitrary: p m)
  case (Cons c t)
  have "a \<noteq> p" using Cons.prems [of 0] by simp
  moreover have "put_chars (p + 2) t (m(p := ord8 c)) a = (m(p := ord8 c)) a"
  proof (rule Cons.IH)
    show "a \<noteq> p + 2 + 2 * int k" if "k < length t" for k using Cons.prems [of "Suc k"] that by (simp add: algebra_simps)
  qed
  ultimately show ?case by simp
qed simp

lemma put_chars_at: "k < length t \<Longrightarrow> put_chars p t m (p + 2 * int k) = ord8 (t ! k)"
proof (induction t arbitrary: p m k)
  case (Cons c t)
  show ?case
  proof (cases k)
    case 0
    have "put_chars (p + 2) t (m(p := ord8 c)) p = (m(p := ord8 c)) p" by (rule put_chars_other) simp
    then show ?thesis using 0 by simp
  next
    case (Suc j)
    have "put_chars (p + 2) t (m(p := ord8 c)) (p + 2 + 2 * int j) = ord8 (t ! j)"
      using Cons.prems Suc by (intro Cons.IH) simp
    moreover have "p + 2 + 2 * int j = p + 2 * int k" using Suc by simp
    ultimately show ?thesis using Suc by (simp del: fun_upd_apply)
  qed
qed simp

lemma cprint_at: "k < length t \<Longrightarrow> mem (cprint y x t s) (cell y (x + int k)) = ord8 (t ! k)"
  using put_chars_at [of k t "SCREEN_ADR + 160 * y + 2 * x" "mem s"] by (simp add: cprint_def cell_def algebra_simps)

lemma cprint_other: "(\<And>k. k < length t \<Longrightarrow> a \<noteq> cell y (x + int k)) \<Longrightarrow> mem (cprint y x t s) a = mem s a"
  using put_chars_other [of t a "SCREEN_ADR + 160 * y + 2 * x" "mem s"] by (simp add: cprint_def cell_def algebra_simps)

text \<open>
  \<^verbatim>\<open>cprint\<close> stores the characters of a text in consecutive cells of its line and changes
  no other byte; a text that starts on a line of the screen and ends on it leaves all memory
  outside the screen alone.
\<close>

theorem cprint_cells:
  "(\<forall>k < length t. mem (cprint y x t s) (cell y (x + int k)) = ord8 (t ! k)) \<and>
   (\<forall>a. (\<forall>k < length t. a \<noteq> cell y (x + int k)) \<longrightarrow> mem (cprint y x t s) a = mem s a) \<and>
   (0 \<le> y \<and> y < int SCREEN_HEIGHT \<and> 0 \<le> x \<and> x + int (length t) \<le> int SCREEN_WIDTH \<longrightarrow>
      (\<forall>a. a < SCREEN_ADR \<or> SCREEN_END_ADR \<le> a \<longrightarrow> mem (cprint y x t s) a = mem s a))"
proof (intro conjI allI impI)
  fix a assume a: "a < SCREEN_ADR \<or> SCREEN_END_ADR \<le> a"
    and b: "0 \<le> y \<and> y < int SCREEN_HEIGHT \<and> 0 \<le> x \<and> x + int (length t) \<le> int SCREEN_WIDTH"
  show "mem (cprint y x t s) a = mem s a"
  proof (rule cprint_other)
    fix k assume "k < length t"
    then have "0 \<le> x + int k" "x + int k \<le> 79" "0 \<le> y" "y \<le> 24" using b by (simp_all add: SCREEN_WIDTH_def SCREEN_HEIGHT_def)
    then show "a \<noteq> cell y (x + int k)"
      using a by (auto simp: cell_def SCREEN_END_ADR_def SCREEN_WIDTH_def SCREEN_HEIGHT_def)
  qed
qed (simp_all add: cprint_at cprint_other)

definition blank_screen :: "ideal_dev dmach" where
  "blank_screen = tmach.extend (sample_tmach 0) (dmach.fields (\<lambda>_. 0x20))"

theorem cprint_cells_witness:
  "mem (cprint 2 3 ''ok'' blank_screen) (cell 2 4) = 0x6b \<and>
   mem (cprint 2 3 ''ok'' blank_screen) (cell 2 5) = mem blank_screen (cell 2 5) \<and>
   mem (cprint 2 3 ''ok'' blank_screen) 0x472 = mem blank_screen 0x472"
proof -
  note c = cprint_cells [of "''ok''" 2 3 blank_screen]
  have "mem (cprint 2 3 ''ok'' blank_screen) (cell 2 (3 + int 1)) = ord8 (''ok'' ! 1)" using c by (metis One_nat_def length_Cons lessI list.size(3))
  then show ?thesis using c
    by (simp add: ord8_def SCREEN_HEIGHT_def SCREEN_WIDTH_def SCREEN_ADR_def cell_def less_Suc_eq)
qed

section \<open>Hexadecimal numbers\<close>

text \<open>The digit \<^verbatim>\<open>i\<close> the loop extracts, and the digits before it as a number.\<close>

definition hex_digit :: "nat \<Rightarrow> char" where
  "hex_digit d = char_of (if d < 10 then 48 + d else 87 + d)"

definition nibble :: "u32 \<Rightarrow> nat \<Rightarrow> nat" where
  "nibble val i = unat val div 16 ^ (7 - i) mod 16"

definition prefix :: "u32 \<Rightarrow> nat \<Rightarrow> nat" where
  "prefix val i = unat val div 16 ^ (8 - i)"

definition significant :: "nat \<Rightarrow> nat" where
  "significant n = (if n = 0 then 0 else length (hex n))"

lemma zero_char: "CHR ''0'' = char_of (48 :: nat)"
  by code_simp

lemma hex_unfold: "hex n = (if n < 16 then [hex_digit n] else hex (n div 16) @ [hex_digit (n mod 16)])"
  by (subst hex.simps) (simp add: hex_digit_def Let_def)

lemma hex_length_pos: "0 < length (hex n)"
  by (subst hex_unfold) simp

lemma u32_less: "unat val < 2 ^ 32" for val :: u32
  using unsigned_less [of val] by simp

lemma nibble_less: "nibble val i < 16"
  by (simp add: nibble_def)

lemma prefix_last: "prefix val 8 = unat val" "prefix val 0 = 0"
  using u32_less [of val] by (simp_all add: prefix_def)

lemma nibble_and: "i < 8 \<Longrightarrow> unat (drop_bit (28 - 4 * i) val AND 0xf) = nibble val i" for val :: u32
proof -
  assume "i < 8"
  then have e: "28 - 4 * i = 4 * (7 - i)" by simp
  have "drop_bit (28 - 4 * i) val AND 0xf = take_bit 4 (drop_bit (28 - 4 * i) val)"
    by (simp add: take_bit_eq_mask mask_eq_exp_minus_1)
  then have "unat (drop_bit (28 - 4 * i) val AND 0xf) = take_bit 4 (drop_bit (28 - 4 * i) (unat val))"
    by (simp add: unsigned_take_bit_eq unsigned_drop_bit_eq take_bit_nat_eq_self [OF u32_less])
  also have "\<dots> = nibble val i" unfolding e nibble_def by (simp add: take_bit_eq_mod drop_bit_eq_div power_mult)
  finally show ?thesis .
qed

lemma prefix_Suc: "i < 8 \<Longrightarrow> prefix val (Suc i) = 16 * prefix val i + nibble val i"
proof -
  assume "i < 8"
  then have "8 - i = Suc (7 - i)" by simp
  then have "16 ^ (8 - i) = (16 :: nat) ^ (7 - i) * 16" by simp
  then have "prefix val i = unat val div 16 ^ (7 - i) div 16" by (simp only: div_mult2_eq prefix_def)
  then show ?thesis using \<open>i < 8\<close> by (simp add: prefix_def nibble_def)
qed

lemma significant_step:
  "d < 16 \<Longrightarrow> significant (16 * p + d) = (if significant p = 0 \<and> d = 0 then 0 else Suc (significant p))"
  by (subst significant_def, subst hex_unfold) (use hex_length_pos [of p] in \<open>auto simp: significant_def\<close>)

lemma hex_loop_step:
  assumes "i < 8"
  shows "hex_loop val (i # is) (significant (prefix val i)) acc =
     hex_loop val is (if i = 7 then length (hex (unat val)) else significant (prefix val (Suc i)))
       (acc @ [hex_digit (nibble val i)])"
proof -
  let ?j = "drop_bit (28 - 4 * i) val AND 0xf"
  have j: "unat ?j = nibble val i" using assms by (rule nibble_and)
  have j10: "?j < 10 \<longleftrightarrow> nibble val i < 10" and j0: "?j = 0 \<longleftrightarrow> nibble val i = 0"
    by (simp_all add: j word_less_nat_alt flip: unat_eq_zero)
  have p: "significant (prefix val (Suc i)) =
      (if significant (prefix val i) = 0 \<and> nibble val i = 0 then 0 else Suc (significant (prefix val i)))"
    unfolding prefix_Suc [OF assms] by (rule significant_step) (rule nibble_less)
  have h: "(if i = 7 then length (hex (unat val)) else significant (prefix val (Suc i))) =
      (if significant (prefix val i) = 0 \<and> nibble val i = 0 then (if i = 7 then 1 else 0) else Suc (significant (prefix val i)))"
    using p hex_length_pos [of "unat val"]
    by (auto simp: prefix_last significant_def hex_unfold [of 0] split: if_splits)
  show ?thesis
    unfolding h by (simp add: Let_def j j10 j0 hex_digit_def zero_char add.commute)
qed

lemma hex_loop_digits:
  "i < 8 \<Longrightarrow> hex_loop val [i..<8] (significant (prefix val i)) acc =
     (length (hex (unat val)), acc @ map (\<lambda>i. hex_digit (nibble val i)) [i..<8])"
proof (induction "7 - i" arbitrary: i acc)
  case 0
  then have "i = 7" "[i..<8] = [7]" by (simp_all add: upt_rec)
  then show ?case by (simp only: hex_loop_step) simp
next
  case (Suc n)
  then have "[i..<8] = i # [Suc i..<8]" by (simp add: upt_rec)
  moreover have "i \<noteq> 7" using Suc.hyps(2) by simp
  moreover have "hex_loop val [Suc i..<8] (significant (prefix val (Suc i))) (acc @ [hex_digit (nibble val i)]) =
      (length (hex (unat val)), (acc @ [hex_digit (nibble val i)]) @ map (\<lambda>i. hex_digit (nibble val i)) [Suc i..<8])"
    using Suc by (intro Suc.hyps(1)) auto
  ultimately show ?case using Suc.prems by (simp only: hex_loop_step if_False) simp
qed

text \<open>The digits with leading zeros are the padded conversion.\<close>

fun hex_field :: "nat \<Rightarrow> nat \<Rightarrow> string" where
  "hex_field 0 n = []"
| "hex_field (Suc k) n = hex_field k (n div 16) @ [hex_digit (n mod 16)]"

lemma hex_field_map: "hex_field k n = map (\<lambda>i. hex_digit (n div 16 ^ (k - Suc i) mod 16)) [0..<k]"
proof (induction k arbitrary: n)
  case (Suc k)
  have "n div 16 div 16 ^ (k - Suc i) = n div 16 ^ (k - i)" if "i < k" for i
    using that power_Suc [of "16 :: nat" "k - Suc i"] by (simp add: div_mult2_eq Suc_diff_Suc)
  then show ?case by (simp add: Suc)
qed simp

lemma hex_field_0: "hex_field k 0 = replicate k CHR ''0''"
  by (induction k) (simp_all add: hex_digit_def zero_char replicate_append_same)

lemma hex_field_pad: "n < 16 ^ k \<Longrightarrow> 0 < k \<Longrightarrow> hex_field k n = pad_left CHR ''0'' k (hex n)"
proof (induction k n rule: hex_field.induct)
  case (2 k n)
  show ?case
  proof (cases "n < 16")
    case True
    then show ?thesis by (simp add: hex_field_0 hex_unfold [of n] pad_left_def)
  next
    case False
    then have "0 < k" using "2.prems" by (cases k) auto
    moreover have "n div 16 < 16 ^ k" using "2.prems" by (simp add: less_mult_imp_div_less mult.commute)
    ultimately show ?thesis using "2.IH" False by (simp add: hex_unfold [of n] pad_left_def)
  qed
qed simp

lemma hex_length_le: "n < 16 ^ k \<Longrightarrow> 0 < k \<Longrightarrow> length (hex n) \<le> k"
proof -
  have l: "length (hex_field k n) = k" for k n by (induction k n rule: hex_field.induct) simp_all
  assume "n < 16 ^ k" "0 < k"
  then show ?thesis using l [of k n] by (simp add: hex_field_pad pad_left_def)
qed

lemma drop_pad: "length t \<le> w \<Longrightarrow> length t \<le> n \<Longrightarrow> n \<le> w \<Longrightarrow> drop (w - n) (pad_left c w t) = pad_left c n t"
  by (simp add: pad_left_def)

lemma hprint2_text: "hprint2 y x val digits s = cprint y x (pad_left CHR ''0'' (nat (min 8 digits)) (hex (unat val))) s"
proof -
  let ?h = "hex (unat val)" and ?d = "if digits > 8 then 8 else digits"
  have v: "unat val < 16 ^ 8" using u32_less [of val] by simp
  have l: "length ?h \<le> 8" "0 < length ?h" using hex_length_le [OF v] hex_length_pos by simp_all
  have "map (\<lambda>i. hex_digit (nibble val i)) [0..<8] = hex_field 8 (unat val)"
    by (simp add: hex_field_map nibble_def del: upt_rec_numeral)
  moreover have "significant (prefix val 0) = 0" by (simp add: significant_def prefix_last)
  ultimately have h: "hex_loop val [0..<8] 0 [] = (length ?h, pad_left CHR ''0'' 8 ?h)"
    using hex_loop_digits [of 0 val "[]"] by (simp add: hex_field_pad [OF v])
  have "drop (nat (int (length (pad_left CHR ''0'' 8 ?h)) - (if int (length ?h) > ?d then int (length ?h) else ?d)))
      (pad_left CHR ''0'' 8 ?h) = pad_left CHR ''0'' (nat (min 8 digits)) ?h"
    using l by (auto simp: pad_left_def nat_diff_distrib min_def)
  then show ?thesis unfolding hprint2_def h by (simp add: Let_def)
qed

text \<open>
  \<^verbatim>\<open>hprint2\<close> prints the lower-case hexadecimal conversion of its argument, padded
  with zeros to the number of digits asked for; more than eight digits are taken as
  eight and a number with more significant digits than asked for is printed in full.
\<close>

theorem hprint2_format: "hprint2 y x val digits s = cprint y x (pad_left CHR ''0'' (nat (min 8 digits)) (hex (unat val))) s"
  by (rule hprint2_text)

section \<open>Decimal numbers\<close>

definition dec_digit :: "nat \<Rightarrow> char" where
  "dec_digit d = char_of (48 + d)"

text \<open>The \<open>k\<close> low digits, the highest first, as the loop of \<^verbatim>\<open>dprint\<close> finds them.\<close>

fun dec_field :: "nat \<Rightarrow> nat \<Rightarrow> string" where
  "dec_field 0 n = []"
| "dec_field (Suc k) n = dec_digit (n div 10 ^ k) # dec_field k (n mod 10 ^ k)"

lemma dec_unfold: "dec n = (if n < 10 then [dec_digit n] else dec (n div 10) @ [dec_digit (n mod 10)])"
  by (subst dec.simps) (simp add: dec_digit_def Let_def)

lemma dec_field_last: "n < 10 ^ Suc k \<Longrightarrow> dec_field (Suc k) n = dec_field k (n div 10) @ [dec_digit (n mod 10)]"
proof (induction k arbitrary: n)
  case (Suc k)
  have "n mod 10 ^ Suc k div 10 = n div 10 mod 10 ^ k" by (simp add: mod_mult2_eq)
  moreover have "n mod 10 ^ Suc k mod 10 = n mod 10" by (simp add: mod_mod_cancel)
  ultimately show ?case
    using Suc.IH [of "n mod 10 ^ Suc k"] by (simp add: div_mult2_eq)
qed simp

lemma dec_field_length: "length (dec_field k n) = k"
  by (induction k n rule: dec_field.induct) simp_all

lemma dec_field_dec: "10 ^ k \<le> n \<Longrightarrow> n < 10 ^ Suc k \<Longrightarrow> dec_field (Suc k) n = dec n"
proof (induction k arbitrary: n)
  case (Suc k)
  then have "dec_field (Suc k) (n div 10) = dec (n div 10)" by (intro Suc.IH) auto
  moreover have "\<not> n < 10" using Suc.prems le_trans [of 10 "10 ^ Suc k" n] by simp
  ultimately show ?case using Suc.prems(2) by (simp only: dec_field_last [of _ "Suc k"] dec_unfold [of n]) simp
qed (simp add: dec_unfold)

lemma dec_length_le: "n < 10 ^ Suc k \<Longrightarrow> length (dec n) \<le> Suc k"
proof (induction k arbitrary: n)
  case (Suc k)
  then have "length (dec (n div 10)) \<le> Suc k" by (intro Suc.IH) auto
  then show ?case by (subst dec_unfold) simp
qed (simp add: dec_unfold)

lemma dprint_left_step:
  assumes "n < 10 ^ Suc k" "k < 9"
  shows "dprint_left (of_nat (10 ^ k)) (of_nat n) flag acc =
     dprint_left (of_nat (10 ^ k) div 10) (of_nat (n mod 10 ^ k)) (flag \<or> n div 10 ^ k \<noteq> 0 \<or> k = 0)
       (acc @ [if flag \<or> n div 10 ^ k \<noteq> 0 \<or> k = 0 then dec_digit (n div 10 ^ k) else CHR '' ''])"
proof -
  let ?j = "of_nat (10 ^ k) :: u32" and ?d = "n div 10 ^ k"
  have p: "(10 :: nat) ^ k \<le> 10 ^ 8" using assms by (intro power_increasing) simp_all
  then have n: "n < 2 ^ 32" using assms by simp
  have d: "?d < 10" using assms by (simp add: less_mult_imp_div_less mult.commute)
  have div: "(of_nat n :: u32) div ?j = of_nat ?d" using n p by (intro u32_div_of_nat) simp_all
  have u: "unat (of_nat ?d :: u32) = ?d" "unat ?j = 10 ^ k" using d p by (simp_all only: unat_of_nat) simp_all
  have nz: "?j \<noteq> 0" using u by (metis power_not_zero unat_0 zero_neq_numeral)
  have one: "?j = 1 \<longleftrightarrow> k = 0" using u by (metis nat_power_eq_Suc_0_iff numeral_eq_one_iff of_nat_1 one_less_numeral_iff power_0 semiring_norm(76) unat_1 One_nat_def num.simps(4))
  have "(of_nat n :: u32) - of_nat ?d * ?j = of_nat (n - ?d * 10 ^ k)" by (simp add: of_nat_diff)
  then have m: "(of_nat n :: u32) - of_nat ?d * ?j = of_nat (n mod 10 ^ k)" by (simp only: minus_div_mult_eq_mod)
  have "\<not> unat (9 :: u32) < unat (of_nat ?d :: u32)" using d u by simp
  then have g9: "\<not> (of_nat ?d :: u32) > 9" by (simp only: word_less_nat_alt not_False_eq_True)
  have g: "(of_nat ?d :: u32) = 0 \<longleftrightarrow> ?d = 0" "digit (of_nat ?d) = dec_digit ?d"
    using d u by (simp_all add: digit_def dec_digit_def add.commute flip: unat_eq_zero)
  show ?thesis
    by (subst dprint_left.simps) (simp only: Let_def div nz one m g g9 if_False, simp)
qed

lemma dprint_left_text:
  assumes "n < 10 ^ Suc k" "k < 9"
  shows "dprint_left (of_nat (10 ^ k)) (of_nat n) flag acc =
     Some (acc @ (if flag then dec_field (Suc k) n else pad_left CHR '' '' (Suc k) (dec n)))"
  using assms
proof (induction k arbitrary: n flag acc)
  case 0
  then show ?case
    by (simp only: dprint_left_step) (simp add: dprint_left.simps [of 0] pad_left_def dec_unfold [of n])
next
  case (Suc k)
  have "(of_nat (10 ^ Suc k) :: u32) div of_nat 10 = of_nat (10 ^ Suc k div 10)"
    using Suc.prems power_increasing [of "Suc k" 8 "10 :: nat"] by (intro u32_div_of_nat) simp_all
  then have j: "(of_nat (10 ^ Suc k) :: u32) div 10 = of_nat (10 ^ k)" by simp
  have ih: "dprint_left (of_nat (10 ^ k)) (of_nat (n mod 10 ^ Suc k)) f a =
      Some (a @ (if f then dec_field (Suc k) (n mod 10 ^ Suc k) else pad_left CHR '' '' (Suc k) (dec (n mod 10 ^ Suc k))))" for f a
    using Suc.prems by (intro Suc.IH) simp_all
  show ?case
  proof (cases "n div 10 ^ Suc k = 0")
    case True
    then have "n < 10 ^ Suc k" by (simp add: div_eq_0_iff)
    then have "pad_left CHR '' '' (Suc (Suc k)) (dec n) = CHR '' '' # pad_left CHR '' '' (Suc k) (dec n)"
      "n mod 10 ^ Suc k = n"
      using dec_length_le [of n k] by (simp_all add: pad_left_def Suc_diff_le)
    then show ?thesis unfolding dprint_left_step [OF Suc.prems] j ih using True by simp
  next
    case False
    then have "10 ^ Suc k \<le> n" by (simp add: div_eq_0_iff)
    then have "dec_field (Suc (Suc k)) n = dec n" using Suc.prems by (intro dec_field_dec) simp_all
    moreover from this have "length (dec n) = Suc (Suc k)"
      by (metis dec_field_length)
    ultimately have "pad_left CHR '' '' (Suc (Suc k)) (dec n) = dec_field (Suc (Suc k)) n" by (simp only: pad_left_def) simp
    then show ?thesis unfolding dprint_left_step [OF Suc.prems] j ih using False by simp
  qed
qed

lemma pow_loop_eq: "pow_loop n j = j * 10 ^ n"
  by (induction n arbitrary: j) simp_all

text \<open>
  C37. \<^verbatim>\<open>dprint\<close> with \<^verbatim>\<open>right = 0\<close> prints a number that fits its field of one to nine characters
  in decimal, right-aligned and padded with blanks.
\<close>

theorem dprint_format:
  assumes "1 \<le> len" "len \<le> 9" "unat val < 10 ^ nat len"
  shows "dprint y x val len 0 s = Some (cprint y x (pad_left CHR '' '' (nat len) (dec (unat val))) s)"
proof -
  obtain k where k: "nat len = Suc k" "k < 9" "nat (len - 1) = k"
    using assms that [of "nat (len - 1)"] by auto
  have "(10 :: nat) ^ nat len \<le> 10 ^ 9" using assms by (intro power_increasing) simp_all
  then have "unat val < 10 ^ 9" using assms(3) by simp
  then have "\<not> val > 999999999" by (simp add: word_less_nat_alt)
  moreover have "dprint_left (pow_loop k 1) val False [] = Some (pad_left CHR '' '' (nat len) (dec (unat val)))"
    using dprint_left_text [of "unat val" k False "[]"] assms k by (simp add: pow_loop_eq)
  ultimately show ?thesis using assms k by (simp add: dprint_def Let_def)
qed

theorem dprint_format_witness: "dprint 3 10 450 6 0 blank_screen = Some (cprint 3 10 ''   450'' blank_screen)"
proof -
  have p: "pad_left CHR '' '' (nat 6) (dec (unat (450 :: u32))) = ''   450''" by code_simp
  have "unat (450 :: u32) < 10 ^ nat 6" by simp
  then have "dprint 3 10 450 6 0 blank_screen = Some (cprint 3 10 (pad_left CHR '' '' (nat 6) (dec (unat (450 :: u32)))) blank_screen)"
    by (intro dprint_format) simp_all
  then show ?thesis unfolding p .
qed

end
