(* ===== verification/Inter.thy ===== *)
theory Inter
  imports Screen
begin

text \<open>
  The interrupt handler of inter.c. The trap frame is a record, \<^verbatim>\<open>cr2\<close> a parameter of the
  handler and the words of the stack and the bytes at the program counter are read from
  the memory the screen lies in. The handler returns for an NMI and otherwise ends in
  an endless loop over \<^verbatim>\<open>check_input\<close>; \<open>polls\<close> runs any number of its rounds.
\<close>

section \<open>The handler\<close>

record eregs =
  t_ss :: u32
  t_ds :: u32
  t_esp :: u32
  t_ebp :: u32
  t_esi :: u32
  t_edi :: u32
  t_edx :: u32
  t_ecx :: u32
  t_ebx :: u32
  t_eax :: u32
  t_vect :: u32
  t_code :: u32
  t_eip :: u32
  t_cs :: u32
  t_eflag :: u32

definition codes :: "string list" where
  "codes =
     [''  Divide'', ''   Debug'', ''     NMI'', ''  Brkpnt'', ''Overflow'', ''   Bound'', ''  Inv_Op'',
      '' No_Math'', ''Double_Fault'', ''Seg_Over'', '' Inv_TSS'', ''  Seg_NP'', ''Stack_Fault'',
      ''Gen_Prot'', ''Page_Fault'', ''   Resvd'', ''     FPE'', ''Alignment'', '' Mch_Chk'', ''SIMD FPE'']"

definition LINE_SCROLL :: int where "LINE_SCROLL = 15"

text \<open>A label and the register behind it.\<close>

definition show_field :: "int \<Rightarrow> int \<Rightarrow> string \<Rightarrow> u32 \<Rightarrow> ('e, 'z) dmach_scheme \<Rightarrow> ('e, 'z) dmach_scheme" where
  "show_field y x label val s = hprint y (x + int (length label)) val (cprint y x label s)"

definition show_trap :: "u32 \<Rightarrow> eregs \<Rightarrow> ('e, 'z) dmach_scheme \<Rightarrow> ('e, 'z) dmach_scheme" where
  "show_trap address r s =
     (let line = LINE_SCROLL - 2;
          s = s\<lparr>mem := fill_attr (2 * 80 * nat (24 - LINE_SCROLL - 2)) 2 (SCREEN_ADR + 2 * 80 * line) 0x20 (mem s)\<rparr>;
          s = cprint line 0 ''Unexpected Interrupt - Halting'' s;
          s = cprint (line + 2) 0 '' Type: '' s;
          s = (if t_vect r \<le> 19 then cprint (line + 2) 7 (codes ! unat (t_vect r)) s else hprint (line + 2) 7 (t_vect r) s);
          s = show_field (line + 3) 0 ''   PC: '' (t_eip r) s;
          s = show_field (line + 4) 0 ''   CS: '' (t_cs r) s;
          s = show_field (line + 5) 0 ''Eflag: '' (t_eflag r) s;
          s = show_field (line + 6) 0 '' Code: '' (t_code r) s
      in if t_vect r = 14 then show_field (line + 7) 0 '' Addr: '' address s else s)"

definition show_regs :: "eregs \<Rightarrow> ('e, 'z) dmach_scheme \<Rightarrow> ('e, 'z) dmach_scheme" where
  "show_regs r s =
     (let line = LINE_SCROLL - 2;
          s = show_field (line + 2) 20 ''eax: '' (t_eax r) s;
          s = show_field (line + 3) 20 ''ebx: '' (t_ebx r) s;
          s = show_field (line + 4) 20 ''ecx: '' (t_ecx r) s;
          s = show_field (line + 5) 20 ''edx: '' (t_edx r) s;
          s = show_field (line + 6) 20 ''edi: '' (t_edi r) s;
          s = show_field (line + 7) 20 ''esi: '' (t_esi r) s;
          s = show_field (line + 8) 20 ''ebp: '' (t_ebp r) s;
          s = show_field (line + 9) 20 ''esp: '' (t_esp r) s;
          s = show_field (line + 7) 0 ''   DS: '' (t_ds r) s
      in show_field (line + 8) 0 ''   SS: '' (t_ss r) s)"

text \<open>A word and a byte of memory.\<close>

definition load32 :: "u32 \<Rightarrow> (int \<Rightarrow> u8) \<Rightarrow> u32" where
  "load32 a m = ucast (m (uint a)) + push_bit 8 (ucast (m (uint (a + 1)))) +
     push_bit 16 (ucast (m (uint (a + 2)))) + push_bit 24 (ucast (m (uint (a + 3))))"

fun stack_rows :: "int \<Rightarrow> u32 \<Rightarrow> nat list \<Rightarrow> ('e, 'z) dmach_scheme \<Rightarrow> ('e, 'z) dmach_scheme" where
  "stack_rows line esp [] s = s"
| "stack_rows line esp (i # is) s =
     (let a = esp + 4 * of_nat i; b = esp + 4 * (of_nat i + 12); y = line + 2 + int i;
          s = hprint y 38 a s;
          s = hprint y 47 (load32 a (mem s)) s;
          s = hprint y 57 b s;
          s = hprint y 66 (load32 b (mem s)) s
      in stack_rows line esp is s)"

fun code_bytes :: "int \<Rightarrow> u32 \<Rightarrow> nat list \<Rightarrow> ('e, 'z) dmach_scheme \<Rightarrow> ('e, 'z) dmach_scheme" where
  "code_bytes y eip [] s = s"
| "code_bytes y eip (i # is) s =
     code_bytes y eip is (hprint2 y (8 + 3 * int i) (ucast (mem s (uint (eip + of_nat i)))) 2 s)"

datatype 's handled = Returned 's | Polling 's

definition inter :: "u32 \<Rightarrow> eregs \<Rightarrow> ('e, 'z) dmach_scheme \<Rightarrow> ('e, 'z) dmach_scheme handled" where
  "inter cr2 r s =
     (let address = (if t_vect r = 14 then cr2 else 0)
      in if t_vect r = 2 then Returned s
         else let line = LINE_SCROLL - 2;
                  s = show_regs r (show_trap address r s);
                  s = stack_rows line (t_esp r) [0..<12] (cprint (line + 1) 38 ''Stack:'' s);
                  s = cprint (line + 11) 0 ''CS:EIP:                          '' s
              in Polling (code_bytes (line + 11) (t_eip r) [0..<10] s))"

fun polls :: "'e platform \<Rightarrow> nat \<Rightarrow> ('e, 'z) dmach_scheme \<Rightarrow> ('e, 'z) dmach_scheme" where
  "polls P 0 s = s"
| "polls P (Suc n) s = polls P n (check_input P s)"

section \<open>What stays on the screen\<close>

definition shows_text :: "int \<Rightarrow> int \<Rightarrow> string \<Rightarrow> ('e, 'z) dmach_scheme \<Rightarrow> bool" where
  "shows_text y x t s \<longleftrightarrow> (\<forall>k < length t. mem s (cell y (x + int k)) = ord8 (t ! k))"

abbreviation hex8 :: "u32 \<Rightarrow> string" where
  "hex8 v \<equiv> pad_left CHR ''0'' 8 (hex (unat v))"

lemma hex8_length [simp]: "length (hex8 v) = 8"
  using hex_length_le [of "unat v" 8] u32_less [of v] by (simp add: pad_left_def)

lemma hprint_cprint: "hprint y x v s = cprint y x (hex8 v) s"
  by (simp add: hprint_def hprint2_text)

lemma show_field_cprint:
  "show_field y x l v s = cprint y (x + int (length l)) (hex8 v) (cprint y x l s)"
  by (simp add: show_field_def hprint_cprint)

lemma shows_same [simp]: "shows_text y x t (cprint y x t s)"
  by (simp add: shows_text_def cprint_at)

lemma cell_neq: "0 \<le> x \<Longrightarrow> x < 80 \<Longrightarrow> 0 \<le> x' \<Longrightarrow> x' < 80 \<Longrightarrow> y \<noteq> y' \<or> x \<noteq> x' \<Longrightarrow> cell y x \<noteq> cell y' x'"
  by (cases y y' rule: linorder_cases) (auto simp: cell_def)

lemma shows_other [simp]:
  assumes "0 \<le> x" "x + int (length t) \<le> 80" "0 \<le> x'" "x' + int (length t') \<le> 80"
    and "y \<noteq> y' \<or> x + int (length t) \<le> x' \<or> x' + int (length t') \<le> x"
  shows "shows_text y x t (cprint y' x' t' s) \<longleftrightarrow> shows_text y x t s"
proof -
  have "mem (cprint y' x' t' s) (cell y (x + int k)) = mem s (cell y (x + int k))" if "k < length t" for k
    by (intro cprint_other cell_neq) (use assms that in auto)
  then show ?thesis by (simp add: shows_text_def)
qed

lemma shows_stack_rows [simp]:
  "0 \<le> x \<Longrightarrow> x + int (length t) \<le> 38 \<Longrightarrow> shows_text y x t (stack_rows line esp is s) \<longleftrightarrow> shows_text y x t s"
  by (induction "is" arbitrary: s) (simp_all add: Let_def hprint_cprint)

lemma hex2_length: "length (pad_left CHR ''0'' 2 (hex (unat (b :: u8)))) = 2"
proof -
  have "unat b < 16 ^ 2" using unat_u8_less [of b] by simp
  then show ?thesis using hex_length_le [of "unat b" 2] by (simp add: pad_left_def)
qed

lemma shows_code_bytes [simp]:
  "0 \<le> x \<Longrightarrow> x + int (length t) \<le> 80 \<Longrightarrow> y \<noteq> y' \<Longrightarrow> \<forall>i \<in> set is. i < 10 \<Longrightarrow>
   shows_text y x t (code_bytes y' eip is s) \<longleftrightarrow> shows_text y x t s"
  by (induction "is" arbitrary: s) (simp_all add: hprint2_text hex2_length)

lemma shows_polls [simp]: "0 \<le> y \<Longrightarrow> 0 \<le> x \<Longrightarrow> shows_text y x t (polls P n s) \<longleftrightarrow> shows_text y x t s"
proof (induction n arbitrary: s)
  case (Suc n)
  have "shows_text y x t (check_input P s) \<longleftrightarrow> shows_text y x t s"
    using Suc.prems by (auto simp: shows_text_def check_input_def get_key_def inb_def outb_def cell_def SCREEN_ADR_def split: prod.splits)
  then show ?case using Suc by simp
qed simp

definition type_text :: "eregs \<Rightarrow> string" where
  "type_text r = (if t_vect r \<le> 19 then codes ! unat (t_vect r) else hex8 (t_vect r))"

definition report :: "eregs \<Rightarrow> (int \<times> int \<times> string) list" where
  "report r =
     [(13, 0, ''Unexpected Interrupt - Halting''), (15, 0, '' Type: ''),
      (15, 7, type_text r),
      (16, 0, ''   PC: ''), (16, 7, hex8 (t_eip r)), (17, 0, ''   CS: ''), (17, 7, hex8 (t_cs r)),
      (18, 0, ''Eflag: ''), (18, 7, hex8 (t_eflag r)), (19, 0, '' Code: ''), (19, 7, hex8 (t_code r)),
      (20, 0, ''   DS: ''), (20, 7, hex8 (t_ds r)), (21, 0, ''   SS: ''), (21, 7, hex8 (t_ss r)),
      (15, 20, ''eax: ''), (15, 25, hex8 (t_eax r)), (16, 20, ''ebx: ''), (16, 25, hex8 (t_ebx r)),
      (17, 20, ''ecx: ''), (17, 25, hex8 (t_ecx r)), (18, 20, ''edx: ''), (18, 25, hex8 (t_edx r)),
      (19, 20, ''edi: ''), (19, 25, hex8 (t_edi r)), (20, 20, ''esi: ''), (20, 25, hex8 (t_esi r)),
      (21, 20, ''ebp: ''), (21, 25, hex8 (t_ebp r)), (22, 20, ''esp: ''), (22, 25, hex8 (t_esp r))]"

lemma codes_length: "v < 20 \<Longrightarrow> length (codes ! v) \<le> 12"
proof -
  have "\<forall>c \<in> set codes. length c \<le> 12" "length codes = 20" by (simp_all add: codes_def)
  then show "v < 20 \<Longrightarrow> length (codes ! v) \<le> 12" by simp
qed

lemma type_length: "7 + int (length (type_text r)) \<le> 20"
  using codes_length [of "unat (t_vect r)"] by (auto simp: type_text_def word_le_nat_alt)

lemma type_cprint:
  "(if t_vect r \<le> 19 then cprint y x (codes ! unat (t_vect r)) s else hprint y x (t_vect r) s) = cprint y x (type_text r) s"
  by (simp add: type_text_def hprint_cprint)

lemma inter_polling:
  "t_vect r \<noteq> 2 \<Longrightarrow> inter cr2 r s = Polling (code_bytes 24 (t_eip r) [0..<10]
     (cprint 24 0 ''CS:EIP:                          '' (stack_rows 13 (t_esp r) [0..<12]
       (cprint 14 38 ''Stack:'' (show_regs r (show_trap cr2 r s))))))"
  by (simp add: inter_def LINE_SCROLL_def show_trap_def Let_def)

lemmas report_simps = LINE_SCROLL_def show_regs_def show_trap_def type_cprint show_field_cprint Let_def

text \<open>
  C34. An NMI returns with nothing changed. For every other vector the handler ends in its
  polling loop, and after any number of rounds of that loop the screen shows the exception by name (by number
  beyond 19), every register of the trap frame in eight hexadecimal digits, and their labels.
\<close>

theorem inter_report:
  "if t_vect r = 2 then inter cr2 r s = Returned s
   else \<exists>t. inter cr2 r s = Polling t \<and> (\<forall>n. list_all (\<lambda>(y, x, text). shows_text y x text (polls P n t)) (report r))"
proof (cases "t_vect r = 2")
  case True
  then show ?thesis by (simp add: inter_def)
next
  case False
  then show ?thesis using type_length [of r] unfolding inter_polling [OF False] report_simps
    by (cases "t_vect r = 14") (simp_all add: report_def del: upt_rec_numeral)
qed

section \<open>The address of a page fault\<close>

text \<open>States that differ at most in the bytes of \<open>A\<close>.\<close>

definition agree_off :: "int set \<Rightarrow> ('e, 'z) dmach_scheme \<Rightarrow> ('e, 'z) dmach_scheme \<Rightarrow> bool" where
  "agree_off A s t \<longleftrightarrow> t = s\<lparr>mem := mem t\<rparr> \<and> (\<forall>a. a \<notin> A \<longrightarrow> mem s a = mem t a)"

definition cells :: "int \<Rightarrow> int \<Rightarrow> nat \<Rightarrow> int set" where
  "cells y x n = {cell y (x + int k) | k. k < n}"

lemma put_chars_agree:
  "\<forall>a. a \<notin> A \<longrightarrow> m a = m' a \<Longrightarrow> \<forall>a. a \<notin> A - {p + 2 * int k | k. k < length t} \<longrightarrow> put_chars p t m a = put_chars p t m' a"
proof (intro allI impI)
  fix a assume m: "\<forall>a. a \<notin> A \<longrightarrow> m a = m' a" and a: "a \<notin> A - {p + 2 * int k | k. k < length t}"
  show "put_chars p t m a = put_chars p t m' a"
  proof (cases "\<exists>k < length t. a = p + 2 * int k")
    case True
    then show ?thesis by (auto simp: put_chars_at)
  next
    case False
    then show ?thesis using m a by (subst (1 2) put_chars_other) auto
  qed
qed

lemma agree_off_cprint: "agree_off A s t \<Longrightarrow> agree_off (A - cells y x (length str)) (cprint y x str s) (cprint y x str t)"
proof -
  let ?p = "SCREEN_ADR + 160 * y + 2 * x"
  assume st: "agree_off A s t"
  have "cells y x (length str) = {?p + 2 * int k | k. k < length str}" by (auto simp: cells_def cell_def algebra_simps)
  moreover have "\<forall>a. a \<notin> A - {?p + 2 * int k | k. k < length str} \<longrightarrow> put_chars ?p str (mem s) a = put_chars ?p str (mem t) a"
    using st by (intro put_chars_agree) (simp add: agree_off_def)
  moreover obtain m where "t = s\<lparr>mem := m\<rparr>" using st by (simp add: agree_off_def) blast
  ultimately show ?thesis by (simp add: agree_off_def cprint_def)
qed

lemma agree_off_same: "agree_off A s t \<Longrightarrow> agree_off A (cprint y x str s) (cprint y x str t)"
  using agree_off_cprint [of A s t y x str] by (auto simp: agree_off_def)

lemma agree_off_new: "length t = n \<Longrightarrow> length t' = n \<Longrightarrow> agree_off (cells y x n) (cprint y x t s) (cprint y x t' s)"
proof -
  assume l: "length t = n" "length t' = n"
  have "mem (cprint y x t s) a = mem (cprint y x t' s) a" if "a \<notin> cells y x n" for a
    using that l by (subst (1 2) cprint_other) (auto simp: cells_def)
  then show ?thesis by (simp add: agree_off_def cprint_def)
qed

lemma agree_off_refl: "agree_off A s s"
  by (simp add: agree_off_def)

lemma agree_off_empty: "agree_off {} s t \<Longrightarrow> s = t"
proof -
  assume e: "agree_off {} s t"
  then have "mem s = mem t" by (auto simp: agree_off_def)
  moreover have "t = s\<lparr>mem := mem t\<rparr>" using e by (simp add: agree_off_def)
  ultimately show ?thesis by (metis dmach.surjective dmach.update_convs(1))
qed

lemma agree_off_overwrite: "agree_off (cells y x n) s t \<Longrightarrow> length str = n \<Longrightarrow> cprint y x str s = cprint y x str t"
  using agree_off_cprint [of "cells y x n" s t y x str] by (simp add: agree_off_empty)

lemma cprint_cong: "s = t \<Longrightarrow> cprint y x str s = cprint y x str t"
  by simp

lemma show_trap_agree: "agree_off (cells 20 7 8) (show_trap cr2 r s) (show_trap cr2' r s)"
  by (cases "t_vect r = 14") (simp_all add: show_trap_def show_field_cprint LINE_SCROLL_def Let_def agree_off_new agree_off_refl)

text \<open>
  C35. The address of a page fault is lost: the DS register is printed over it, so the
  handler ends in the same state whatever \<^verbatim>\<open>cr2\<close> holds.
\<close>

theorem inter_fault_address_lost: "inter cr2 r s = inter cr2' r s"
proof (cases "t_vect r = 2")
  case False
  have "show_regs r (show_trap cr2 r s) = show_regs r (show_trap cr2' r s)"
    by (simp add: show_regs_def Let_def LINE_SCROLL_def show_field_cprint, rule cprint_cong, rule cprint_cong,
        rule agree_off_overwrite [where n = 8], (rule agree_off_same)+, rule show_trap_agree, simp)
  then show ?thesis using False by (simp add: inter_polling)
qed (simp add: inter_def)

section \<open>The memory written\<close>

text \<open>The lines from \<^verbatim>\<open>LINE_SCROLL - 2\<close> on that the handler writes.\<close>

abbreviation trap_region :: "int set" where
  "trap_region \<equiv> {cell 13 0..<cell 27 0}"

lemma cells_region: "13 \<le> y \<Longrightarrow> y \<le> 26 \<Longrightarrow> 0 \<le> x \<Longrightarrow> x + int n \<le> 80 \<Longrightarrow> cells y x n \<subseteq> trap_region"
  by (auto simp: cells_def cell_def)

lemma agree_off_extend:
  "agree_off trap_region s t \<Longrightarrow> 13 \<le> y \<Longrightarrow> y \<le> 26 \<Longrightarrow> 0 \<le> x \<Longrightarrow> x + int (length str) \<le> 80 \<Longrightarrow>
   agree_off trap_region s (cprint y x str t)"
proof -
  assume st: "agree_off trap_region s t" and b: "13 \<le> y" "y \<le> 26" "0 \<le> x" "x + int (length str) \<le> 80"
  have "mem (cprint y x str t) a = mem t a" if "a \<notin> trap_region" for a
    using cells_region [OF b] that by (intro cprint_other) (auto simp: cells_def)
  moreover obtain m where "t = s\<lparr>mem := m\<rparr>" using st by (simp add: agree_off_def) blast
  ultimately show ?thesis using st by (simp add: agree_off_def cprint_def)
qed

lemma fill_attr_other: "a < p \<or> p + step * int n \<le> a \<Longrightarrow> 0 < step \<Longrightarrow> fill_attr n step p c m a = m a"
proof (induction n arbitrary: p m)
  case (Suc n)
  have "0 < step * int (Suc n)" using Suc.prems by simp
  then have "a \<noteq> p" using Suc.prems(1) by linarith
  then show ?case using Suc by (auto simp: algebra_simps)
qed simp

lemma agree_off_clear: "agree_off trap_region s (s\<lparr>mem := fill_attr 1120 2 (SCREEN_ADR + 2080) c (mem s)\<rparr>)"
  by (auto simp: agree_off_def cell_def fill_attr_other)

lemma agree_off_stack_rows:
  "agree_off trap_region s t \<Longrightarrow> \<forall>i \<in> set is. i < 12 \<Longrightarrow> agree_off trap_region s (stack_rows 13 esp is t)"
  by (induction "is" arbitrary: t) (simp_all add: Let_def hprint_cprint agree_off_extend)

lemma agree_off_code_bytes:
  "agree_off trap_region s t \<Longrightarrow> \<forall>i \<in> set is. i < 10 \<Longrightarrow> agree_off trap_region s (code_bytes 24 eip is t)"
  by (induction "is" arbitrary: t) (simp_all add: hprint2_text hex2_length agree_off_extend)

lemma stack_rows_append: "stack_rows line esp (is @ js) s = stack_rows line esp js (stack_rows line esp is s)"
  by (induction "is" arbitrary: s) (simp_all add: Let_def)

text \<open>The polling loop touches the warm-start flag only.\<close>

lemma polls_mem: "a \<noteq> 0x472 \<Longrightarrow> a \<noteq> 0x473 \<Longrightarrow> mem (polls P n t) a = mem t a"
proof (induction n arbitrary: t)
  case (Suc n)
  have "mem (check_input P t) a = mem t a"
    using Suc.prems by (auto simp: check_input_def get_key_def inb_def outb_def split: prod.splits)
  then show ?case using Suc by simp
qed simp

text \<open>
  C36. The report of an exception changes memory only in the lines 13 to 26 counted from the start of
  the screen, and any number of rounds of the polling loop only adds the two bytes of the warm-start flag
  at \<^verbatim>\<open>0x472\<close>, which the escape key sets. The screen has 25 lines, so the last two lie behind its
  end: the stack dump runs over it, and its last row is stored at line 26. The static
  buffer that \<^verbatim>\<open>hprint\<close> converts its number in is a value here and not part of this memory.
\<close>

theorem inter_memory:
  assumes "t_vect r \<noteq> 2"
  shows "\<exists>t. inter cr2 r s = Polling t \<and> agree_off {cell 13 0..<cell 27 0} s t \<and>
    (\<forall>n a. a \<notin> {cell 13 0..<cell 27 0} \<union> {0x472, 0x473} \<longrightarrow> mem (polls P n t) a = mem s a) \<and>
    SCREEN_END_ADR = cell 25 0 \<and> shows_text 26 57 (hex8 (t_esp r + 92)) t"
proof -
  have u: "[0..<12] = [0..<11] @ [11]" by code_simp
  have "agree_off trap_region s (show_trap cr2 r s)"
    using type_length [of r] unfolding report_simps
    by (cases "t_vect r = 14") (simp_all add: agree_off_extend agree_off_clear)
  then have "agree_off trap_region s (show_regs r (show_trap cr2 r s))"
    by (simp add: show_regs_def Let_def LINE_SCROLL_def show_field_cprint agree_off_extend)
  moreover have "SCREEN_END_ADR = cell 25 0" by (simp add: SCREEN_END_ADR_def SCREEN_WIDTH_def SCREEN_HEIGHT_def cell_def)
  ultimately have "\<exists>t. inter cr2 r s = Polling t \<and> agree_off trap_region s t \<and>
      SCREEN_END_ADR = cell 25 0 \<and> shows_text 26 57 (hex8 (t_esp r + 92)) t"
    unfolding inter_polling [OF assms]
    by (simp add: agree_off_code_bytes agree_off_stack_rows agree_off_extend u stack_rows_append hprint_cprint Let_def
        del: upt_rec_numeral)
  then show ?thesis using polls_mem [of _ P] unfolding agree_off_def by fastforce
qed

definition sample_trap :: eregs where
  "sample_trap = \<lparr>t_ss = 0x18, t_ds = 0x18, t_esp = 0x9f000, t_ebp = 0x9f010, t_esi = 1, t_edi = 2, t_edx = 3, t_ecx = 4,
     t_ebx = 5, t_eax = 6, t_vect = 13, t_code = 0, t_eip = 0x10000, t_cs = 0x10, t_eflag = 0x46\<rparr>"

theorem inter_memory_witness:
  "\<exists>t. inter 0 sample_trap blank_screen = Polling t \<and> mem (polls (ideal (\<lambda>_. (1, 1))) 5 t) 0xb8000 = 0x20 \<and>
     shows_text 26 57 (hex8 (0x9f000 + 92)) t"
  using inter_memory [of sample_trap 0 blank_screen "ideal (\<lambda>_. (1, 1))"]
  by (auto simp: sample_trap_def agree_off_def cell_def SCREEN_ADR_def blank_screen_def dmach.defs tmach.defs)

end
