(* ===== verification/Label.thy ===== *)
theory Label
  imports Erase
begin

text \<open>
  What fat.c protects. \<open>fat_label\<close> is the label of a boot sector, \<open>boot_block\<close> the boot sector of a
  partition and \<open>labelled\<close> the disks the program must skip; under the contract of the INT 13h
  read services, \<^verbatim>\<open>contain_fat_label\<close> decides \<open>labelled\<close> and \<^verbatim>\<open>wipe_disk\<close> leaves such a disk alone.
\<close>

section \<open>The label of a boot sector\<close>

definition fat_label :: "nat \<Rightarrow> bytes \<Rightarrow> string" where
  "fat_label off b = takeWhile (\<lambda>c. c \<noteq> CHR '' '' \<and> c \<noteq> CHR 0x00) (map chr8 (take 11 (drop off b)))"

lemma nul_char: "CHR 0x00 = chr8 0"
  by code_simp

lemma cstr_blanks:
  "cstr (map (\<lambda>b. if chr8 b = CHR '' '' then 0 else b) (bs @ [0])) = takeWhile (\<lambda>c. c \<noteq> CHR '' '' \<and> c \<noteq> CHR 0x00) (map chr8 bs)"
  by (induction bs) (simp_all add: cstr_def nul_char)

lemma cstr_label: "cstr (label_copy b off) = fat_label off b"
  by (simp only: label_copy_def fat_label_def FAT_LABEL_LEN_def cstr_blanks)

lemma nul_free_label: "nul_free (fat_label off b)"
  by (auto simp: nul_free_def fat_label_def code_def nul_char chr8_def dest!: set_takeWhileD)

lemma label_matches_iff:
  "nul_free skip \<Longrightarrow> label_matches skip b \<longleftrightarrow> skip = fat_label 71 b \<or> skip = fat_label 43 b"
  by (simp add: label_matches_def cstr_label nul_free_label fat_boot_sector_32_def fat_boot_sector_16_def)

section \<open>The contract of the read services\<close>

text \<open>A request of one sector succeeds, says so and stores the sector in the transfer buffer.\<close>

definition delivers :: "'e platform \<Rightarrow> real_area \<Rightarrow> 'e \<Rightarrow> bytes \<Rightarrow> bool" where
  "delivers P a e b \<longleftrightarrow>
     (case p_bios P a e of (cf, a', _) \<Rightarrow>
        \<not> cf \<and> r_al (reg a') = r_al (reg a) \<and> dap_nsectors (dap a') = dap_nsectors (dap a) \<and> take 512 (rbuf a') = b)"

definition sectors_512 :: "disks \<Rightarrow> u8 \<Rightarrow> bool" where
  "sectors_512 D d \<longleftrightarrow> (\<forall>k. length (D d k) = 512)"

definition readable :: "'e platform \<Rightarrow> ('e \<Rightarrow> disks) \<Rightarrow> (u8 \<Rightarrow> nat \<times> nat) \<Rightarrow> nat \<Rightarrow> disk_param \<Rightarrow> bool" where
  "readable P D G B param \<longleftrightarrow>
     (\<forall>a e c sec. sectors_512 (D e) (disk_id param) \<and> length (rbuf a) = MAX_SECTOR_BUFFER_SIZE \<and> r_ah (reg a) = 0x02 \<and> r_dl (reg a) = disk_id param \<and> r_al (reg a) = 1 \<and> chs_buffer a = B \<and>
        get_chs_from_pack (r_cx (reg a)) = (c, sec) \<and> \<not> chs_outside param c (uint (r_dh (reg a))) sec \<longrightarrow>
        delivers P a e (D e (disk_id param) (chs_block (G (disk_id param)) c (uint (r_dh (reg a))) sec))) \<and>
     (\<forall>a e. sectors_512 (D e) (disk_id param) \<and> length (rbuf a) = MAX_SECTOR_BUFFER_SIZE \<and> r_ah (reg a) = 0x42 \<and> r_dl (reg a) = disk_id param \<and> dap_nsectors (dap a) = 1 \<and> r_al (reg a) = 0 \<and>
        lba_buffer a = B \<and> dap_begin (dap a) < ext_nsectors (ext param) \<longrightarrow>
        delivers P a e (D e (disk_id param) (unat (dap_begin (dap a)))))"

lemma readable_chs:
  "readable P D G B param \<Longrightarrow> sectors_512 (D e) (disk_id param) \<Longrightarrow> length (rbuf a) = MAX_SECTOR_BUFFER_SIZE \<Longrightarrow> chs_buffer a = B \<Longrightarrow> r_ah (reg a) = 0x02 \<Longrightarrow> r_dl (reg a) = disk_id param \<Longrightarrow> r_al (reg a) = 1 \<Longrightarrow>
     get_chs_from_pack (r_cx (reg a)) = (c, sec) \<Longrightarrow> \<not> chs_outside param c (uint (r_dh (reg a))) sec \<Longrightarrow>
     delivers P a e (D e (disk_id param) (chs_block (G (disk_id param)) c (uint (r_dh (reg a))) sec))"
  by (simp add: readable_def)

lemma readable_lba:
  "readable P D G B param \<Longrightarrow> sectors_512 (D e) (disk_id param) \<Longrightarrow> length (rbuf a) = MAX_SECTOR_BUFFER_SIZE \<Longrightarrow> lba_buffer a = B \<Longrightarrow> r_ah (reg a) = 0x42 \<Longrightarrow> r_dl (reg a) = disk_id param \<Longrightarrow> r_al (reg a) = 0 \<Longrightarrow>
     dap_nsectors (dap a) = 1 \<Longrightarrow> dap_begin (dap a) < ext_nsectors (ext param) \<Longrightarrow>
     delivers P a e (D e (disk_id param) (unat (dap_begin (dap a))))"
  by (simp add: readable_def)

definition chs_inside :: "disk_param \<Rightarrow> int \<Rightarrow> int \<Rightarrow> int \<Rightarrow> bool" where
  "chs_inside param c h sec \<longleftrightarrow> varify_chs c h sec = 0 \<and> \<not> chs_outside param c h sec"

lemma rbuf_fixed_call: "rbuf_fixed P \<Longrightarrow> p_bios P a e = (cf, a', e') \<Longrightarrow> length (rbuf a') = length (rbuf a)"
  unfolding rbuf_fixed_def by (metis fst_conv snd_conv)

lemma read_sectors_chs_block:
  assumes rd: "readable P D G B param" and k: "sectors_512 (D (dev s)) (disk_id param)" and s: "ready B s" and p: "chs_sector_size param = 512" and l: "512 \<le> length buffer"
    and fx: "rbuf_fixed P" and c: "chs_inside param c h sec"
    and b: "b = D (dev s) (disk_id param) (chs_block (G (disk_id param)) c h sec)"
  shows "fst (read_sectors_chs P param c h sec 1 buffer 1024 s) = (0, b @ drop 512 buffer, 512)" "length b = 512"
proof -
  let ?bx = "ucast (p_real_buffer (ptrs s) XOR push_bit 4 (ucast REAL_CODE_SEG)) :: u16"
  let ?r = "set_bx ?bx ((chs_request 0x02 param c h sec 1 (reg (ra s)))\<lparr>r_es := REAL_CODE_SEG, r_si := 0, r_di := 0\<rparr>)"
  let ?a = "(ra s)\<lparr>reg := ?r\<rparr>"
  have v: "varify_chs c h sec = 0" "\<not> chs_outside param c h sec" using c by (simp_all add: chs_inside_def)
  obtain cf a' e' where call: "p_bios P ?a (dev s) = (cf, a', e')" by (cases "p_bios P ?a (dev s)")
  have f: "r_ah ?r = 0x02" "r_dl ?r = disk_id param" "get_chs_from_pack (r_cx ?r) = (c, sec)" "uint (r_dh ?r) = h"
    using chs_request_fields [where nsector = 1 and b = ?bx and fn = 2 and param = param and r = "reg (ra s)" and es = REAL_CODE_SEG, OF v(1) _ refl]
    by simp_all
  have "r_al ?r = 1" by (simp add: chs_request_def set_bx_def)
  note f = f this
  have "chs_buffer ?a = B"
    using s int13_2_buffer [of "p_real_buffer (ptrs s)"] by (simp add: ready_def chs_buffer_def set_bx_def)
  then have "delivers P ?a (dev s) (D (dev s) (disk_id param) (chs_block (G (disk_id param)) c (uint (r_dh (reg ?a))) sec))"
    using s by (intro readable_chs [OF rd k]) (simp_all add: f v ready_def)
  then have "delivers P ?a (dev s) b" by (simp add: b f)
  then have a': "\<not> cf" "r_al (reg a') = 1" "take 512 (rbuf a') = b" using f call by (simp_all add: delivers_def)
  have len: "length (rbuf a') = MAX_SECTOR_BUFFER_SIZE"
    using fx s call rbuf_fixed_call by (fastforce simp: ready_def)
  show "length b = 512" using k by (simp add: b sectors_512_def)
  show "fst (read_sectors_chs P param c h sec 1 buffer 1024 s) = (0, b @ drop 512 buffer, 512)"
    using v p a' len l call
    by (simp add: read_sectors_chs_def sector_chs_rw_def int13_2_def int13_call_def query_pcbios_def upd_reg_def
        BIOS_MAX_SECTOR_CNT_def MAX_SECTOR_BUFFER_SIZE_def chs_done_def memcpy_buf_exact Let_def)
qed

lemma read_sectors_lba_block:
  assumes rd: "readable P D G B param" and k: "sectors_512 (D (dev s)) (disk_id param)" and s: "ready B s" and p: "lba_disk param" and l: "512 \<le> length buffer"
    and fx: "rbuf_fixed P" and lba: "lba < ext_nsectors (ext param)"
    and b: "b = D (dev s) (disk_id param) (unat lba)"
  shows "fst (read_sectors_lba P param lba 1 buffer 1024 s) = (0, b @ drop 512 buffer, 512)" "length b = 512"
proof -
  let ?d = "(dap (ra s))\<lparr>dap_nsectors := 1, dap_begin := lba, dap_size := 0x10, dap_unused := 0,
        dap_offset := ucast (p_real_buffer (ptrs s) AND 0xffff),
        dap_base := ucast (drop_bit 4 (p_real_buffer (ptrs s) AND 0xf0000))\<rparr>"
  let ?a = "(ra s)\<lparr>dap := ?d,
       reg := (lba_request 0x42 param 0 (reg (ra s)))\<lparr>r_si := ucast (p_real_dap (ptrs s) AND 0xffff), r_di := 0\<rparr>\<rparr>"
  have le: "\<not> lba > ext_nsectors (ext param) - 1" by (rule lba_in_range [OF lba])
  obtain cf a' e' where call: "p_bios P ?a (dev s) = (cf, a', e')" by (cases "p_bios P ?a (dev s)")
  have "lba_buffer ?a = B"
    using s int13_3_buffer [of "p_real_buffer (ptrs s)"] by (simp add: ready_def lba_buffer_def)
  then have "delivers P ?a (dev s) (D (dev s) (disk_id param) (unat (dap_begin (dap ?a))))"
    using s by (intro readable_lba [OF rd k]) (simp_all add: lba_request_def lba ready_def)
  then have "delivers P ?a (dev s) b" by (simp add: b)
  then have a': "\<not> cf" "r_al (reg a') = 0" "dap_nsectors (dap a') = 1" "take 512 (rbuf a') = b"
    using call by (simp_all add: delivers_def lba_request_def)
  have len: "length (rbuf a') = MAX_SECTOR_BUFFER_SIZE"
    using fx s call rbuf_fixed_call by (fastforce simp: ready_def)
  show "length b = 512" using k by (simp add: b sectors_512_def)
  show "fst (read_sectors_lba P param lba 1 buffer 1024 s) = (0, b @ drop 512 buffer, 512)"
    using p a' len l call le
    by (simp add: read_sectors_lba_def sectors_lba_rw_def lba_disk_def Let_def int13_3_def int13_call_def query_pcbios_def upd_reg_def
        BIOS_MAX_SECTOR_CNT_def MAX_SECTOR_BUFFER_SIZE_def memcpy_buf_exact)
qed

section \<open>Labelled disks\<close>

text \<open>
  The boot sector of a partition that the scan considers. The types are those of fat.c, 0B, 0C, 0E
  and EF; FAT partitions of the types 01, 04 and 06 are not among them, although README.md
  promises that FAT16 labels are skipped. \<open>labelled\<close> is therefore what the code means by a labelled disk, not
  what README.md does.
\<close>

definition boot_block :: "disks \<Rightarrow> (u8 \<Rightarrow> nat \<times> nat) \<Rightarrow> disk_param \<Rightarrow> mbr_entry \<Rightarrow> bytes option" where
  "boot_block D G param m =
     (let d = disk_id param; (c, sec) = get_chs_from_pack (me_begin_cylinder_sector m); h = uint (me_begin_head m);
          by_chs = (if chs_inside param c h sec then Some (D d (chs_block (G d) c h sec)) else None);
          by_lba = (if has_ext param \<noteq> 0 \<and> ucast (me_lba_begin m) < ext_nsectors (ext param)
                    then Some (D d (unat (me_lba_begin m))) else None)
      in if me_type m = 0xB then by_chs
         else if me_type m = 0xC \<or> me_type m = 0xE then by_lba
         else if me_type m = 0xEF then (if by_chs = None then by_lba else by_chs)
         else None)"

definition labelled :: "disks \<Rightarrow> (u8 \<Rightarrow> nat \<times> nat) \<Rightarrow> disk_param \<Rightarrow> string \<Rightarrow> bool" where
  "labelled D G param skip \<longleftrightarrow>
     list_ex (\<lambda>i. case boot_block D G param (mbr_entry_at (D (disk_id param) 0) i) of
        None \<Rightarrow> False | Some b \<Rightarrow> skip = fat_label 71 b \<or> skip = fat_label 43 b) [0..<4]"

text \<open>The contract and the state under which the scan runs.\<close>

definition scan_ok :: "'e platform \<Rightarrow> ('e \<Rightarrow> disks) \<Rightarrow> (u8 \<Rightarrow> nat \<times> nat) \<Rightarrow> nat \<Rightarrow> disk_param \<Rightarrow> bool" where
  "scan_ok P D G B param \<longleftrightarrow> disk_image P D G B \<and> readable P D G B param \<and>
     (has_ext param \<noteq> 0 \<longrightarrow> ext_bytes_per_sector (ext param) = 512 \<and> ext_nsectors (ext param) \<noteq> 0) \<and> length (p_stack P) = 1024"

lemma read_chs_outside:
  "\<not> chs_inside param c h sec \<Longrightarrow> read_sectors_chs P param c h sec n buffer 1024 s = ((-1, buffer, 1024), s)"
  by (auto simp: read_sectors_chs_def sector_chs_rw_def chs_inside_def varify_chs_def split: if_splits)

lemma read_lba_outside:
  assumes "\<not> (has_ext param \<noteq> 0 \<and> lba < ext_nsectors (ext param))" "has_ext param \<noteq> 0 \<longrightarrow> ext_nsectors (ext param) \<noteq> 0"
  shows "read_sectors_lba P param lba n buffer 1024 s = ((-1, buffer, 1024), s)"
proof -
  have "has_ext param = 0 \<or> lba > ext_nsectors (ext param) - 1"
    using assms unat_minus_one [of "ext_nsectors (ext param)"] unat_gt_0 [of "ext_nsectors (ext param)"]
    by (cases "has_ext param = 0") (simp_all add: word_less_nat_alt)
  then show ?thesis by (auto simp: read_sectors_lba_def sectors_lba_rw_def Let_def)
qed

text \<open>One read of the scan: the sector at the start of the buffer, or an error, on unchanged disks.\<close>

definition boot_read :: "('e \<Rightarrow> disks) \<Rightarrow> nat \<Rightarrow> bytes option \<Rightarrow> bytes \<Rightarrow> ('e, 'z) mach_scheme \<Rightarrow>
    (int \<times> bytes \<times> u32) \<times> ('e, 'z) mach_scheme \<Rightarrow> bool" where
  "boot_read D B b buffer s r \<longleftrightarrow>
     (case r of ((ret, buf, len), t) \<Rightarrow> ready B t \<and> D (dev t) = D (dev s) \<and>
        (case b of None \<Rightarrow> ret \<noteq> 0 \<and> length buf = length buffer
         | Some c \<Rightarrow> ret = 0 \<and> len = 512 \<and> length c = 512 \<and> buf = c @ drop 512 buffer))"

lemma scan_read:
  assumes "scan_ok P D G B param" "ready B s" "via P read_only s (snd r)"
  shows "ready B (snd r)" "D (dev (snd r)) = D (dev s)"
  using assms ready_via [OF assms(2,3)] disk_image_read_only [OF _ via_dev [OF assms(3)]]
  by (auto simp: scan_ok_def disk_image_def)

lemma boot_read_chs:
  assumes ok: "scan_ok P D G B param" and k: "sectors_512 (D (dev s)) (disk_id param)" and s: "ready B s" and l: "512 \<le> length buffer"
  shows "boot_read D B (if chs_inside param c h sec then Some (D (dev s) (disk_id param) (chs_block (G (disk_id param)) c h sec)) else None)
     buffer s (read_sectors_chs P param c h sec 1 buffer 1024 s)"
proof (cases "chs_inside param c h sec")
  case True
  have p: "chs_sector_size param = 512" "readable P D G B param" "rbuf_fixed P"
    using ok by (auto simp: scan_ok_def chs_sector_size_def disk_image_def)
  note r = read_sectors_chs_block [OF p(2) k s p(1) l p(3) True refl] scan_read [OF ok s via_read_sectors_chs, of param c h sec 1 buffer 1024]
  show ?thesis
    using True r by (simp add: boot_read_def case_prod_beta)
qed (use s in \<open>simp add: read_chs_outside boot_read_def\<close>)

lemma boot_read_lba:
  assumes ok: "scan_ok P D G B param" and k: "sectors_512 (D (dev s)) (disk_id param)" and s: "ready B s" and l: "512 \<le> length buffer"
  shows "boot_read D B (if has_ext param \<noteq> 0 \<and> lba < ext_nsectors (ext param) then Some (D (dev s) (disk_id param) (unat lba)) else None)
     buffer s (read_sectors_lba P param lba 1 buffer 1024 s)"
proof (cases "has_ext param \<noteq> 0 \<and> lba < ext_nsectors (ext param)")
  case True
  then have p: "lba_disk param" "readable P D G B param" "rbuf_fixed P" "lba < ext_nsectors (ext param)"
    using ok by (auto simp: scan_ok_def lba_disk_def disk_image_def)
  note r = read_sectors_lba_block [OF p(2) k s p(1) l p(3,4) refl] scan_read [OF ok s via_read_sectors_lba, of param lba 1 buffer 1024]
  show ?thesis
    using True r by (simp add: boot_read_def case_prod_beta)
next
  case False
  have "has_ext param \<noteq> 0 \<longrightarrow> ext_nsectors (ext param) \<noteq> 0" using ok by (simp add: scan_ok_def)
  from read_lba_outside [OF False this, of P 1 buffer s] show ?thesis unfolding if_not_P [OF False] using s by (simp add: boot_read_def)
qed

lemma read_boot_block:
  assumes ok: "scan_ok P D G B param" and k: "sectors_512 (D (dev s)) (disk_id param)" and s: "ready B s" and l: "512 \<le> length buffer"
  shows "case read_boot P param m buffer s of None \<Rightarrow> boot_block (D (dev s)) G param m = None
     | Some r \<Rightarrow> boot_read D B (boot_block (D (dev s)) G param m) buffer s r"
proof -
  obtain c sec where cs: "get_chs_from_pack (me_begin_cylinder_sector m) = (c, sec)" by (cases "get_chs_from_pack (me_begin_cylinder_sector m)")
  note rc = boot_read_chs [OF ok k s l, of c "uint (me_begin_head m)" sec]
  note rl = boot_read_lba [OF ok k s l, of "ucast (me_lba_begin m)"]
  obtain ret buf len t where r: "read_sectors_chs P param c (uint (me_begin_head m)) sec 1 buffer 1024 s = ((ret, buf, len), t)"
    by (metis prod.exhaust)
  have rl2: "boot_read D B (if has_ext param \<noteq> 0 \<and> ucast (me_lba_begin m) < ext_nsectors (ext param)
       then Some (D (dev s) (disk_id param) (unat (me_lba_begin m))) else None)
     buffer s (read_sectors_lba P param (ucast (me_lba_begin m)) 1 buf 1024 t)" if "ret \<noteq> 0"
  proof -
    have "\<not> chs_inside param c (uint (me_begin_head m)) sec" using rc r that by (auto simp: boot_read_def)
    from read_chs_outside [OF this, of P 1 buffer s] have "buf = buffer" "t = s" using r by simp_all
    then show ?thesis using rl [unfolded unat_u32_u64] by (simp only:)
  qed
  show ?thesis
    using rc rl rl2 r by (auto simp: read_boot_def boot_block_def read_boot_chs_def read_boot_lba_def cs Let_def boot_read_def split: if_splits)
qed

lemma label_matches_append:
  "length b = 512 \<Longrightarrow> nul_free skip \<Longrightarrow> label_matches skip (b @ r) \<longleftrightarrow> skip = fat_label 71 b \<or> skip = fat_label 43 b"
  by (simp add: label_matches_iff fat_label_def)

lemma mbr_entry_append: "length b = 512 \<Longrightarrow> i < 4 \<Longrightarrow> mbr_entry_at (b @ r) i = mbr_entry_at b i"
  by (simp add: mbr_entry_at_def le32_def le16_def nth_append Let_def)

lemma scan_entries_labelled:
  assumes ok: "scan_ok P D G B param" and n: "nul_free skip"
  shows "sectors_512 (D (dev s)) (disk_id param) \<Longrightarrow> ready B s \<Longrightarrow> 512 \<le> length buffer \<Longrightarrow> fst (scan_entries P param skip ms buffer s) =
    c_bool (list_ex (\<lambda>m. case boot_block (D (dev s)) G param m of
        None \<Rightarrow> False | Some b \<Rightarrow> skip = fat_label 71 b \<or> skip = fat_label 43 b) ms)"
proof (induction ms arbitrary: buffer s)
  case (Cons m ms)
  note r = read_boot_block [OF ok Cons.prems, of m]
  show ?case
  proof (cases "read_boot P param m buffer s")
    case None
    then show ?thesis using r Cons by simp
  next
    case (Some p)
    obtain ret buf len t where p: "p = ((ret, buf, len), t)" by (metis prod.exhaust)
    have t: "ready B t" "D (dev t) = D (dev s)" "512 \<le> length buf"
      using r Cons.prems Some p by (auto simp: boot_read_def split: option.splits)
    have "sectors_512 (D (dev t)) (disk_id param)" using Cons.prems t by simp
    then show ?thesis
      using r Cons.IH [OF _ t(1,3)] Some p t(2) n
      by (auto simp: boot_read_def label_matches_append split: option.splits)
  qed
qed (simp add: c_bool_def)

lemma contain_fat_label_labelled:
  assumes ok: "scan_ok P D G B param" and k: "sectors_512 (D (dev s)) (disk_id param)" and s: "ready B s" and n: "nul_free (opt_skip p)" and g: "0 < last_sectors_per_track param"
  shows "fst (contain_fat_label P p param str s) = c_bool (labelled (D (dev s)) G param (opt_skip p))"
proof -
  have "chs_inside param 0 0 1" using g by (simp add: chs_inside_def varify_chs_def chs_outside_def chs_max_defs word_less_alt)
  moreover have "512 \<le> length (p_stack P)" using ok by (simp add: scan_ok_def)
  moreover have "chs_block (G (disk_id param)) 0 0 1 = 0" by (simp add: chs_block_def)
  ultimately have r: "boot_read D B (Some (D (dev s) (disk_id param) 0)) (p_stack P) s (read_sectors_chs P param 0 0 1 1 (p_stack P) 1024 s)"
    using boot_read_chs [OF ok k s, of "p_stack P" 0 0 1] by simp
  obtain ret buf len t where p: "read_sectors_chs P param 0 0 1 1 (p_stack P) 1024 s = ((ret, buf, len), t)" by (metis prod.exhaust)
  have t: "ready B t" "512 \<le> length buf" "D (dev t) = D (dev s)" using r p by (simp_all add: boot_read_def)
  let ?es = "map (mbr_entry_at (D (dev s) (disk_id param) 0)) [0..<4]"
  have es: "map (mbr_entry_at buf) [0..<4] = ?es"
    using r p by (auto simp: boot_read_def mbr_entry_append)
  have "ret = 0" "len = 512" using r p by (simp_all add: boot_read_def)
  then have "contain_fat_label P p param str s = scan_entries P param (opt_skip p) ?es buf t"
    unfolding contain_fat_label_def p by (simp add: es del: map_eq_conv upt_rec_numeral)
  then show ?thesis
    using scan_entries_labelled [OF ok n _ t(1,2), of ?es] t(3) k by (simp add: labelled_def list_ex_iff)
qed

text \<open>
  C11. When every read of a sector of the disk succeeds, its sectors have 512 bytes and its geometry at
  least one sector per track, the scan returns 1 exactly if one of the four entries of the partition table has
  type 0B, 0C, 0E or EF, names a boot sector that can be addressed (for 0B by cylinder, head and
  sector within the geometry, for 0C and 0E by a block within a disk with extensions, for
  EF in the first of these ways that works), and that sector holds the label to skip, cut at its first blank or NUL, in
  the FAT32 or the FAT16 field; the disks stay as they are. Partitions of the other FAT types, such as 01, 04
  and 06, are not looked at and do not count as labelled.
\<close>

theorem contain_fat_label_spec:
  assumes "scan_ok P D G B param" "sectors_512 (D (dev s)) (disk_id param)" "ready B s" "nul_free (opt_skip p)" "0 < last_sectors_per_track param"
  shows "fst (contain_fat_label P p param str s) = c_bool (labelled (D (dev s)) G param (opt_skip p)) \<and>
    D (dev (snd (contain_fat_label P p param str s))) = D (dev s)"
  using contain_fat_label_labelled [OF assms] scan_read [OF assms(1,3) via_contain_fat_label] by blast

text \<open>
  C3. A disk that carries the label to skip in a partition of type 0B, 0C, 0E or EF is
  protected: \<^verbatim>\<open>wipe_disk\<close> returns 1 and no disk changes. This holds when every read of a sector of the disk
  succeeds, its sectors have 512 bytes, its geometry has at least one sector per
  track and the boot sector can be addressed; it is not claimed when a read fails, and not for partitions of the FAT types
  01, 04 and 06, whose labels the code does not look at.
\<close>

theorem wipe_disk_protects:
  assumes "scan_ok P D G B param" "sectors_512 (D (dev s)) (disk_id param)" "ready B s" "nul_free (opt_skip (opt s))" "0 < last_sectors_per_track param"
    and "labelled (D (dev s)) G param (opt_skip (opt s))"
  shows "\<exists>t. wipe_disk P param s = Some (1, t) \<and> D (dev t) = D (dev s)"
proof -
  have "fst (contain_fat_label P (opt s) param (opt_skip (opt s)) s) = 1"
    using contain_fat_label_labelled [OF assms(1-5)] assms(6) by simp
  moreover have "D (dev (snd (contain_fat_label P (opt s) param (opt_skip (opt s)) s))) = D (dev s)"
    using scan_read [OF assms(1,3) via_contain_fat_label] by blast
  ultimately show ?thesis
    by (simp add: wipe_disk_def is_skiped_disk_def case_prod_beta)
qed

section \<open>A labelled disk\<close>

definition label_mbr :: bytes where
  "label_mbr = replicate 450 0 @ [0xC] @ replicate 3 0 @ [1, 0, 0, 0] @ replicate 54 0"

definition label_boot :: bytes where
  "label_boot = replicate 71 0 @ map ord8 ''NIMIME     '' @ replicate 430 0"

definition label_dev :: ideal_dev where
  "label_dev = sample_dev\<lparr>i_disks := (\<lambda>d k. if k = 0 then label_mbr else if k = 1 then label_boot else replicate 512 0)\<rparr>"

definition label_disk :: disk_param where
  "label_disk = zero_param\<lparr>disk_id := 0x80, last_heads := 15, last_cylinders := 10, last_sectors_per_track := 63, has_ext := 1,
     ext := zero_ext\<lparr>ext_nsectors := 10000, ext_bytes_per_sector := 512\<rparr>\<rparr>"

lemma take_load_blocks:
  "length (D d b) = 512 \<Longrightarrow> 512 \<le> length buf \<Longrightarrow> take 512 (load_blocks D d b (Suc 0) buf) = D d b"
  by (simp add: load_blocks_def)

lemma ideal_readable: "readable (ideal G) i_disks G B param"
  by (auto simp: readable_def delivers_def ideal_def ideal_bios_def Let_def sectors_512_def take_load_blocks
      MAX_SECTOR_BUFFER_SIZE_def BIOS_MAX_SECTOR_CNT_def split: prod.splits)

lemma label_scan_ok: "scan_ok sample_pc i_disks (\<lambda>_. (16, 63)) 0x10200 label_disk"
  by (simp add: scan_ok_def ideal_disk_image ideal_readable label_disk_def) (simp add: ideal_def)

lemma label_sectors: "sectors_512 (i_disks label_dev) (disk_id label_disk)"
  by (simp add: sectors_512_def label_dev_def label_mbr_def label_boot_def)

lemma label_labelled: "labelled (i_disks label_dev) (\<lambda>_. (16, 63)) label_disk (opt_skip set_default_opt)"
  by code_simp

lemma label_skip: "nul_free (opt_skip set_default_opt)"
  by code_simp

theorem contain_fat_label_spec_witness:
  "fst (contain_fat_label sample_pc set_default_opt label_disk ''x'' (sample_world label_dev set_default_opt)) = 1"
  using contain_fat_label_spec [OF label_scan_ok, of "sample_world label_dev set_default_opt" set_default_opt "''x''"]
  by (simp add: label_sectors sample_ready label_skip label_labelled) (simp add: label_disk_def)

theorem wipe_disk_protects_witness:
  "\<exists>t. wipe_disk sample_pc label_disk (sample_world label_dev set_default_opt) = Some (1, t) \<and> i_disks (dev t) = i_disks label_dev"
  using wipe_disk_protects [OF label_scan_ok, of "sample_world label_dev set_default_opt"]
  by (simp add: label_sectors sample_ready label_skip label_labelled) (simp add: label_disk_def)

end
