(* ===== verification/Chs_Erase.thy ===== *)
theory Chs_Erase
  imports Label
begin

text \<open>
  Wiping a disk without the INT 13h extensions, by cylinder, head and sector. The address
  conversion reaches every sector of the geometry once, so mode DOD leaves zeros as it does by LBA;
  mode FAST does not fill its buffer on this path, and what the heap gave it ends up on
  the disk.
\<close>

section \<open>The hypotheses\<close>

text \<open>
  The drive carries out the writes and verifications of sectors of one track of its geometry,
  and returns the count of a write in \<^verbatim>\<open>al\<close>. Nothing is assumed of a request that goes beyond the
  end of its track; the disk has a multiple of 16 sectors per track, so that none of the blocks
  of the wipe does.
\<close>

definition chs_verify :: "u8 \<Rightarrow> int \<Rightarrow> int \<Rightarrow> int \<Rightarrow> nat \<Rightarrow> real_area \<Rightarrow> bool" where
  "chs_verify drv c h sec n a \<longleftrightarrow>
     r_ah (reg a) = 0x04 \<and> r_dl (reg a) = drv \<and> get_chs_from_pack (r_cx (reg a)) = (c, sec) \<and>
     uint (r_dh (reg a)) = h \<and> unat (r_al (reg a)) = n"

definition on_track :: "disk_param \<Rightarrow> int \<Rightarrow> int \<Rightarrow> int \<Rightarrow> nat \<Rightarrow> bool" where
  "on_track param c h sec n \<longleftrightarrow> \<not> chs_outside param c h sec \<and> 0 < n \<and> sec - 1 + int n \<le> spt param"

definition chs_accepts :: "'e platform \<Rightarrow> disk_param \<Rightarrow> bool" where
  "chs_accepts P param \<longleftrightarrow>
     (\<forall>a e c h sec n. chs_write (disk_id param) c h sec n a \<and> on_track param c h sec n \<longrightarrow>
        \<not> fst (p_bios P a e) \<and> r_al (reg (fst (snd (p_bios P a e)))) = r_al (reg a)) \<and>
     (\<forall>a e c h sec n. chs_verify (disk_id param) c h sec n a \<and> on_track param c h sec n \<longrightarrow> \<not> fst (p_bios P a e))"

definition chs_disk :: "disk_param \<Rightarrow> bool" where
  "chs_disk param \<longleftrightarrow> has_ext param = 0 \<and> last_heads param \<noteq> 255 \<and> last_cylinders param \<le> 1023 \<and>
     0 < last_sectors_per_track param \<and> last_sectors_per_track param \<le> 63 \<and> 16 dvd unat (last_sectors_per_track param)"

definition chs_size :: "disk_param \<Rightarrow> nat" where
  "chs_size param = (unat (last_heads param) + 1) * (unat (last_cylinders param) + 1) * unat (last_sectors_per_track param)"

definition chs_machine :: "'e platform \<Rightarrow> ('e \<Rightarrow> disks) \<Rightarrow> (u8 \<Rightarrow> nat \<times> nat) \<Rightarrow> nat \<Rightarrow> disk_param \<Rightarrow> bool" where
  "chs_machine P D G B param \<longleftrightarrow> disk_image P D G B \<and> chs_accepts P param \<and> chs_disk param \<and>
     G (disk_id param) = (unat (last_heads param) + 1, unat (last_sectors_per_track param))"

section \<open>The address of a block\<close>

lemma lba2chs_block:
  assumes d: "chs_disk param" and l: "unat lba < chs_size param"
  obtains c h sec where "lba2chs param lba = Some (Some (c, h, sec))" "varify_chs c h sec = 0" "\<not> chs_outside param c h sec"
    "chs_block (unat (last_heads param) + 1, unat (last_sectors_per_track param)) c h sec = unat lba"
    "sec = uint lba mod spt param + 1"
proof -
  let ?S = "spt param" and ?H = "hpc param" and ?x = "uint lba"
  have sp: "last_sectors_per_track param \<noteq> 0" using d by (auto simp: chs_disk_def)
  have s0: "0 < ?S" "?S \<le> 63" using uint_u8_pos [OF sp] d by (simp_all add: chs_disk_def word_le_def)
  have h0: "0 < ?H" "?H \<le> 255" using hpc_bounds [of param] d by (simp_all add: chs_disk_def)
  have cyl: "uint (last_cylinders param) \<le> 1023" using d by (simp add: chs_disk_def word_le_def)
  have "int (chs_size param) = (uint (last_cylinders param) + 1) * (?S * ?H)"
    by (simp add: chs_size_def algebra_simps)
  moreover have "?x = int (unat lba)" by simp
  ultimately have x: "0 \<le> ?x" "?x < (uint (last_cylinders param) + 1) * (?S * ?H)" using l by linarith+
  have sh: "0 < ?S * ?H" "?S * ?H \<le> 63 * 255" using s0 h0 by (simp, intro mult_mono) simp_all
  then have "(uint (last_cylinders param) + 1) * (?S * ?H) \<le> 1024 * (63 * 255)"
    using cyl mult_mono [of "uint (last_cylinders param) + 1" 1024 "?S * ?H" "63 * 255"] by simp
  then have "lba \<le> ucast max_chs_lba" using x by (simp add: max_chs_lba_val word_le_def unsigned_ucast_eq)
  note v = lba2chs_val [OF this sp]
  define c h sec where "c = ?x div (?S * ?H)" and "h = (?x div ?S) mod ?H" and "sec = ?x mod ?S + 1"
  have "c < uint (last_cylinders param) + 1"
  proof (rule ccontr)
    assume "\<not> c < uint (last_cylinders param) + 1"
    then have "(uint (last_cylinders param) + 1) * (?S * ?H) \<le> c * (?S * ?H)" using sh by (intro mult_right_mono) simp_all
    also have "\<dots> \<le> ?x" using div_mult_mod_eq [of ?x "?S * ?H"] pos_mod_sign [OF sh(1), of ?x] by (simp add: c_def)
    finally show False using x by simp
  qed
  moreover have "0 \<le> c" using x sh by (simp add: c_def pos_imp_zdiv_nonneg_iff)
  moreover have "0 \<le> h" "h < ?H" using pos_mod_sign [OF h0(1)] pos_mod_bound [OF h0(1)] unfolding h_def by simp_all
  moreover have "0 < sec" "sec \<le> ?S"
    using s0 pos_mod_bound [OF s0(1), of ?x] pos_mod_sign [OF s0(1), of ?x] by (simp_all add: sec_def)
  ultimately have b: "0 \<le> c" "c \<le> uint (last_cylinders param)" "0 \<le> h" "h \<le> uint (last_heads param)" "0 < sec" "sec \<le> ?S"
    by simp_all
  have "c * ?H + h = ?x div ?S"
    unfolding c_def h_def using s0 h0 by (simp only: zdiv_zmult2_eq div_mult_mod_eq)
  then have "(c * ?H + h) * ?S + (sec - 1) = ?x" by (simp add: sec_def)
  moreover have "int (chs_block (unat (last_heads param) + 1, unat (last_sectors_per_track param)) c h sec) =
      (c * ?H + h) * ?S + (sec - 1)"
    using b by (simp add: chs_block_def of_nat_diff algebra_simps)
  ultimately have "chs_block (unat (last_heads param) + 1, unat (last_sectors_per_track param)) c h sec = unat lba"
    by (simp flip: of_nat_eq_iff [where 'a = int])
  then show thesis
    by (rule that [OF v [folded c_def h_def sec_def], rotated 2, OF _ sec_def])
       (use b s0 h0 cyl in \<open>auto simp: varify_chs_def chs_outside_def chs_max_defs\<close>)
qed

section \<open>One block\<close>

text \<open>\<^verbatim>\<open>fill\<close> of a block: the three passes of DOD end with zeros, FAST leaves the buffer as it is.\<close>

lemma chs_accepts_write:
  "chs_accepts P param \<Longrightarrow> chs_write (disk_id param) c h sec n a \<Longrightarrow> on_track param c h sec n \<Longrightarrow>
   p_bios P a e = (cf, a', e') \<Longrightarrow> \<not> cf \<and> r_al (reg a') = r_al (reg a)"
  unfolding chs_accepts_def by (metis fst_conv snd_conv)

lemma chs_verify_ok:
  assumes "chs_accepts P param" "varify_chs c h sec = 0" "on_track param c h sec (unat n)" "chs_sector_size param = 512" "unat n \<le> 16"
  shows "fst (sector_chs_verify P param c h sec n (n * 512) s) = 0"
proof -
  have n: "unat (n * 512) = unat n * 512" by (rule unat_times_512) (use assms(5) in simp)
  have le: "\<not> n > of_nat BIOS_MAX_SECTOR_CNT" "\<not> n * 512 > of_nat MAX_SECTOR_BUFFER_SIZE"
    using assms(5) by (simp_all add: not_less word_le_nat_alt n MAX_SECTOR_BUFFER_SIZE_def BIOS_MAX_SECTOR_CNT_def)
  have n63: "unat n \<le> 63" using assms(5) by simp
  let ?a = "\<lambda>b. (ra s)\<lparr>reg := set_bx b ((chs_request 0x04 param c h sec n (reg (ra s)))\<lparr>r_es := REAL_CODE_SEG, r_si := 0, r_di := 0\<rparr>)\<rparr>"
  have "chs_verify (disk_id param) c h sec (unat n) (?a b)" for b
    using chs_request_fields [where nsector = n and b = b and fn = 4 and param = param and r = "reg (ra s)" and es = REAL_CODE_SEG, OF assms(2) n63 refl]
    by (simp add: chs_verify_def)
  then have "\<not> fst (p_bios P (?a b) (dev s))" for b
    using assms(1,3) unfolding chs_accepts_def by blast
  then have "fst (int13_2 P (upd_reg (chs_request 0x04 param c h sec n) s)) = 0"
    by (simp add: int13_2_def int13_call_def query_pcbios_def upd_reg_def Let_def case_prod_beta)
  then show ?thesis using assms le by (simp add: sector_chs_verify_def case_prod_beta on_track_def)
qed

lemma write_request_chs:
  fixes s :: "('e, 'z) world_scheme"
  assumes m: "chs_machine P D G B param" and rd: "ready B s"
    and n: "0 < unat n" "unat n \<le> 16" and len: "length buffer = 8192"
    and v: "varify_chs c h sec = 0" "on_track param c h sec (unat n)" "chs_block (G (disk_id param)) c h sec = b"
  obtains a' e' where
    "int13_2 P (upd_reg (chs_request 0x03 param c h sec n) (s\<lparr>ra := (ra s)\<lparr>rbuf := memcpy_buf 8192 (rbuf (ra s)) buffer\<rparr>\<rparr>)) =
      (0, s\<lparr>ra := a', dev := e'\<rparr>)"
    "chs_done (reg a') n (chs_sector_size param) = n * 512"
    "stored (D (dev s)) (D e') (disk_id param) b (unat n) buffer"
proof -
  let ?bx = "ucast (p_real_buffer (ptrs s) XOR push_bit 4 (ucast REAL_CODE_SEG)) :: u16"
  let ?r = "set_bx ?bx ((chs_request 0x03 param c h sec n (reg (ra s)))\<lparr>r_es := REAL_CODE_SEG, r_si := 0, r_di := 0\<rparr>)"
  let ?a = "(ra s)\<lparr>rbuf := memcpy_buf 8192 (rbuf (ra s)) buffer, reg := ?r\<rparr>"
  have im: "disk_image P D G B" "chs_accepts P param" "has_ext param = 0"
    using m by (simp_all add: chs_machine_def chs_disk_def)
  have n63: "unat n \<le> 63" using n by simp
  note f = chs_request_fields [where nsector = n and b = ?bx and fn = 3 and param = param and r = "reg (ra s)" and es = REAL_CODE_SEG, OF v(1) n63 refl]
  have w: "chs_write (disk_id param) c h sec (unat n) ?a" using f by (simp add: chs_write_def)
  obtain cf a' e' where call: "p_bios P ?a (dev s) = (cf, a', e')" by (cases "p_bios P ?a (dev s)")
  have cf: "\<not> cf" and al: "r_al (reg a') = r_al ?r"
    using chs_accepts_write [OF im(2) w v(2) call] by simp_all
  have bf: "chs_buffer ?a = B"
    using rd int13_2_buffer [of "p_real_buffer (ptrs s)"] by (simp add: ready_def chs_buffer_def set_bx_def)
  have wr: "written (D (dev s)) (D e') cf (disk_id param) b (unat n) (rbuf ?a)"
    using disk_image_chs [OF im(1) w bf call] v(3) by simp
  have ch: "chunk 512 j (rbuf ?a) = chunk 512 j buffer" if "j < unat n" for j
    using that n(2) len rd by (simp add: chunk_memcpy_buf ready_def MAX_SECTOR_BUFFER_SIZE_def BIOS_MAX_SECTOR_CNT_def)
  have "unat (ucast (r_al ?r) :: u32) = unat n" using f(5) by (simp add: unat_u8_u32)
  then have "ucast (r_al ?r) = n" by (simp add: word_unat_eq_iff)
  moreover have "r_di ?r = 0" by (simp add: set_bx_def)
  moreover have "D e' d k = (if d = disk_id param \<and> b \<le> k \<and> k < b + unat n then chunk 512 (k - b) buffer else D (dev s) d k)" for d k
    using wr cf ch [of "k - b"] by (auto simp: written_def dest: spec [of _ "k - b"])
  ultimately show thesis
    by (intro that [where a' = "a'\<lparr>reg := (reg a')\<lparr>r_di := 0, r_res := 0\<rparr>\<rparr>" and e' = e'])
       (use call cf al im(3) in \<open>simp_all add: int13_2_def int13_call_def query_pcbios_def upd_reg_def Let_def
          chs_done_def chs_sector_size_def stored_def\<close>)
qed

lemma write_block_chs:
  fixes s :: "('e, 'z) world_scheme"
  assumes m: "chs_machine P D G B param" and rd: "ready B s"
    and n: "0 < unat n" "unat n \<le> 16" and len: "length buffer = 8192"
    and v: "varify_chs c h sec = 0" "on_track param c h sec (unat n)" "chs_block (G (disk_id param)) c h sec = b"
  obtains sz t where "write_sectors_chs P param c h sec n buffer 8192 check s = ((0, buffer, sz), t)"
    "wvia P (\<lambda>_. True) s t" "ready B t" "stored (D (dev s)) (D (dev t)) (disk_id param) b (unat n) buffer"
proof -
  have im: "disk_image P D G B" "rbuf_fixed P" "chs_accepts P param"
    using m by (simp_all add: chs_machine_def disk_image_def)
  have cs: "chs_sector_size param = 512" using m by (simp add: chs_sector_size_def chs_machine_def chs_disk_def)
  obtain a' e' where r: "int13_2 P (upd_reg (chs_request 0x03 param c h sec n) (s\<lparr>ra := (ra s)\<lparr>rbuf := memcpy_buf 8192 (rbuf (ra s)) buffer\<rparr>\<rparr>)) =
      (0, s\<lparr>ra := a', dev := e'\<rparr>)"
    and dn: "chs_done (reg a') n (chs_sector_size param) = n * 512"
    and st: "stored (D (dev s)) (D e') (disk_id param) b (unat n) buffer"
    by (rule write_request_chs [OF m rd n len v])
  let ?s2 = "s\<lparr>ra := a', dev := e'\<rparr>"
  have nm: "unat (n * 512) = unat n * 512" by (rule unat_times_512) (use n in simp)
  have le: "\<not> n > of_nat BIOS_MAX_SECTOR_CNT" "\<not> n * 512 > 8192" "\<not> n * 512 > of_nat MAX_SECTOR_BUFFER_SIZE"
    "\<not> (8192 :: u32) > of_nat MAX_SECTOR_BUFFER_SIZE"
    using n by (simp_all add: not_less word_le_nat_alt nm MAX_SECTOR_BUFFER_SIZE_def BIOS_MAX_SECTOR_CNT_def)
  define t where "t = (if check \<noteq> 0 then snd (sector_chs_verify P param c h sec n (n * 512) ?s2) else ?s2)"
  have eq: "write_sectors_chs P param c h sec n buffer 8192 check s = ((0, buffer, n * 512), t)"
    using v le dn cs r chs_verify_ok [OF im(3) v(1,2) cs n(2), of ?s2]
    by (simp add: write_sectors_chs_def sector_chs_rw_def Let_def case_prod_beta t_def on_track_def)
  have "D (dev t) = D e'"
    using disk_image_read_only [OF im(1) via_dev [OF via_sector_chs_verify [where ok = read_only and P = P and s = ?s2]]]
    by (simp add: t_def read_only_def)
  moreover have vv: "wvia P (\<lambda>_. True) s t"
    using wvia_via [OF via_sector_chs_rw [where w = True and ok = "\<lambda>_. True" and P = P and s = s]] eq
    by (metis snd_conv write_sectors_chs_def)
  ultimately show thesis using that [OF eq vv ready_wvia [OF rd vv im(2)]] st by simp
qed

text \<open>A block of at most 16 sectors that starts at a multiple of 16 stays on a track of a multiple of 16 sectors.\<close>

lemma aligned_fits:
  fixes x S n :: int
  assumes "16 dvd x" "16 dvd S" "0 < S" "n \<le> 16"
  shows "x mod S + n \<le> S"
proof -
  have "16 dvd x mod S" using assms(1,2) by (simp add: dvd_mod)
  then have "16 dvd S - x mod S" using assms(2) by simp
  moreover have "0 < S - x mod S" using assms(3) by simp
  ultimately have "16 \<le> S - x mod S" by (rule zdvd_imp_le)
  then show ?thesis using assms(4) by simp
qed

text \<open>The modes, each with what it does to the buffer.\<close>

definition chs_cond :: "int \<Rightarrow> 'e platform \<Rightarrow> ('e \<Rightarrow> disks) \<Rightarrow> (u8 \<Rightarrow> nat \<times> nat) \<Rightarrow> nat \<Rightarrow> disk_param \<Rightarrow> options_t \<Rightarrow> nat \<Rightarrow> bool" where
  "chs_cond mode P D G B param p tot \<longleftrightarrow>
     chs_machine P D G B param \<and> tot = chs_size param \<and> opt_mode p = mode \<and> opt_test p = 0 \<and> opt_mbr p = 0"

lemma chs_cond_laws:
  assumes "chs_cond mode P D G B param p tot"
  shows "disk_image P D G B" "\<exists>w. disk_sectors p param = (512, w) \<and> unat w = tot" "0 < tot \<and> tot < 2 ^ 55"
    "is_cdrom param = 0 \<and> opt_mbr p = 0"
proof -
  have d: "chs_disk param" "tot = chs_size param" using assms by (simp_all add: chs_cond_def chs_machine_def)
  have "unat (last_heads param) + 1 \<le> 256" using unat_u8_less [of "last_heads param"] by linarith
  moreover have "unat (last_cylinders param) + 1 \<le> 1024" using d(1) by (simp add: chs_disk_def word_le_nat_alt)
  moreover have "unat (last_sectors_per_track param) \<le> 63" using d(1) by (simp add: chs_disk_def word_le_nat_alt)
  ultimately have t: "tot \<le> 256 * 1024 * 63" unfolding d(2) chs_size_def by (intro mult_mono) simp_all
  then show "0 < tot \<and> tot < 2 ^ 55" using d by (simp add: chs_disk_def chs_size_def word_less_nat_alt)
  have i: "int tot = (uint (last_heads param) + 1) * (uint (last_cylinders param) + 1) * uint (last_sectors_per_track param)"
    by (simp add: d(2) chs_size_def algebra_simps)
  have "sint (word_of_int (int tot) :: u32) = int tot"
    unfolding sint_sbintrunc' by (rule signed_take_bit_int_eq_self) (use t in simp_all)
  then have "disk_sectors p param = (512, of_nat tot)"
    using d(1) unfolding disk_sectors_def i [symmetric] by (simp add: chs_disk_def)
  moreover have "unat (of_nat tot :: u64) = tot" using t by (simp add: unat_of_nat)
  ultimately show "\<exists>w. disk_sectors p param = (512, w) \<and> unat w = tot" by blast
  show "disk_image P D G B" "is_cdrom param = 0 \<and> opt_mbr p = 0"
    using assms by (simp_all add: chs_cond_def chs_machine_def chs_disk_def is_cdrom_def)
qed

lemma chs_cond_block:
  assumes "chs_cond mode P D G B param p tot" "0 < unat n" "unat n \<le> 16" "unat off + unat n \<le> tot" "16 dvd unat off"
  obtains c h sec where "lba2chs param off = Some (Some (c, h, sec))" "varify_chs c h sec = 0" "on_track param c h sec (unat n)"
    "chs_block (G (disk_id param)) c h sec = unat off" "chs_machine P D G B param" "has_ext param = 0"
proof -
  have m: "chs_machine P D G B param" "chs_disk param" "unat off < chs_size param"
    using assms by (simp_all add: chs_cond_def chs_machine_def)
  have "16 dvd uint (last_sectors_per_track param)"
    using m(2) int_dvd_int_iff [of 16 "unat (last_sectors_per_track param)"] by (simp add: chs_disk_def)
  moreover have "16 dvd uint off" using assms(5) int_dvd_int_iff [of 16 "unat off"] by simp
  moreover have "0 < spt param" using m(2) by (simp add: chs_disk_def word_less_def)
  moreover have "int (unat n) \<le> 16" using assms(3) by linarith
  ultimately have t: "uint off mod spt param + int (unat n) \<le> spt param" by (intro aligned_fits)
  show thesis
    by (rule lba2chs_block [OF m(2,3)], rule that) (use m t assms(2) in \<open>simp_all add: chs_machine_def chs_disk_def on_track_def\<close>)
qed

interpretation chs_fast: block_wiper "chs_cond WIPE_MODE_FAST" "\<lambda>b. b"
proof unfold_locales
  fix P :: "'e platform" and D G B param tot n off and s :: "('e, 'z) world_scheme" and buffer :: bytes
  assume c: "chs_cond WIPE_MODE_FAST P D G B param (opt s) tot" and rd: "ready B s" and len: "length buffer = 8192"
    and n: "0 < unat (n :: u32)" "unat n \<le> 16" "unat (off :: u64) + unat n \<le> tot" "16 dvd unat off"
  obtain cy h sec where a: "lba2chs param off = Some (Some (cy, h, sec))" "varify_chs cy h sec = 0" "on_track param cy h sec (unat n)"
    "chs_block (G (disk_id param)) cy h sec = unat off" "chs_machine P D G B param" "has_ext param = 0"
    by (rule chs_cond_block [OF c n])
  obtain sz t where "write_sectors_chs P param cy h sec n buffer 8192 (opt_check (opt s)) s = ((0, buffer, sz), t)"
    "wvia P (\<lambda>_. True) s t" "ready B t" "stored (D (dev s)) (D (dev t)) (disk_id param) (unat off) (unat n) buffer"
    by (rule write_block_chs [OF a(5) rd n(1,2) len a(2-4)])
  then show "\<exists>sz t. wipe_sectors_lba P param off n buffer 8192 s = Some ((0, buffer, sz), t) \<and>
      wvia P (\<lambda>_. True) s t \<and> ready B t \<and> stored (D (dev s)) (D (dev t)) (disk_id param) (unat off) (unat n) buffer"
    using c a(1,6) by (auto simp: wipe_sectors_lba_def chs_cond_def Let_def)
qed (erule chs_cond_laws | simp)+

interpretation chs_dod: block_wiper "chs_cond WIPE_MODE_DOD" "\<lambda>_. replicate 8192 0"
proof unfold_locales
  fix P :: "'e platform" and D G B param tot n off and s :: "('e, 'z) world_scheme" and buffer :: bytes
  let ?z = "replicate 8192 0 :: bytes"
  assume c: "chs_cond WIPE_MODE_DOD P D G B param (opt s) tot" and rd: "ready B s" and len: "length buffer = 8192"
    and n: "0 < unat (n :: u32)" "unat n \<le> 16" "unat (off :: u64) + unat n \<le> tot" "16 dvd unat off"
  obtain cy h sec where a: "lba2chs param off = Some (Some (cy, h, sec))" "varify_chs cy h sec = 0" "on_track param cy h sec (unat n)"
    "chs_block (G (disk_id param)) cy h sec = unat off" "chs_machine P D G B param" "has_ext param = 0"
    by (rule chs_cond_block [OF c n])
  define ck where "ck = c_bool (opt_check (opt s) = 0 \<longrightarrow> WIPE_MODE_DOD = WIPE_MODE_OCD)"
  have "\<exists>sz t. write_sectors_chs P param cy h sec n b 8192 ck s' = ((0, b, sz), t) \<and> wvia P (\<lambda>_. True) s' t \<and> ready B t \<and>
      stored (D (dev s')) (D (dev t)) (disk_id param) (unat off) (unat n) b"
    if "length b = 8192" "ready B s'" for b and s' :: "('e, 'z) world_scheme"
    by (rule write_block_chs [where buffer = b and check = ck, OF a(5) that(2) n(1,2) that(1) a(2-4)]) blast
  from dod_passes [of B "\<lambda>b z k. write_sectors_chs P param cy h sec n b z k", OF this rd len]
  obtain sz t where "wipe_passes (\<lambda>b z k. write_sectors_chs P param cy h sec n b z k) WIPE_MODE_DOD ck 8192 [0..<pass_count WIPE_MODE_DOD] 0 buffer 8192 s =
      ((0, ?z, sz), t)" and w: "wvia P (\<lambda>_. True) s t" "ready B t"
      "stored (D (dev s)) (D (dev t)) (disk_id param) (unat off) (unat n) ?z" by blast
  moreover have "WIPE_MODE_DOD \<noteq> WIPE_MODE_FAST" by (simp add: wipe_mode_defs)
  ultimately have "wipe_sectors_lba P param off n buffer 8192 s = Some ((0, ?z, sz), t)"
    using c a(1,6) by (simp add: wipe_sectors_lba_def chs_cond_def Let_def flip: ck_def)
  then show "\<exists>sz t. wipe_sectors_lba P param off n buffer 8192 s = Some ((0, ?z, sz), t) \<and>
      wvia P (\<lambda>_. True) s t \<and> ready B t \<and> stored (D (dev s)) (D (dev t)) (disk_id param) (unat off) (unat n) ?z"
    using w by blast
qed (erule chs_cond_laws | simp)+

section \<open>One disk\<close>

text \<open>
  C6. Wiping a disk by cylinder, head and sector in mode DOD returns 0 and leaves every sector of its
  geometry zero and every other sector of every drive unchanged: the address conversion and
  the blocks of 16 sectors cover the disk exactly. The conditions: neither test nor mbr is set, the
  disk does not carry the label to skip and has no extensions, at most 255 heads, 1024 cylinders
  and 63 sectors per track, a multiple of 16; the BIOS carries out the writes and verifications
  that stay on one track; the heap gives the buffer and the clock is calibrated.
\<close>

theorem wipe_disk_chs_erases:
  fixes s :: "('e, 'z) world_scheme"
  assumes "chs_machine P D G B param" "heap_ok P" "ready B s" "extclock (tv s) \<noteq> 0"
    and "opt_mode (opt s) = WIPE_MODE_DOD" "opt_test (opt s) = 0" "opt_mbr (opt s) = 0"
    and "fst (contain_fat_label P (opt s) param (opt_skip (opt s)) s) = 0"
  shows "\<exists>t. wipe_disk P param s = Some (0, t) \<and> zeroed (D (dev s)) (D (dev t)) (disk_id param) 0 (chs_size param)"
proof -
  have "chs_cond WIPE_MODE_DOD P D G B param (opt s) (chs_size param)" using assms by (simp add: chs_cond_def)
  from chs_dod.disk [OF this assms(2-4,8)] show ?thesis using filled_zeroed by blast
qed

text \<open>
  C7. Wiping a disk by cylinder, head and sector in mode FAST leaves on it the content of the wipe
  buffer as the heap handed it out to this run after the search for the label, 16 sectors repeated over
  the disk, and the wipe returns 0: the CHS branch of \<^verbatim>\<open>wipe_sectors_lba\<close> writes the buffer without filling
  it. Every other sector of every drive is unchanged. The conditions: neither test nor mbr is set, the
  disk does not carry the label to skip and has no extensions, at most 255 heads, 1024 cylinders
  and 63 sectors per track, a multiple of 16; the BIOS carries out the writes and verifications
  that stay on one track; the heap gives the buffer and the clock is calibrated.
\<close>

theorem wipe_disk_chs_fast:
  fixes s :: "('e, 'z) world_scheme"
  assumes "chs_machine P D G B param" "heap_ok P" "ready B s" "extclock (tv s) \<noteq> 0"
    and "opt_mode (opt s) = WIPE_MODE_FAST" "opt_test (opt s) = 0" "opt_mbr (opt s) = 0"
    and "fst (contain_fat_label P (opt s) param (opt_skip (opt s)) s) = 0"
  shows "\<exists>t s1 buf e. wipe_disk P param s = Some (0, t) \<and> is_skiped_disk P param s = (0, s1) \<and>
    p_malloc P (of_nat WIPE_BUFFER_SIZE) (dev s1) = (Some buf, e) \<and>
    filled (D (dev s)) (D (dev t)) (disk_id param) 0 (chs_size param) buf"
proof -
  have "chs_cond WIPE_MODE_FAST P D G B param (opt s) (chs_size param)" using assms by (simp add: chs_cond_def)
  from chs_fast.disk [OF this assms(2-4,8)] show ?thesis .
qed

section \<open>A small disk\<close>

text \<open>Two heads, one cylinder, 16 sectors per track.\<close>

definition small_disk :: disk_param where
  "small_disk = zero_param\<lparr>disk_id := 0x80, last_heads := 1, last_sectors_per_track := 16\<rparr>"

abbreviation small_pc :: "ideal_dev platform" where
  "small_pc \<equiv> ideal (\<lambda>_. (2, 16))"

lemma small_disk_sel [simp]:
  "disk_id small_disk = 0x80" "last_heads small_disk = 1" "last_cylinders small_disk = 0" "last_sectors_per_track small_disk = 16"
  "has_ext small_disk = 0" "chs_size small_disk = 32"
  by (simp_all add: small_disk_def zero_param_def chs_size_def)

lemma ideal_chs_accepts: "chs_accepts (ideal G) param"
  by (auto simp: chs_accepts_def ideal_def ideal_bios_def chs_write_def chs_verify_def Let_def split: prod.splits)

lemma small_machine: "chs_machine small_pc i_disks (\<lambda>_. (2, 16)) B small_disk"
  by (simp add: chs_machine_def ideal_disk_image chs_disk_def ideal_chs_accepts)

lemma small_heap: "heap_ok small_pc"
  by (simp add: heap_ok_def ideal_def WIPE_BUFFER_SIZE_def)

lemma small_unlabelled:
  "opt_skip p = ''NIMIME'' \<Longrightarrow> fst (contain_fat_label small_pc p small_disk str (sample_world sample_dev q)) = 0"
proof -
  assume k: "opt_skip p = ''NIMIME''"
  have "nul_free ''NIMIME''" by code_simp
  then have n: "nul_free (opt_skip p)" by (simp only: k)
  have ok: "scan_ok small_pc i_disks (\<lambda>_. (2, 16)) 0x10200 small_disk"
    by (simp add: scan_ok_def ideal_disk_image ideal_readable) (simp add: ideal_def)
  have "\<not> labelled (i_disks sample_dev) (\<lambda>_. (2, 16)) small_disk ''NIMIME''" by code_simp
  moreover have "sectors_512 (i_disks sample_dev) (disk_id small_disk)" by (simp add: sectors_512_def sample_dev_def)
  ultimately show ?thesis
    using contain_fat_label_labelled [OF ok _ sample_ready n, of sample_dev q str] by (simp add: k)
qed

theorem wipe_disk_chs_erases_witness:
  "\<exists>t. wipe_disk small_pc small_disk (sample_world sample_dev (set_default_opt\<lparr>opt_mode := WIPE_MODE_DOD\<rparr>)) = Some (0, t) \<and>
     zeroed (i_disks sample_dev) (i_disks (dev t)) 0x80 0 32"
proof -
  let ?s = "sample_world sample_dev (set_default_opt\<lparr>opt_mode := WIPE_MODE_DOD\<rparr>)"
  have "\<exists>t. wipe_disk small_pc small_disk ?s = Some (0, t) \<and> zeroed (i_disks (dev ?s)) (i_disks (dev t)) (disk_id small_disk) 0 (chs_size small_disk)"
    by (rule wipe_disk_chs_erases [OF small_machine small_heap sample_ready])
       (simp_all add: small_unlabelled set_default_opt_def)
  then show ?thesis by simp
qed

theorem wipe_disk_chs_fast_witness:
  "\<exists>t. wipe_disk small_pc small_disk (sample_world sample_dev set_default_opt) = Some (0, t) \<and>
     i_disks (dev t) 0x80 21 = replicate 512 0xA5"
proof -
  let ?s = "sample_world sample_dev set_default_opt"
  have "\<exists>t s1 buf e. wipe_disk small_pc small_disk ?s = Some (0, t) \<and> is_skiped_disk small_pc small_disk ?s = (0, s1) \<and>
      p_malloc small_pc (of_nat WIPE_BUFFER_SIZE) (dev s1) = (Some buf, e) \<and>
      filled (i_disks (dev ?s)) (i_disks (dev t)) (disk_id small_disk) 0 (chs_size small_disk) buf"
    by (rule wipe_disk_chs_fast [OF small_machine small_heap sample_ready])
       (simp_all add: small_unlabelled set_default_opt_def)
  then show ?thesis by (auto simp: ideal_def WIPE_BUFFER_SIZE_def filled_def chunk_replicate)
qed

end
