(* ===== verification/Strcmp.thy ===== *)
theory Strcmp
  imports Newlib
begin

text \<open>
  \<^verbatim>\<open>strcmp\<close> of newlib as it is compiled: on a memory of bytes, a word at a time when both
  strings are aligned, with the NUL test \<^verbatim>\<open>DETECTNULL\<close>. It agrees with the comparison of the
  character lists that the other theories use. Addresses are integers and do not wrap at \<open>2 ^ 32\<close>.
\<close>

section \<open>The routine\<close>

definition UNALIGNED :: "int \<Rightarrow> int \<Rightarrow> bool" where
  "UNALIGNED X Y \<longleftrightarrow> (X AND 3) OR (Y AND 3) \<noteq> 0"

definition DETECTNULL :: "u32 \<Rightarrow> u32" where
  "DETECTNULL X = (X - 0x01010101) AND NOT X AND 0x80808080"

text \<open>A word of four bytes, the lowest first.\<close>

definition word4 :: "nat \<Rightarrow> nat \<Rightarrow> nat \<Rightarrow> nat \<Rightarrow> nat" where
  "word4 a b c d = a + 256 * (b + 256 * (c + 256 * d))"

definition load_word :: "(int \<Rightarrow> u8) \<Rightarrow> int \<Rightarrow> u32" where
  "load_word m a = of_nat (word4 (unat (m a)) (unat (m (a + 1))) (unat (m (a + 2))) (unat (m (a + 3))))"

text \<open>\<open>Some None\<close> is the early return of 0.\<close>

partial_function (option) word_loop :: "(int \<Rightarrow> u8) \<Rightarrow> int \<Rightarrow> int \<Rightarrow> (int \<times> int) option option" where
  "word_loop m a1 a2 =
     (if load_word m a1 = load_word m a2
      then (if DETECTNULL (load_word m a1) \<noteq> 0 then Some None else word_loop m (a1 + 4) (a2 + 4))
      else Some (Some (a1, a2)))"

partial_function (option) byte_loop :: "(int \<Rightarrow> u8) \<Rightarrow> int \<Rightarrow> int \<Rightarrow> int option" where
  "byte_loop m s1 s2 =
     (if m s1 \<noteq> 0 \<and> m s1 = m s2 then byte_loop m (s1 + 1) (s2 + 1) else Some (uint (m s1) - uint (m s2)))"

definition strcmp_mem :: "(int \<Rightarrow> u8) \<Rightarrow> int \<Rightarrow> int \<Rightarrow> int option" where
  "strcmp_mem m s1 s2 =
     (if \<not> UNALIGNED s1 s2
      then do {
        r \<leftarrow> word_loop m s1 s2;
        case r of None \<Rightarrow> Some 0 | Some (s1, s2) \<Rightarrow> byte_loop m s1 s2
      }
      else byte_loop m s1 s2)"

section \<open>The NUL test\<close>

lemma odd_div_byte: "odd (n div (k * 128)) \<longleftrightarrow> 128 \<le> n div k mod 256" for n k :: nat
proof -
  have "odd (q div 128) \<longleftrightarrow> 128 \<le> q mod 256" for q :: nat
    using mod_mult2_eq [of q 128 2] by (auto simp: odd_iff_mod_2_eq_one)
  then show ?thesis by (simp only: div_mult2_eq)
qed

lemma bit_0x80808080: "bit (0x80808080 :: u32) n \<longleftrightarrow> n \<in> {7, 15, 23, 31}"
proof -
  have m: "(0x80808080 :: u32) = push_bit 7 1 OR push_bit 15 1 OR push_bit 23 1 OR push_bit 31 1" by simp
  show ?thesis
    unfolding m by (simp only: bit_or_iff bit_push_bit_iff bit_1_iff) auto
qed

lemma detect_bits: "DETECTNULL X \<noteq> 0 \<longleftrightarrow> (\<exists>n \<in> {7, 15, 23, 31}. bit (X - 0x01010101) n \<and> \<not> bit X n)"
proof -
  have b: "bit (DETECTNULL X) n \<longleftrightarrow> n \<in> {7, 15, 23, 31} \<and> bit (X - 0x01010101) n \<and> \<not> bit X n" for n
    unfolding DETECTNULL_def bit_and_iff bit_not_iff bit_0x80808080 by auto
  show ?thesis by (metis b bit_0_eq bit_eqI bot_apply bot_bool_def)
qed

lemma bit_word_byte: "bit (of_nat x :: u32) n \<longleftrightarrow> n < 32 \<and> odd (x div 2 ^ n)"
  by transfer (simp add: bit_take_bit_iff bit_of_nat_iff_bit flip: bit_iff_odd)

lemma bit_bytes:
  "bit (of_nat x :: u32) 7 \<longleftrightarrow> 128 \<le> x mod 256" "bit (of_nat x :: u32) 15 \<longleftrightarrow> 128 \<le> x div 256 mod 256"
  "bit (of_nat x :: u32) 23 \<longleftrightarrow> 128 \<le> x div 65536 mod 256" "bit (of_nat x :: u32) 31 \<longleftrightarrow> 128 \<le> x div 16777216 mod 256"
  using odd_div_byte [of x 1] odd_div_byte [of x 256] odd_div_byte [of x 65536] odd_div_byte [of x 16777216]
  by (simp_all add: bit_word_byte)

lemma low_byte: "a < 256 \<Longrightarrow> (a + 256 * r) mod 256 = a" "a < 256 \<Longrightarrow> (a + 256 * r) div 256 = r" for a r :: nat
  by simp_all

lemma div_bytes: "n div 65536 = n div 256 div 256" "n div 16777216 = n div 256 div 256 div 256" for n :: nat
  by (simp_all add: div_mult2_eq [symmetric])

lemma word4_bytes:
  "a < 256 \<Longrightarrow> word4 a b c d mod 256 = a"
  "a < 256 \<Longrightarrow> b < 256 \<Longrightarrow> word4 a b c d div 256 mod 256 = b"
  "a < 256 \<Longrightarrow> b < 256 \<Longrightarrow> c < 256 \<Longrightarrow> word4 a b c d div 65536 mod 256 = c"
  "a < 256 \<Longrightarrow> b < 256 \<Longrightarrow> c < 256 \<Longrightarrow> d < 256 \<Longrightarrow> word4 a b c d div 16777216 mod 256 = d"
  by (simp_all only: word4_def low_byte div_bytes mod_less)

lemma detect_word4:
  assumes b: "a < 256" "b < 256" "c < 256" "d < 256"
  shows "DETECTNULL (of_nat (word4 a b c d)) \<noteq> 0 \<longleftrightarrow> 0 \<in> {a, b, c, d}"
proof -
  let ?x = "word4 a b c d"
  have minus: "(of_nat ?x :: u32) - 0x01010101 = of_nat (?x + 4278124287)" by simp
  consider (none) a' b' c' d' where "a = Suc a'" "b = Suc b'" "c = Suc c'" "d = Suc d'"
    | (0) "a = 0" | (1) a' where "a = Suc a'" "b = 0" | (2) a' b' where "a = Suc a'" "b = Suc b'" "c = 0"
    | (3) a' b' c' where "a = Suc a'" "b = Suc b'" "c = Suc c'" "d = 0"
    by (metis not0_implies_Suc)
  then show ?thesis
  proof cases
    case none
    have "?x = word4 a' b' c' d' + 0x01010101" by (simp add: word4_def none)
    then have "(of_nat ?x :: u32) - 0x01010101 = of_nat (word4 a' b' c' d')" by simp
    then show ?thesis
      using b by (simp add: detect_bits bit_bytes word4_bytes none)
  next
    case 0
    have "?x + 4278124287 = word4 255 (b + 254) (c + 254) (d + 254)" by (simp add: word4_def 0)
    note m = minus [unfolded this]
    show ?thesis unfolding detect_bits m using b 0 by (simp add: bit_bytes word4_bytes)
  next
    case 1
    have "?x + 4278124287 = word4 a' 255 (c + 254) (d + 254)" by (simp add: word4_def 1)
    note m = minus [unfolded this]
    show ?thesis unfolding detect_bits m using b 1 by (simp add: bit_bytes word4_bytes)
  next
    case 2
    have "?x + 4278124287 = word4 a' b' 255 (d + 254)" by (simp add: word4_def 2)
    note m = minus [unfolded this]
    show ?thesis unfolding detect_bits m using b 2 by (simp add: bit_bytes word4_bytes)
  next
    case 3
    have "?x + 4278124287 = word4 a' b' c' 255" by (simp add: word4_def 3)
    note m = minus [unfolded this]
    show ?thesis unfolding detect_bits m using b 3 by (simp add: bit_bytes word4_bytes)
  qed
qed

section \<open>Agreement with the comparison of strings\<close>

text \<open>The string \<open>s\<close> with its terminator stands at address \<open>p\<close>.\<close>

fun string_at :: "(int \<Rightarrow> u8) \<Rightarrow> int \<Rightarrow> string \<Rightarrow> bool" where
  "string_at m p [] \<longleftrightarrow> m p = 0"
| "string_at m p (c # s) \<longleftrightarrow> code c \<noteq> 0 \<and> m p = ord8 c \<and> string_at m (p + 1) s"

lemma uint_ord8 [simp]: "uint (ord8 c) = code c"
  by (simp add: uint_nat code_def)

lemma ord8_eq_0 [simp]: "ord8 c = 0 \<longleftrightarrow> code c = 0"
  by (metis uint_ord8 uint_0_iff)

lemma ord8_inject [simp]: "ord8 a = ord8 b \<longleftrightarrow> a = b"
  by (metis chr8_ord8)

lemma byte_loop_strcmp: "string_at m p s \<Longrightarrow> string_at m q t \<Longrightarrow> byte_loop m p q = Some (strcmp s t)"
  by (induction s t arbitrary: p q rule: strcmp.induct) (subst byte_loop.simps; auto)+

text \<open>Equal bytes in front: up to a NUL they make the strings equal, without one they can be left out.\<close>

lemma equal_bytes:
  assumes "string_at m p s" "string_at m q t" "\<forall>k < n. m (p + int k) = m (q + int k)"
  shows "(\<exists>k < n. m (p + int k) = 0) \<and> s = t \<or>
    (\<forall>k < n. m (p + int k) \<noteq> 0) \<and> (\<exists>s' t'. string_at m (p + int n) s' \<and> string_at m (q + int n) t' \<and>
       strcmp s' t' = strcmp s t \<and> length s = length s' + n)"
  using assms
proof (induction n arbitrary: p q s t)
  case (Suc n)
  have e: "m p = m q" using spec [OF Suc.prems(3), of 0] by simp
  have rest: "\<forall>k < n. m (p + 1 + int k) = m (q + 1 + int k)"
  proof (intro allI impI)
    show "m (p + 1 + int k) = m (q + 1 + int k)" if "k < n" for k
      using spec [OF Suc.prems(3), of "Suc k"] that by (simp add: add.assoc)
  qed
  have shift: "p + 1 + int k = p + int (Suc k)" "q + 1 + int k = q + int (Suc k)" for k by simp_all
  show ?case
  proof (cases "m p = 0")
    case True
    then have "s = []" "t = []" using Suc.prems(1,2) e by (cases s; cases t; auto)+
    then show ?thesis using True by (intro disjI1 conjI exI [of _ 0]) simp_all
  next
    case False
    then obtain c s' t' where st: "s = c # s'" "t = c # t'" "string_at m (p + 1) s'" "string_at m (q + 1) t'"
      using Suc.prems(1,2) e by (cases s; cases t; auto)
    from Suc.IH [OF st(3,4) rest] show ?thesis
    proof (elim disjE conjE)
      assume "\<exists>k < n. m (p + 1 + int k) = 0" "s' = t'"
      then show ?thesis unfolding shift st(1,2) by blast
    next
      assume z: "\<forall>k < n. m (p + 1 + int k) \<noteq> 0"
        and r: "\<exists>u v. string_at m (p + 1 + int n) u \<and> string_at m (q + 1 + int n) v \<and> strcmp u v = strcmp s' t' \<and> length s' = length u + n"
      have "\<forall>k < Suc n. m (p + int k) \<noteq> 0"
        using False z unfolding shift by (auto simp: less_Suc_eq_0_disj)
      then show ?thesis using r unfolding shift st(1,2) by simp
    qed
  qed
qed auto

lemma less_4: "(\<exists>k < 4. P k) \<longleftrightarrow> P 0 \<or> P 1 \<or> P 2 \<or> P 3" "(\<forall>k < 4. P k) \<longleftrightarrow> P 0 \<and> P 1 \<and> P 2 \<and> P 3" for P :: "nat \<Rightarrow> bool"
  by (auto simp: numeral_eq_Suc less_Suc_eq)

lemma load_word_eq:
  "load_word m p = load_word m q \<longleftrightarrow> (\<forall>k < 4. m (p + int k) = m (q + int k))"
proof -
  let ?w = "\<lambda>p. word4 (unat (m p)) (unat (m (p + 1))) (unat (m (p + 2))) (unat (m (p + 3)))"
  have le: "unat b \<le> 255" for b :: u8 using unat_u8_less [of b] by linarith
  have "?w p < 2 ^ 32" for p
    using le [of "m p"] le [of "m (p + 1)"] le [of "m (p + 2)"] le [of "m (p + 3)"] unfolding word4_def by simp
  then have u: "unat (load_word m p) = ?w p" for p by (simp add: load_word_def unat_of_nat)
  have b: "?w p mod 256 = unat (m p)" "?w p div 256 mod 256 = unat (m (p + 1))" "?w p div 65536 mod 256 = unat (m (p + 2))"
     "?w p div 16777216 mod 256 = unat (m (p + 3))" for p
    by (rule word4_bytes; simp)+
  have "load_word m p = load_word m q \<longleftrightarrow> ?w p = ?w q"
    using u by (metis unsigned_word_eqI)
  also have "\<dots> \<longleftrightarrow> m p = m q \<and> m (p + 1) = m (q + 1) \<and> m (p + 2) = m (q + 2) \<and> m (p + 3) = m (q + 3)"
    using b by (metis unsigned_word_eqI)
  finally show ?thesis by (simp add: less_4)
qed

lemma load_word_null: "DETECTNULL (load_word m p) \<noteq> 0 \<longleftrightarrow> (\<exists>k < 4. m (p + int k) = 0)"
proof -
  have "DETECTNULL (load_word m p) \<noteq> 0 \<longleftrightarrow> 0 \<in> {unat (m p), unat (m (p + 1)), unat (m (p + 2)), unat (m (p + 3))}"
    unfolding load_word_def by (rule detect_word4) simp_all
  then show ?thesis by (auto simp: less_4 unat_eq_zero)
qed

lemma strcmp_refl: "strcmp s s = 0"
  by (induction s) simp_all

lemma word_loop_strcmp:
  assumes "string_at m p s" "string_at m q t"
  shows "case word_loop m p q of None \<Rightarrow> False | Some None \<Rightarrow> strcmp s t = 0
     | Some (Some (p', q')) \<Rightarrow> byte_loop m p' q' = Some (strcmp s t)"
  using assms
proof (induction "length s" arbitrary: p q s t rule: less_induct)
  case less
  show ?case
  proof (cases "load_word m p = load_word m q")
    case False
    then show ?thesis by (subst word_loop.simps) (simp add: byte_loop_strcmp [OF less.prems])
  next
    case True
    then have e: "\<forall>k < 4. m (p + int k) = m (q + int k)" by (simp only: load_word_eq)
    show ?thesis
    proof (cases "\<exists>k < 4. m (p + int k) = 0")
      case z: True
      then have "s = t" using equal_bytes [OF less.prems e] by blast
      moreover have "word_loop m p q = Some None"
        using z e by (subst word_loop.simps) (simp only: True if_True load_word_null, force)
      ultimately show ?thesis by (simp add: strcmp_refl)
    next
      case nz: False
      then obtain s' t' where r: "string_at m (p + 4) s'" "string_at m (q + 4) t'" "strcmp s' t' = strcmp s t" "length s = length s' + 4"
        using equal_bytes [OF less.prems e] by auto
      have "length s' < length s" using r by simp
      from less.hyps [OF this r(1,2)] show ?thesis
        unfolding word_loop.simps [of m p q] using nz r(3) by (simp only: True [symmetric] load_word_null if_True if_False simp_thms)
    qed
  qed
qed

text \<open>
  C16. \<^verbatim>\<open>strcmp\<close> returns for any two strings in memory, aligned or not, and gives the difference of the first
  characters in which they differ, or 0: the comparison a word at a time with its test for
  a NUL byte computes the same as the comparison of the characters.
\<close>

theorem strcmp_mem_strcmp:
  assumes "string_at m p s" "string_at m q t"
  shows "strcmp_mem m p q = Some (strcmp s t)"
  using word_loop_strcmp [OF assms] byte_loop_strcmp [OF assms]
  by (auto simp: strcmp_mem_def split: option.splits)

definition two_labels :: "int \<Rightarrow> u8" where
  "two_labels a = (if 8 \<le> a \<and> a < 14 then ord8 (''NIMIME'' ! nat (a - 8)) else if 24 \<le> a \<and> a < 30 then ord8 (''NIMIMA'' ! nat (a - 24)) else 0)"

theorem strcmp_mem_strcmp_witness: "strcmp_mem two_labels 8 24 = Some 4"
proof -
  have "string_at two_labels 8 ''NIMIME''" "string_at two_labels 24 ''NIMIMA''" by code_simp+
  from strcmp_mem_strcmp [OF this] show ?thesis by (simp add: code_def)
qed

end
