(* ===== verification/Dump.thy ===== *)
theory Dump
  imports Serial Status Fat
begin

text \<open>
  The dumps \<^verbatim>\<open>dump_disk\<close> of disk.c and \<^verbatim>\<open>dump_mbr\<close> of fat.c: sequences of log lines at the
  level DBG. Values narrower than \<^verbatim>\<open>int\<close> are promoted, and the 32-bit ones printed with
  \<^verbatim>\<open>%d\<close> are read as signed.
\<close>

fun log_all ::
  "'e platform \<Rightarrow> serial_vars \<Rightarrow> options_t \<Rightarrow> string \<Rightarrow> (int \<times> string) list \<Rightarrow> ('e, 'z) mach_scheme \<Rightarrow> ('e, 'z) mach_scheme option" where
  "log_all P v p file [] s = Some s"
| "log_all P v p file ((line, msg) # ms) s =
     do { s \<leftarrow> print_log P v p MINIOS_LOG_DBG file line msg s; log_all P v p file ms s }"

definition dump_disk_lines :: "disk_param \<Rightarrow> (int \<times> string) list" where
  "dump_disk_lines param =
     [(579, ''----------start dump disk--------''),
      (580, ''++id: '' @ hex (unat (disk_id param))),
      (581, ''++drives: '' @ fmt_d (uint (drives param))),
      (582, ''++last_heads: '' @ fmt_d (uint (last_heads param))),
      (583, ''++last_cylinders: '' @ fmt_d (uint (last_cylinders param))),
      (584, ''++last_sectors_per_track: '' @ fmt_d (uint (last_sectors_per_track param))),
      (585, ''++drive_type: '' @ fmt_d (uint (drive_type param))),
      (586, ''++has_ext: '' @ fmt_d (uint (has_ext param))),
      (587, ''++ext size: '' @ fmt_d (uint (ext_size (ext param)))),
      (588, ''++ext flags: '' @ fmt_d (uint (ext_flags (ext param)))),
      (589, ''++ext ncylinders: '' @ fmt_d (sint (ext_ncylinders (ext param)))),
      (590, ''++ext nheads: '' @ fmt_d (sint (ext_nheads (ext param)))),
      (591, ''++ext sectors_per_track: '' @ fmt_d (sint (ext_sectors_per_track (ext param)))),
      (592, ''++ext nsectors: '' @ dec (unat (ext_nsectors (ext param)))),
      (593, ''++ext bytes_per_sector: '' @ fmt_d (uint (ext_bytes_per_sector (ext param)))),
      (594, ''++ext edd: '' @ hex (unat (ext_edd (ext param)))),
      (595, ''----------end dump disk--------'')]"

definition dump_disk ::
  "'e platform \<Rightarrow> serial_vars \<Rightarrow> options_t \<Rightarrow> disk_param \<Rightarrow> ('e, 'z) mach_scheme \<Rightarrow> ('e, 'z) mach_scheme option" where
  "dump_disk P v p param s = log_all P v p ''disk.c'' (dump_disk_lines param) s"

text \<open>The line number of the rows is \<^verbatim>\<open>__LINE__\<close> in a call of several lines, which the preprocessor chooses.\<close>

fun blank_separated :: "string list \<Rightarrow> string" where
  "blank_separated [] = []"
| "blank_separated [t] = t"
| "blank_separated (t # u # ts) = t @ '' '' @ blank_separated (u # ts)"

definition mbr_row :: "bytes \<Rightarrow> nat \<Rightarrow> string" where
  "mbr_row buffer i = blank_separated (map (\<lambda>k. fmt_02x (buffer ! (i + k))) [0..<16])"

definition dump_mbr ::
  "'e platform \<Rightarrow> serial_vars \<Rightarrow> options_t \<Rightarrow> int \<Rightarrow> bytes \<Rightarrow> ('e, 'z) mach_scheme \<Rightarrow> ('e, 'z) mach_scheme option" where
  "dump_mbr P v p line buffer s =
     log_all P v p ''fat.c'' ((115, ''mbr sector is '') # map (\<lambda>k. (line, mbr_row buffer (16 * k))) [0..<32]) s"

section \<open>What the dumps send\<close>

text \<open>With the level on, the lines arrive in order; with it off, nothing happens.\<close>

definition log_text :: "string \<Rightarrow> (int \<times> string) list \<Rightarrow> string" where
  "log_text file ms = concat (map (\<lambda>(line, msg). log_line MINIOS_LOG_DBG file line msg) ms)"

lemma log_all_sends:
  assumes "uart_ok P v R idle sent" "opt_debug p AND MINIOS_LOG_DBG \<noteq> 0"
  shows "latch_closed (R (dev s)) \<Longrightarrow> \<exists>e. log_all P v p file ms s = Some (s\<lparr>dev := e\<rparr>) \<and> sent e = sent (dev s) @ map ord8 (log_text file ms)"
proof (induction ms arbitrary: s)
  case Nil
  then show ?case by (intro exI [of _ "dev s"]) (simp add: log_text_def)
next
  case (Cons m ms)
  obtain line msg where m: "m = (line, msg)" by (cases m)
  obtain e where e: "fprintf_stderr P v (log_line MINIOS_LOG_DBG file line msg) s = Some (s\<lparr>dev := e\<rparr>)"
     "sent e = sent (dev s) @ map ord8 (log_line MINIOS_LOG_DBG file line msg)" "latch_closed (R e)"
    using fprintf_sends [OF assms(1) Cons.prems] by blast
  from Cons.IH [of "s\<lparr>dev := e\<rparr>"] show ?case using e assms(2) by (auto simp: m print_log_def log_text_def)
qed

lemma log_all_silent: "opt_debug p AND MINIOS_LOG_DBG = 0 \<Longrightarrow> log_all P v p file ms s = Some s"
  by (induction ms) (auto simp: print_log_def)

lemma dump_disk_sends:
  "uart_ok P v R idle sent \<Longrightarrow> latch_closed (R (dev s)) \<Longrightarrow> \<exists>e. dump_disk P v p param s = Some (s\<lparr>dev := e\<rparr>) \<and>
     sent e = sent (dev s) @ (if opt_debug p AND MINIOS_LOG_DBG = 0 then [] else map ord8 (log_text ''disk.c'' (dump_disk_lines param)))"
  using log_all_sends [of P v R idle sent p s "''disk.c''" "dump_disk_lines param"]
    log_all_silent [of p P v "''disk.c''" "dump_disk_lines param" s] exI [of _ "dev s"]
  by (auto simp: dump_disk_def)

end
