(* ===== verification/Gloss.thy ===== *)
theory Gloss
  imports Prelude "HOL-Library.Signed_Division"
begin

text \<open>
  The stubs of libgloss that newlib stands on: the break of the heap under \<^verbatim>\<open>malloc\<close> and the calls of a
  POSIX system, of which only those on the console descriptors 1 and 2 succeed (\<^verbatim>\<open>write\<close> is in the theory Serial). The heap starts at the
  linker's symbol \<^verbatim>\<open>_end\<close>, an argument here, and hands out consecutive segments below its limit.
\<close>

section \<open>The heap\<close>

definition MAX_HEAP_SIZE :: int where "MAX_HEAP_SIZE = 10485760"
definition EBADF :: int where "EBADF = 9"
definition EAGAIN :: int where "EAGAIN = 11"
definition ENOMEM :: int where "ENOMEM = 12"
definition ENOSYS :: int where "ENOSYS = 88"

record libc =
  errno :: int
  heap_ptr :: u32

text \<open>\<^verbatim>\<open>heap_ptr\<close> is 0 until the first call. The sum of the test is a 32-bit \<^verbatim>\<open>int\<close>; \<open>None\<close> is the result \<^verbatim>\<open>(void *) -1\<close>.\<close>

definition sbrk_start :: "u32 \<Rightarrow> libc \<Rightarrow> libc" where
  "sbrk_start base c = (if heap_ptr c = 0 then c\<lparr>heap_ptr := base\<rparr> else c)"

definition sbrk :: "u32 \<Rightarrow> int \<Rightarrow> libc \<Rightarrow> u32 option \<times> libc" where
  "sbrk base nbytes c =
     (let c = sbrk_start base c
      in if sint (heap_ptr c - base + word_of_int nbytes) < MAX_HEAP_SIZE
         then (Some (heap_ptr c), c\<lparr>heap_ptr := heap_ptr c + word_of_int nbytes\<rparr>)
         else (None, c\<lparr>errno := ENOMEM\<rparr>))"

text \<open>A run of requests, with the segments that were granted.\<close>

fun sbrk_run :: "u32 \<Rightarrow> int list \<Rightarrow> libc \<Rightarrow> (u32 \<times> int) list \<times> libc" where
  "sbrk_run base [] c = ([], c)"
| "sbrk_run base (n # ns) c =
     (case sbrk base n c of
        (None, c) \<Rightarrow> sbrk_run base ns c
      | (Some p, c) \<Rightarrow> (case sbrk_run base ns c of (gs, c) \<Rightarrow> ((p, n) # gs, c)))"

section \<open>The stubs\<close>

definition console :: "int \<Rightarrow> bool" where "console file \<longleftrightarrow> 1 = file \<or> 2 = file"

definition S_IFCHR :: u32 where "S_IFCHR = 8192"

definition fstat :: "int \<Rightarrow> u32 \<Rightarrow> libc \<Rightarrow> (int \<times> u32) \<times> libc" where
  "fstat fildes st_mode c = (if console fildes then ((0, S_IFCHR), c) else ((-1, st_mode), c\<lparr>errno := EBADF\<rparr>))"

definition isatty :: "int \<Rightarrow> libc \<Rightarrow> int \<times> libc" where
  "isatty file c = (if console file then (1, c) else (-1, c\<lparr>errno := EBADF\<rparr>))"

definition lseek :: "int \<Rightarrow> int \<Rightarrow> int \<Rightarrow> libc \<Rightarrow> int \<times> libc" where
  "lseek file p dir c = (if console file then (0, c) else (-1, c\<lparr>errno := EBADF\<rparr>))"

text \<open>The buffer of \<^verbatim>\<open>read\<close> is never written.\<close>

definition read_stub :: "int \<Rightarrow> bytes \<Rightarrow> int \<Rightarrow> libc \<Rightarrow> (int \<times> bytes) \<times> libc" where
  "read_stub file buf len c = (if console file then ((0, buf), c) else ((-1, buf), c\<lparr>errno := EBADF\<rparr>))"

definition close_stub :: "int \<Rightarrow> libc \<Rightarrow> int \<times> libc" where
  "close_stub file c = (-1, c\<lparr>errno := EBADF\<rparr>)"

definition fork :: "libc \<Rightarrow> int \<times> libc" where
  "fork c = (-1, c\<lparr>errno := EAGAIN\<rparr>)"

definition open_stub :: "string \<Rightarrow> int \<Rightarrow> int \<Rightarrow> libc \<Rightarrow> int \<times> libc" where
  "open_stub file flags mode c = (-1, c\<lparr>errno := ENOSYS\<rparr>)"

text \<open>\<^verbatim>\<open>_exit\<close> divides by zero on purpose, and loops forever when the first quotient is not zero. It never returns.\<close>

datatype exit_end = Divide_error | Endless_loop

definition exit_stub :: "int \<Rightarrow> exit_end" where
  "exit_stub rc = (let x = rc sdiv 2147483647 in if x = 0 then Divide_error else Endless_loop)"


lemma exit_stub_divides: "\<bar>rc\<bar> < 2147483647 \<Longrightarrow> exit_stub rc = Divide_error"
  by (simp add: exit_stub_def signed_divide_int_def)

text \<open>The tests of \<^verbatim>\<open>stdio\<close> agree: a descriptor that \<^verbatim>\<open>isatty\<close> calls a terminal is a character device that can be sought and read.\<close>

lemma console_stubs:
  "fst (isatty file c) = 1 \<longleftrightarrow> fst (fst (fstat file m c)) = 0"
  "fst (isatty file c) = 1 \<longleftrightarrow> fst (lseek file p d c) = 0"
  "fst (isatty file c) = 1 \<longleftrightarrow> fst (fst (read_stub file buf n c)) = 0"
  by (simp_all add: isatty_def fstat_def lseek_def read_stub_def)

section \<open>The segments of the heap\<close>

text \<open>The specification: of the requests in turn, those that end below the limit are granted, at the offset where the last one ended.\<close>

fun bump :: "int \<Rightarrow> int list \<Rightarrow> (int \<times> int) list" where
  "bump used [] = []"
| "bump used (n # ns) = (if used + n < MAX_HEAP_SIZE then (used, n) # bump (used + n) ns else bump used ns)"

fun bump_used :: "int \<Rightarrow> int list \<Rightarrow> int" where
  "bump_used used [] = used"
| "bump_used used (n # ns) = bump_used (if used + n < MAX_HEAP_SIZE then used + n else used) ns"

definition break_at :: "u32 \<Rightarrow> int \<Rightarrow> libc \<Rightarrow> bool" where
  "break_at base used c \<longleftrightarrow> heap_ptr (sbrk_start base c) = base + word_of_int used"

lemma bump_within:
  "(a, n) \<in> set (bump used ns) \<Longrightarrow> \<forall>n \<in> set ns. 0 \<le> n \<Longrightarrow> used \<le> a \<and> 0 \<le> n \<and> a + n < MAX_HEAP_SIZE"
  by (induction used ns rule: bump.induct) (auto split: if_splits)

lemma bump_disjoint:
  "\<forall>n \<in> set ns. 0 \<le> n \<Longrightarrow> sorted_wrt (\<lambda>(a, m) (b, n). a + m \<le> b) (bump used ns)"
  by (induction used ns rule: bump.induct) (auto dest!: bump_within)

lemma uint_base:
  "uint (base :: u32) + MAX_HEAP_SIZE < 2 ^ 32 \<Longrightarrow> 0 \<le> used \<Longrightarrow> used < MAX_HEAP_SIZE \<Longrightarrow>
   uint (base + word_of_int used) = uint base + used"
  by (simp add: uint_word_ariths uint_word_of_int MAX_HEAP_SIZE_def take_bit_int_eq_self)

lemma sbrk_test:
  assumes "0 \<le> used" "used < MAX_HEAP_SIZE" "0 \<le> n" "n < 2 ^ 30"
  shows "sint (base + word_of_int used - base + word_of_int n :: u32) = used + n"
proof -
  have "base + word_of_int used - base + word_of_int n = (word_of_int (used + n) :: u32)" by simp
  moreover have "sint (word_of_int (used + n) :: u32) = used + n"
    unfolding sint_sbintrunc' by (rule signed_take_bit_int_eq_self) (use assms in \<open>simp_all add: MAX_HEAP_SIZE_def\<close>)
  ultimately show ?thesis by (rule ssubst)
qed

lemma break_at_granted:
  assumes "base \<noteq> 0" "uint base + MAX_HEAP_SIZE < 2 ^ 32" "0 \<le> used" "used < MAX_HEAP_SIZE"
  shows "break_at base used (c\<lparr>heap_ptr := base + word_of_int used\<rparr>)"
proof -
  have "0 < uint base" using assms(1) by (metis order_le_less unsigned_greater_eq uint_0_iff)
  then have "uint (base + word_of_int used) \<noteq> 0" using uint_base [OF assms(2-4)] assms(3) by linarith
  then have "base + word_of_int used \<noteq> 0" by (metis unsigned_0)
  then show ?thesis by (simp add: break_at_def sbrk_start_def)
qed

lemma break_at_refused: "base \<noteq> 0 \<Longrightarrow> break_at base used c \<Longrightarrow> break_at base used ((sbrk_start base c)\<lparr>errno := e\<rparr>)"
  by (auto simp: break_at_def sbrk_start_def split: if_splits)

lemma sbrk_run_bump:
  "break_at base used c \<Longrightarrow> base \<noteq> 0 \<Longrightarrow> uint base + MAX_HEAP_SIZE < 2 ^ 32 \<Longrightarrow> 0 \<le> used \<Longrightarrow> used < MAX_HEAP_SIZE \<Longrightarrow>
   \<forall>n \<in> set ns. 0 \<le> n \<and> n < 2 ^ 30 \<Longrightarrow>
   \<exists>c'. sbrk_run base ns c = (map (\<lambda>(a, n). (base + word_of_int a, n)) (bump used ns), c')"
proof (induction ns arbitrary: used c)
  case (Cons n ns)
  let ?c = "sbrk_start base c"
  have hp: "heap_ptr ?c = base + word_of_int used" using Cons.prems(1) by (simp add: break_at_def)
  have t: "sint (heap_ptr ?c - base + word_of_int n) = used + n"
    unfolding hp by (rule sbrk_test) (use Cons.prems in simp_all)
  show ?case
  proof (cases "used + n < MAX_HEAP_SIZE")
    case True
    let ?d = "?c\<lparr>heap_ptr := base + word_of_int (used + n)\<rparr>"
    have "sbrk base n c = (Some (base + word_of_int used), ?d)"
      using True t hp by (simp add: sbrk_def Let_def add.assoc)
    moreover have "break_at base (used + n) ?d"
      by (rule break_at_granted) (use True Cons.prems in simp_all)
    ultimately show ?thesis using Cons.IH [of "used + n" ?d] Cons.prems True by auto
  next
    case False
    then have "sbrk base n c = (None, ?c\<lparr>errno := ENOMEM\<rparr>)" using t by (simp add: sbrk_def Let_def)
    then show ?thesis using Cons.IH [OF break_at_refused [OF Cons.prems(2,1)]] Cons.prems False by auto
  qed
qed simp

text \<open>
  C40. Whatever sizes \<^verbatim>\<open>malloc\<close> asks for, one after the other, the segments that \<^verbatim>\<open>sbrk\<close> grants are those of the
  specification: they lie between \<^verbatim>\<open>_end\<close> and \<^verbatim>\<open>_end\<close> plus 10 MB, each behind the one before, so that no
  two overlap. The requests are not negative and below 1 GB, and the heap does not wrap around.
\<close>

theorem sbrk_segments:
  assumes "heap_ptr c = 0" "base \<noteq> 0" "uint base + MAX_HEAP_SIZE < 2 ^ 32" "\<forall>n \<in> set ns. 0 \<le> n \<and> n < 2 ^ 30"
  shows "map (\<lambda>(p, n). (uint p - uint base, n)) (fst (sbrk_run base ns c)) = bump 0 ns \<and>
    sorted_wrt (\<lambda>(p, m) (q, n). uint p + m \<le> uint q) (fst (sbrk_run base ns c)) \<and>
    (\<forall>(p, n) \<in> set (fst (sbrk_run base ns c)). uint base \<le> uint p \<and> uint p + n < uint base + MAX_HEAP_SIZE)"
proof -
  let ?at = "\<lambda>(a, n). (base + word_of_int a :: u32, n)"
  have pos: "\<forall>n \<in> set ns. 0 \<le> n" using assms(4) by simp
  have "break_at base 0 c" using assms(1) by (simp add: break_at_def sbrk_start_def)
  from sbrk_run_bump [OF this assms(2,3) _ _ assms(4)]
  have run: "fst (sbrk_run base ns c) = map ?at (bump 0 ns)" by (auto simp: MAX_HEAP_SIZE_def)
  have at: "uint (base + word_of_int a) = uint base + a" "a + n < MAX_HEAP_SIZE" "0 \<le> a" if "(a, n) \<in> set (bump 0 ns)" for a n
    using bump_within [OF that pos] uint_base [OF assms(3), of a] by auto
  have "map (\<lambda>(p, n). (uint p - uint base, n)) (map ?at (bump 0 ns)) = bump 0 ns"
    using at(1) by (auto intro!: map_idI)
  moreover have "sorted_wrt (\<lambda>(p, m) (q, n). uint p + m \<le> uint q) (map ?at (bump 0 ns))"
    unfolding sorted_wrt_map using bump_disjoint [OF pos, of 0] by (rule sorted_wrt_mono_rel [rotated]) (auto simp: at(1))
  ultimately show ?thesis using at unfolding run by auto
qed

text \<open>Two requests of 8 KB and one of 10 MB: the last is refused.\<close>

theorem sbrk_segments_witness:
  "map (\<lambda>(p, n). (uint p - uint (0x200000 :: u32), n)) (fst (sbrk_run 0x200000 [8192, 10485760, 8192] \<lparr>errno = 0, heap_ptr = 0\<rparr>)) =
     [(0, 8192), (8192, 8192)]"
  using sbrk_segments [of "\<lparr>errno = 0, heap_ptr = 0\<rparr>" "0x200000" "[8192, 10485760, 8192]"]
  by (simp add: MAX_HEAP_SIZE_def)

end
