(* ===== verification/Spec2Isabelle.thy ===== *)
theory Spec2Isabelle
  imports Whole_Run Inter Label Chs_Erase Strcmp Dump Gloss Strftime
begin

text \<open>
  A verification of DWiPe, a program that boots on a bare PC (\<^verbatim>\<open>minios\<close>, compiled with
  \<^verbatim>\<open>gcc -m32\<close> and linked with newlib) and erases every disk the BIOS knows, except the disks
  that carry a given FAT label.

  \<^bold>\<open>The program.\<close> \<^verbatim>\<open>do_main\<close> (dwipe.c) parses the command line (cmdline.c, option.c), starts the
  clock from the RTC and the time-stamp counter (timer.c), moves the real-mode code below
  1 MB (disk.c), draws the screen (display.c), asks INT 13h for the drives \<^verbatim>\<open>0x80\<close> to
  \<^verbatim>\<open>0xff\<close> (disk.c), wipes them one after the other and resets the machine. \<^verbatim>\<open>wipe_disk\<close>
  first looks for the label (fat.c), then overwrites the disk block by block in the mode
  of the options and shows its progress. Messages go to the serial line (debug.c, serial.c);
  an exception ends in the handler of inter.c.

  \<^bold>\<open>State.\<close> The machine is a chain of records that the components extend: \<open>mach\<close> (the mailbox of
  the BIOS calls and the device state), \<open>tmach\<close> (the variables of timer.c), \<open>dmach\<close> (the memory
  the screen lies in), \<open>world\<close> (options, random numbers, the disk table and the counters of
  dwipe.c) and \<open>sys\<close> (the control register). What is not code of the repository is the record \<open>platform\<close>:
  the BIOS, the port and counter instructions, \<^verbatim>\<open>malloc\<close> and \<^verbatim>\<open>free\<close>, and the boot program that
  is written to disks. Definitions take it as an argument; theorems state what they rely on as
  named predicates:
    \<^item> \<open>disk_image\<close>: reads change no disk, writes store the buffer in the blocks asked for;
    \<^item> \<open>accepts\<close> and \<open>readable\<close>: requests within the disk succeed and are answered with its content; \<open>chs_accepts\<close>: by cylinder,
      head and sector only the writes and verifications that stay on one track do, so those theorems are about disks
      whose tracks have a multiple of 16 sectors;
    \<^item> \<open>error_status\<close>: a failing call leaves a status other than 0;
    \<^item> \<open>heap_ok\<close>, \<open>gate_opens\<close>, \<open>rtc_settles\<close>: the heap has room for the buffer, and the timer gate and the
      clock chip react after some number of polls; \<open>uart_live\<close>: so does the transmitter of the serial port, and
      \<open>uart_ok\<close>: a byte stored while it is idle and the divisor latch is closed arrives;
    \<^item> \<open>ratios_ok\<close>: the current multiplier of the processor does not exceed the maximal one; \<open>rtc_shows\<close> and
      \<open>tsc_close\<close>: the date registers and the counter while the time is read. Dates are read from a clock in BCD
      and 24-hour mode.
  The witnesses instantiate them with concrete machines (\<open>ideal\<close>, \<open>main_pc\<close>, \<open>uart_pc\<close>, \<open>new_year_pc\<close>, and
  \<open>broken\<close> disks for the error theorems). A divide exception, a write behind an array and a loop that never ends are
  values: \<open>None\<close> or the left side of a sum.

  \<^bold>\<open>Theories.\<close>
    \<^item> Prelude: word types, byte buffers, C strings. Machine: the mailbox, the platform, the four
      INT 13h wrappers and the register exchange.
    \<^item> Lib (lib.c, lib.h): 64-bit division, shown to be division; the locale \<open>u64_division\<close> is what the
      callers use; delays and the cache switch.
    \<^item> Newlib: \<^verbatim>\<open>strcasecmp\<close>, \<^verbatim>\<open>strtok_r\<close>, \<^verbatim>\<open>strtol\<close>, \<^verbatim>\<open>rand\<close> and the conversions of \<^verbatim>\<open>printf\<close>; the locale
      \<open>str_compare\<close> is the interface of the comparisons. Strcmp: \<^verbatim>\<open>strcmp\<close> on memory, a word at a time,
      agrees with the comparison of character lists.
    \<^item> Options, Cmdline: the parser refines a specification over the list of tokens, gives options in range,
      and overruns its table from the 65th token on.
    \<^item> Disk, Bios: the driver, the packing and the two address conversions with their inverses, the
      requests each function issues (\<open>reaches\<close>, \<open>via\<close>) and the contract of the disks.
    \<^item> Fat, Label: the label scan; when the reads succeed it decides whether the disk is \<open>labelled\<close> in a partition of
      the types 0B, 0C, 0E and EF, and such a disk is left alone.
    \<^item> Timer, Cpu: calendar, RTC, time of day, identification and calibration; the clock is exact until
      its 32-bit microseconds wrap and then falls back, start-up returns on the processors that are calibrated, with the date
      of the real-time clock in its message until 2037, and ends in a divide exception on the others.
    \<^item> Localtime, Strftime: the calendar and the time formatting of newlib. \<^verbatim>\<open>gmtime_r\<close> gives the one valid
      broken-down time of its argument, \<^verbatim>\<open>localtime_r\<close> that of the shifted time, a daylight-saving rule finds its
      weekday, and \<^verbatim>\<open>strftime\<close> stays within a buffer of at least one byte.
    \<^item> Display, Screen, Inter: text and number output against \<^verbatim>\<open>printf\<close>, the cells written, and the
      report of the interrupt handler.
    \<^item> Status: status lines and the progress bar, which stays within its bounds.
    \<^item> Wipe: one block, one disk. A wipe writes only to its disk and within it, returns, writes nothing in test
      mode, and BIOS errors go unnoticed.
    \<^item> Block_Wipe, Erase, Chs_Erase: what a wipe leaves on the disk. The locale \<open>block_wiper\<close> is the contract of
      wiping one block, and proves once what the loop over the blocks leaves; it is interpreted for disks
      with the INT 13h extensions (the modes FAST and DOD leave zeros) and, without them, for the mode DOD
      (zeros) and the mode FAST (whatever \<^verbatim>\<open>malloc\<close> returned: that branch never clears its buffer).
    \<^item> Serial, Dump: the UART, the write stub of libgloss, the log and the dumps. Gloss: the other stubs of
      libgloss, among them \<^verbatim>\<open>sbrk\<close>, whose segments below its limit never overlap.
    \<^item> Main_Program, Whole_Run: enumeration, the loop over the disks and \<^verbatim>\<open>do_main\<close>; from the hypotheses
      above, a whole run returns, counts every disk once, changes nothing in test mode, and
      every disk it finds ends up erased or skipped.

  \<^bold>\<open>Loops.\<close> Loops over lists and counters are structural; the division loops have a termination proof;
  loops that wait for a device are \<open>partial_function\<close>s, and that they return is proved under
  the predicates above. No definition uses fuel.

  \<^bold>\<open>Left out.\<close> The log calls inside the functions of disk.c, fat.c and dwipe.c: they write only to the
  serial line, and nothing at all with the default \<^verbatim>\<open>debug=0\<close>; that a wipe returns is therefore stated
  for \<^verbatim>\<open>debug=0\<close>, and that the program returns for a serial line that is live. With them the loop over \<^verbatim>\<open>dump_disk\<close>, whose
  text is in Dump. The floating-point quotient of \<^verbatim>\<open>correct_tsc\<close> is the rational one. The
  assembly of head.S, int13.S, bootsect.S and mbr.S except the interface named above, and with it
  the page tables and the interrupt stubs; the rest of newlib, which is third-party code; the
  word and string variants of io.h, which nothing calls. The memory of the screen and that of the C program are
  kept apart, so a program variable is not changed by writing to the screen.
\<close>

end
